(* ===== verification/Bmux_Prelude.thy ===== *)
theory Bmux_Prelude
  imports Main "HOL-Library.Word" "HOL-Library.Monad_Syntax"
begin

text \<open>
  Shared vocabulary of the development: the machine integers of the source, its result type, the
  identifier newtypes of \<^verbatim>\<open>packages/session/models/src/lib.rs\<close> with their derived order,
  the checked and saturating arithmetic of the Rust standard library, and array accesses that panic
  out of range.  The lemmas collected here are the ones that several components use.
\<close>

unbundle bit_operations_syntax

section \<open>Machine integers and results\<close>

type_synonym u8 = "8 word"
type_synonym u16 = "16 word"
type_synonym u32 = "32 word"
type_synonym u64 = "64 word"
type_synonym i16 = "16 word"
type_synonym i32 = "32 word"
type_synonym i64 = "64 word"
type_synonym bytes = "u8 list"

text \<open>A Rust \<^verbatim>\<open>Result\<close> is a sum whose left side is the error.\<close>

abbreviation Err :: "'e \<Rightarrow> 'e + 'a" where "Err \<equiv> Inl"
abbreviation Ok :: "'a \<Rightarrow> 'e + 'a" where "Ok \<equiv> Inr"

text \<open>The question-mark operator: an error returns early.\<close>

definition rbind :: "'e + 'a \<Rightarrow> ('a \<Rightarrow> 'e + 'b) \<Rightarrow> 'e + 'b" where
  "rbind r f = (case r of Inl e \<Rightarrow> Inl e | Inr x \<Rightarrow> f x)"

lemma rbind_simps [simp]:
  "rbind (Inl e) f = Inl e"
  "rbind (Inr x) f = f x"
  by (simp_all add: rbind_def)

lemma rbind_Ok_iff: "rbind r f = Inr y \<longleftrightarrow> (\<exists>x. r = Inr x \<and> f x = Inr y)"
  by (cases r) auto

lemma rbind_Err_iff: "rbind r f = Inl e \<longleftrightarrow> r = Inl e \<or> (\<exists>x. r = Inr x \<and> f x = Inl e)"
  by (cases r) auto

section \<open>Checked and saturating arithmetic\<close>

definition saturating_sub :: "'a::len word \<Rightarrow> 'a word \<Rightarrow> 'a word" where
  "saturating_sub a b = (if b \<le> a then a - b else 0)"

definition saturating_add :: "'a::len word \<Rightarrow> 'a word \<Rightarrow> 'a word" where
  "saturating_add a b = (if unat a + unat b < 2 ^ LENGTH('a) then a + b else - 1)"

definition saturating_mul :: "'a::len word \<Rightarrow> 'a word \<Rightarrow> 'a word" where
  "saturating_mul a b = (if unat a * unat b < 2 ^ LENGTH('a) then a * b else - 1)"

definition checked_add :: "'a::len word \<Rightarrow> 'a word \<Rightarrow> 'a word option" where
  "checked_add a b = (if unat a + unat b < 2 ^ LENGTH('a) then Some (a + b) else None)"

lemma unat_max_word: "unat (- 1 :: 'a::len word) = 2 ^ LENGTH('a) - 1"
  by (simp add: unsigned_minus_1_eq_mask mask_eq_exp_minus_1)

lemma unat_saturating_sub [simp]: "unat (saturating_sub a b) = unat a - unat b"
  by (auto simp: saturating_sub_def unat_sub word_le_nat_alt)

lemma unat_saturating_add [simp]:
  fixes a b :: "'a::len word"
  shows "unat (saturating_add a b) = min (unat a + unat b) (2 ^ LENGTH('a) - 1)"
  by (auto simp: saturating_add_def unat_word_ariths unat_max_word)

lemma unat_checked_add: "checked_add a b = Some c \<Longrightarrow> unat c = unat a + unat b"
  by (auto simp: checked_add_def unat_word_ariths split: if_splits)

lemma checked_add_greater: "checked_add a b = Some c \<Longrightarrow> 0 < b \<Longrightarrow> a < c"
  by (auto dest: unat_checked_add simp: word_less_nat_alt)

lemma checked_add_None: "checked_add (a :: 'a::len word) 1 = None \<longleftrightarrow> a = - 1"
proof -
  have lt: "unat a < 2 ^ LENGTH('a)" by (rule unsigned_less)
  have "a = - 1 \<longleftrightarrow> unat a = unat (- 1 :: 'a word)"
    by (simp only: word_eq_iff_unsigned [where 'a = nat])
  also have "\<dots> \<longleftrightarrow> \<not> unat a + 1 < 2 ^ LENGTH('a)"
    using lt by (auto simp only: unat_max_word)
  finally show ?thesis by (simp add: checked_add_def)
qed

section \<open>Arrays that panic out of range\<close>

text \<open>
  A read, a write and a slice of a fixed-size array.  \<^term>\<open>None\<close> is the panic of the Rust
  index operators; \<open>arr_slice xs a b\<close> is \<^verbatim>\<open>xs[a..b]\<close>.
\<close>

definition arr_get :: "'a list \<Rightarrow> nat \<Rightarrow> 'a option" where
  "arr_get xs i = (if i < length xs then Some (xs ! i) else None)"

definition arr_set :: "'a list \<Rightarrow> nat \<Rightarrow> 'a \<Rightarrow> 'a list option" where
  "arr_set xs i v = (if i < length xs then Some (xs[i := v]) else None)"

definition arr_slice :: "'a list \<Rightarrow> nat \<Rightarrow> nat \<Rightarrow> 'a list option" where
  "arr_slice xs a b = (if a \<le> b \<and> b \<le> length xs then Some (take (b - a) (drop a xs)) else None)"

lemma arr_get_Some [simp]: "i < length xs \<Longrightarrow> arr_get xs i = Some (xs ! i)"
  by (simp add: arr_get_def)

lemma arr_set_Some [simp]: "i < length xs \<Longrightarrow> arr_set xs i v = Some (xs[i := v])"
  by (simp add: arr_set_def)

lemma arr_slice_Some [simp]:
  "a \<le> b \<Longrightarrow> b \<le> length xs \<Longrightarrow> arr_slice xs a b = Some (take (b - a) (drop a xs))"
  by (simp add: arr_slice_def)

section \<open>Identifiers\<close>

text \<open>
  \<^verbatim>\<open>Uuid\<close> is a 128-bit value compared as an unsigned integer; \<^verbatim>\<open>SessionId\<close> and
  \<^verbatim>\<open>ClientId\<close> are newtypes around it with the derived order.
\<close>

type_synonym uuid = "128 word"

datatype session_id = SessionId (session_uuid: uuid)

datatype client_id = ClientId (client_uuid: uuid)

instantiation session_id :: linorder
begin

definition less_eq_session_id :: "session_id \<Rightarrow> session_id \<Rightarrow> bool" where
  "less_eq_session_id a b = (session_uuid a \<le> session_uuid b)"

definition less_session_id :: "session_id \<Rightarrow> session_id \<Rightarrow> bool" where
  "less_session_id a b = (session_uuid a < session_uuid b)"

instance
  by standard
    (auto simp: less_eq_session_id_def less_session_id_def session_id.expand
      less_le_not_le intro: session_id.expand)

end

instantiation client_id :: linorder
begin

definition less_eq_client_id :: "client_id \<Rightarrow> client_id \<Rightarrow> bool" where
  "less_eq_client_id a b = (client_uuid a \<le> client_uuid b)"

definition less_client_id :: "client_id \<Rightarrow> client_id \<Rightarrow> bool" where
  "less_client_id a b = (client_uuid a < client_uuid b)"

instance
  by standard
    (auto simp: less_eq_client_id_def less_client_id_def client_id.expand
      less_le_not_le intro: client_id.expand)

end

lemma id_less_simps [simp]:
  "(SessionId a < SessionId b) = (a < b)" "(SessionId a \<le> SessionId b) = (a \<le> b)"
  "(ClientId a < ClientId b) = (a < b)" "(ClientId a \<le> ClientId b) = (a \<le> b)"
  by (simp_all add: less_session_id_def less_eq_session_id_def
      less_client_id_def less_eq_client_id_def)

section \<open>Locks, strings and trimming\<close>

text \<open>
  A \<^verbatim>\<open>RwLock\<close> is its content with the poison flag that a panicking writer leaves behind.
  \<^verbatim>\<open>with_read\<close> and \<^verbatim>\<open>with_write\<close> are the accessors that every adapter of the source
  declares for itself: they run the closure on the content, or return the fallback when the lock is
  poisoned.
\<close>

record 'a rwlock =
  lk_poisoned :: bool
  lk_inner :: 'a

definition with_read :: "('a \<Rightarrow> 't) \<Rightarrow> 't \<Rightarrow> 'a rwlock \<Rightarrow> 't" where
  "with_read f fallback lk = (if lk_poisoned lk then fallback else f (lk_inner lk))"

definition with_write :: "('a \<Rightarrow> 'a \<times> 't) \<Rightarrow> 't \<Rightarrow> 'a rwlock \<Rightarrow> 'a rwlock \<times> 't" where
  "with_write f fallback lk =
     (if lk_poisoned lk then (lk, fallback)
      else let (x, r) = f (lk_inner lk) in (lk\<lparr>lk_inner := x\<rparr>, r))"

text \<open>
  A Rust string is the list of its Unicode scalar values.  \<open>trim\<close> drops the leading and trailing
  characters with the Unicode property \<^verbatim>\<open>White_Space\<close>.
\<close>

type_synonym rstring = "nat list"

definition lit :: "string \<Rightarrow> rstring" where
  "lit s = map of_char s"

definition is_whitespace :: "nat \<Rightarrow> bool" where
  "is_whitespace c \<longleftrightarrow>
     9 \<le> c \<and> c \<le> 13 \<or> c = 32 \<or> c = 0x85 \<or> c = 0xA0 \<or> c = 0x1680 \<or>
     0x2000 \<le> c \<and> c \<le> 0x200A \<or> c = 0x2028 \<or> c = 0x2029 \<or> c = 0x202F \<or>
     c = 0x205F \<or> c = 0x3000"

definition trim :: "rstring \<Rightarrow> rstring" where
  "trim s = rev (dropWhile is_whitespace (rev (dropWhile is_whitespace s)))"

section \<open>Lists\<close>

lemma take_drop_append_split: "i \<le> j \<Longrightarrow> take (j - i) (drop i xs) @ drop j xs = drop i xs"
  by (metis append_take_drop_id drop_drop le_add_diff_inverse2)

lemma filter_neq_id [simp]: "x \<notin> set xs \<Longrightarrow> filter (\<lambda>y. y \<noteq> x) xs = xs"
  by (auto simp: filter_id_conv)

lemma find_Some_member: "find P xs = Some x \<Longrightarrow> x \<in> set xs \<and> P x"
  by (auto simp: find_Some_iff)

end
