(* ===== verification/Bmux_BTree.thy ===== *)
theory Bmux_BTree
  imports Bmux_Prelude
begin

text \<open>
  \<^verbatim>\<open>BTreeMap\<close> and \<^verbatim>\<open>BTreeSet\<close> of the Rust standard library, which every state component
  of the source is built from.  A map is the list of its entries in strictly ascending key order, the
  order the library iterates in, so that iteration order is part of the model and every operation
  computes.  The locale \<open>ordered_map\<close> states the contract the components rely on; it is
  interpreted on the entry lists below.
\<close>

named_theorems btree \<open>evaluation of lookups after updates of an ordered map\<close>

section \<open>The contract of an ordered map\<close>

locale ordered_map =
  fixes get :: "'m \<Rightarrow> 'k::linorder \<Rightarrow> 'v option"
    and put :: "'k \<Rightarrow> 'v \<Rightarrow> 'm \<Rightarrow> 'm"
    and del :: "'k \<Rightarrow> 'm \<Rightarrow> 'm"
    and keys :: "'m \<Rightarrow> 'k list"
    and wf :: "'m \<Rightarrow> bool"
  assumes get_put: "get (put k v m) j = (if j = k then Some v else get m j)"
    and get_del: "wf m \<Longrightarrow> get (del k m) j = (if j = k then None else get m j)"
    and set_keys: "k \<in> set (keys m) \<longleftrightarrow> get m k \<noteq> None"
    and sorted_keys: "wf m \<Longrightarrow> sorted_wrt (<) (keys m)"
    and ext: "wf m \<Longrightarrow> wf m' \<Longrightarrow> (\<And>k. get m k = get m' k) \<Longrightarrow> m = m'"
    and wf_put: "wf m \<Longrightarrow> wf (put k v m)"
    and wf_del: "wf m \<Longrightarrow> wf (del k m)"
begin

lemma distinct_keys: "wf m \<Longrightarrow> distinct (keys m)"
  using sorted_keys strict_sorted_iff by blast

lemma put_put: "wf m \<Longrightarrow> put k v (put k w m) = put k v m"
  by (rule ext) (simp_all add: wf_put get_put)

lemma del_put: "wf m \<Longrightarrow> get m k = None \<Longrightarrow> del k (put k v m) = m"
  by (rule ext) (simp_all add: wf_put wf_del get_put get_del)

lemma put_same: "wf m \<Longrightarrow> get m k = Some v \<Longrightarrow> put k v m = m"
  by (rule ext) (simp_all add: wf_put get_put)

lemma wf_fold_put: "wf m \<Longrightarrow> wf (fold (\<lambda>k. put k (f k)) ks m)"
  by (induction ks arbitrary: m) (simp_all add: wf_put)

lemma get_fold_put: "get (fold (\<lambda>k. put k (f k)) ks m) j = (if j \<in> set ks then Some (f j) else get m j)"
  by (induction ks arbitrary: m) (auto simp: get_put)

lemma wf_fold_del: "wf m \<Longrightarrow> wf (fold del ks m)"
  by (induction ks arbitrary: m) (simp_all add: wf_del)

lemma get_fold_del: "wf m \<Longrightarrow> get (fold del ks m) j = (if j \<in> set ks then None else get m j)"
  by (induction ks arbitrary: m) (auto simp: get_del wf_del)

end

section \<open>Entry lists\<close>

type_synonym ('k, 'v) btree = "('k \<times> 'v) list"

fun bt_insert :: "'k::linorder \<Rightarrow> 'v \<Rightarrow> ('k, 'v) btree \<Rightarrow> ('k, 'v) btree" where
  "bt_insert k v [] = [(k, v)]"
| "bt_insert k v ((j, w) # m) =
     (if k < j then (k, v) # (j, w) # m
      else if k = j then (k, v) # m
      else (j, w) # bt_insert k v m)"

definition bt_remove :: "'k \<Rightarrow> ('k, 'v) btree \<Rightarrow> ('k, 'v) btree" where
  "bt_remove k m = filter (\<lambda>(j, _). j \<noteq> k) m"

definition bt_get :: "('k, 'v) btree \<Rightarrow> 'k \<Rightarrow> 'v option" where
  "bt_get m k = map_of m k"

definition bt_contains :: "('k, 'v) btree \<Rightarrow> 'k \<Rightarrow> bool" where
  "bt_contains m k = (bt_get m k \<noteq> None)"

definition bt_keys :: "('k, 'v) btree \<Rightarrow> 'k list" where
  "bt_keys m = map fst m"

definition bt_values :: "('k, 'v) btree \<Rightarrow> 'v list" where
  "bt_values m = map snd m"

text \<open>\<^verbatim>\<open>retain\<close>, and an update of every value through \<^verbatim>\<open>values_mut\<close>.\<close>

definition bt_retain :: "('k \<Rightarrow> 'v \<Rightarrow> bool) \<Rightarrow> ('k, 'v) btree \<Rightarrow> ('k, 'v) btree" where
  "bt_retain P m = filter (\<lambda>(k, v). P k v) m"

definition bt_map :: "('v \<Rightarrow> 'w) \<Rightarrow> ('k, 'v) btree \<Rightarrow> ('k, 'w) btree" where
  "bt_map f m = map (\<lambda>(k, v). (k, f v)) m"

text \<open>The entry API: \<^verbatim>\<open>entry(k).or_insert(v)\<close>.\<close>

definition bt_or_insert :: "'k::linorder \<Rightarrow> 'v \<Rightarrow> ('k, 'v) btree \<Rightarrow> ('k, 'v) btree" where
  "bt_or_insert k v m = (case bt_get m k of None \<Rightarrow> bt_insert k v m | Some _ \<Rightarrow> m)"

definition bt_wf :: "('k::linorder, 'v) btree \<Rightarrow> bool" where
  "bt_wf m \<longleftrightarrow> sorted_wrt (<) (map fst m)"

lemma bt_wf_Nil [simp]: "bt_wf []"
  by (simp add: bt_wf_def)

lemma bt_get_Nil [simp]: "bt_get [] k = None"
  by (simp add: bt_get_def)

lemma bt_get_insert [btree]: "bt_get (bt_insert k v m) j = (if j = k then Some v else bt_get m j)"
  by (induction k v m rule: bt_insert.induct) (auto simp: bt_get_def)

lemma bt_get_filter:
  "bt_wf m \<Longrightarrow>
   bt_get (filter (\<lambda>(k, v). P k v) m) j =
     (case bt_get m j of Some v \<Rightarrow> if P j v then Some v else None | None \<Rightarrow> None)"
proof (induction m)
  case Nil
  then show ?case by simp
next
  case (Cons p m)
  obtain k v where p: "p = (k, v)" by fastforce
  have gt: "k < j'" if "j' \<in> fst ` set m" for j'
    using Cons.prems that by (auto simp: bt_wf_def p)
  then have "bt_get (filter (\<lambda>(k, v). P k v) m) k = None"
    by (fastforce simp: bt_get_def map_of_eq_None_iff)
  with Cons show ?case by (auto simp: p bt_wf_def bt_get_def)
qed

lemma bt_get_remove [btree]:
  assumes "bt_wf m"
  shows "bt_get (bt_remove k m) j = (if j = k then None else bt_get m j)"
proof -
  have "bt_remove k m = filter (\<lambda>(k', v). k' \<noteq> k) m"
    by (simp add: bt_remove_def)
  then show ?thesis
    using bt_get_filter [OF assms, of "\<lambda>k' v. k' \<noteq> k" j] by (auto split: option.split)
qed

lemma bt_get_retain [btree]:
  "bt_wf m \<Longrightarrow>
   bt_get (bt_retain P m) j = (case bt_get m j of Some v \<Rightarrow> if P j v then Some v else None | None \<Rightarrow> None)"
  by (simp add: bt_retain_def bt_get_filter)

lemma bt_get_map [btree]: "bt_get (bt_map f m) j = map_option f (bt_get m j)"
  by (induction m) (auto simp: bt_get_def bt_map_def)

lemma bt_keys_insert_set: "fst ` set (bt_insert k v m) = insert k (fst ` set m)"
  by (induction k v m rule: bt_insert.induct) auto

lemma bt_wf_insert [intro, simp]: "bt_wf m \<Longrightarrow> bt_wf (bt_insert k v m)"
proof (induction k v m rule: bt_insert.induct)
  case (2 k v j w m)
  then show ?case
    by (auto simp: bt_wf_def bt_keys_insert_set)
qed (simp add: bt_wf_def)

lemma bt_wf_filter: "bt_wf m \<Longrightarrow> bt_wf (filter P m)"
  unfolding bt_wf_def by (induction m) auto

lemma bt_wf_remove [intro, simp]: "bt_wf m \<Longrightarrow> bt_wf (bt_remove k m)"
  by (simp add: bt_remove_def bt_wf_filter)

lemma bt_wf_retain [intro, simp]: "bt_wf m \<Longrightarrow> bt_wf (bt_retain P m)"
  by (simp add: bt_retain_def bt_wf_filter)

lemma map_fst_bt_map [simp]: "map fst (bt_map f m) = map fst m"
  by (simp add: bt_map_def case_prod_beta comp_def)

lemma bt_wf_map [intro, simp]: "bt_wf m \<Longrightarrow> bt_wf (bt_map f m)"
  by (simp add: bt_wf_def)

lemma bt_keys_iff: "k \<in> set (bt_keys m) \<longleftrightarrow> bt_get m k \<noteq> None"
  by (auto simp: bt_keys_def bt_get_def map_of_eq_None_iff)

lemma bt_set_iff: "bt_wf m \<Longrightarrow> (k, v) \<in> set m \<longleftrightarrow> bt_get m k = Some v"
  unfolding bt_get_def bt_wf_def
  by (metis Some_eq_map_of_iff strict_sorted_iff)

lemma bt_values_iff: "bt_wf m \<Longrightarrow> v \<in> set (bt_values m) \<longleftrightarrow> (\<exists>k. bt_get m k = Some v)"
  by (force simp: bt_values_def bt_set_iff [symmetric])

lemma bt_contains_iff [btree]: "bt_contains m k \<longleftrightarrow> (\<exists>v. bt_get m k = Some v)"
  by (auto simp: bt_contains_def)

lemma bt_get_or_insert [btree]:
  "bt_get (bt_or_insert k v m) j =
     (if j = k then Some (case bt_get m k of None \<Rightarrow> v | Some w \<Rightarrow> w) else bt_get m j)"
  by (auto simp: bt_or_insert_def bt_get_insert split: option.split)

lemma bt_wf_or_insert [intro, simp]: "bt_wf m \<Longrightarrow> bt_wf (bt_or_insert k v m)"
  by (auto simp: bt_or_insert_def split: option.split)

lemma bt_keys_insert_present:
  "bt_wf m \<Longrightarrow> bt_get m k \<noteq> None \<Longrightarrow> bt_keys (bt_insert k v m) = bt_keys m"
proof (induction k v m rule: bt_insert.induct)
  case (2 k v j w m)
  have "\<not> k < j" if "map_of m k = Some y" "\<forall>x \<in> set m. j < fst x" for y
    using that by (fastforce dest: map_of_SomeD)
  with 2 show ?case
    by (auto simp: bt_wf_def bt_keys_def bt_get_def)
qed simp

lemma bt_ext:
  assumes "bt_wf m" "bt_wf m'" "\<And>k. bt_get m k = bt_get m' k"
  shows "m = m'"
proof -
  have s: "sorted (map fst m)" "distinct (map fst m)"
    "sorted (map fst m')" "distinct (map fst m')"
    using assms(1,2) by (auto simp: bt_wf_def strict_sorted_iff)
  have "set m = set m'"
    using bt_set_iff [OF assms(1)] bt_set_iff [OF assms(2)] assms(3) by fastforce
  with s show ?thesis
    by (metis map_sorted_distinct_set_unique distinct_map inj_on_Un
        sup.idem)
qed

interpretation bt: ordered_map bt_get bt_insert bt_remove bt_keys bt_wf
proof
  show "sorted_wrt (<) (bt_keys m)" if "bt_wf m" for m :: "('a, 'b) btree"
    using that by (simp add: bt_wf_def bt_keys_def)
qed (auto simp: btree bt_keys_iff intro: bt_ext)

section \<open>Ordered sets\<close>

type_synonym 'k bset = "'k list"

definition bs_insert :: "'k::linorder \<Rightarrow> 'k bset \<Rightarrow> 'k bset" where
  "bs_insert k s = (if k \<in> set s then s else insort k s)"

definition bs_remove :: "'k \<Rightarrow> 'k bset \<Rightarrow> 'k bset" where
  "bs_remove k s = filter (\<lambda>j. j \<noteq> k) s"

definition bs_wf :: "'k::linorder bset \<Rightarrow> bool" where
  "bs_wf s \<longleftrightarrow> sorted_wrt (<) s"

lemma set_bs_insert [simp]: "set (bs_insert k s) = insert k (set s)"
  by (auto simp: bs_insert_def set_insort_key)

lemma set_bs_remove [simp]: "set (bs_remove k s) = set s - {k}"
  by (auto simp: bs_remove_def)

lemma bs_wf_insert [simp, intro]: "bs_wf s \<Longrightarrow> bs_wf (bs_insert k s)"
  by (auto simp: bs_wf_def bs_insert_def strict_sorted_iff distinct_insort sorted_insort)

lemma bs_wf_remove [simp, intro]: "bs_wf s \<Longrightarrow> bs_wf (bs_remove k s)"
  by (auto simp: bs_wf_def bs_remove_def strict_sorted_iff sorted_wrt_filter)

lemma bs_wf_Nil [simp]: "bs_wf []"
  by (simp add: bs_wf_def)

end
