(* ===== verification/Session_Manager.thy ===== *)
theory Session_Manager
  imports Bmux_BTree
begin

text \<open>
  The sessions plugin: the roster of \<^verbatim>\<open>plugins/sessions-plugin/src/session_manager.rs\<close>, the
  session models of \<^verbatim>\<open>packages/session/models/src/lib.rs\<close>, and the adapter and local command
  handlers of \<^verbatim>\<open>plugins/sessions-plugin/src/lib.rs\<close>.  A handler takes the registered lock
  (\<^term>\<open>None\<close> when the plugin state is not registered) and returns the lock after the call, the
  events it emitted and its result.  A fresh identifier (\<^verbatim>\<open>Uuid::new_v4\<close>) is an argument.
\<close>

section \<open>Session models\<close>

datatype session_selector = ById uuid | ByName rstring

record session =
  s_id :: session_id
  s_name :: "rstring option"
  s_clients :: "client_id bset"

definition session_new :: "uuid \<Rightarrow> rstring option \<Rightarrow> session" where
  "session_new fresh name = \<lparr>s_id = SessionId fresh, s_name = name, s_clients = []\<rparr>"

definition session_add_client :: "client_id \<Rightarrow> session \<Rightarrow> session" where
  "session_add_client c s = s\<lparr>s_clients := bs_insert c (s_clients s)\<rparr>"

definition session_remove_client :: "client_id \<Rightarrow> session \<Rightarrow> session \<times> bool" where
  "session_remove_client c s =
     (s\<lparr>s_clients := bs_remove c (s_clients s)\<rparr>, c \<in> set (s_clients s))"

record session_info =
  si_id :: session_id
  si_name :: "rstring option"
  si_client_count :: nat

definition session_info_from :: "session \<Rightarrow> session_info" where
  "session_info_from s =
     \<lparr>si_id = s_id s, si_name = s_name s, si_client_count = length (s_clients s)\<rparr>"

section \<open>The session manager\<close>

datatype session_error = SessionAlreadyExists session_id | SessionNotFound session_id
  | SessionLockPoisoned

record session_manager =
  sm_sessions :: "(session_id, session) btree"

definition session_manager_new :: session_manager where
  "session_manager_new = \<lparr>sm_sessions = []\<rparr>"

definition create_session ::
  "uuid \<Rightarrow> rstring option \<Rightarrow> session_manager \<Rightarrow> session_manager \<times> (session_error + session_id)" where
  "create_session fresh name m =
     (let s = session_new fresh name; i = s_id s in
      (m\<lparr>sm_sessions := bt_insert i s (sm_sessions m)\<rparr>, Ok i))"

definition insert_session ::
  "session \<Rightarrow> session_manager \<Rightarrow> session_manager \<times> (session_error + unit)" where
  "insert_session s m =
     (let i = s_id s in
      if bt_contains (sm_sessions m) i then (m, Err (SessionAlreadyExists i))
      else (m\<lparr>sm_sessions := bt_insert i s (sm_sessions m)\<rparr>, Ok ()))"

definition get_session :: "session_manager \<Rightarrow> session_id \<Rightarrow> session option" where
  "get_session m i = bt_get (sm_sessions m) i"

text \<open>
  A mutation through \<^verbatim>\<open>get_session_mut\<close>: the found session is replaced by its update.
\<close>

definition update_session_mut ::
  "session_id \<Rightarrow> (session \<Rightarrow> session) \<Rightarrow> session_manager \<Rightarrow> session_manager" where
  "update_session_mut i f m =
     (case bt_get (sm_sessions m) i of
        None \<Rightarrow> m
      | Some s \<Rightarrow> m\<lparr>sm_sessions := bt_insert i (f s) (sm_sessions m)\<rparr>)"

definition rename_session ::
  "session_id \<Rightarrow> rstring \<Rightarrow> session_manager \<Rightarrow> session_manager \<times> (session_error + unit)" where
  "rename_session i name m =
     (case bt_get (sm_sessions m) i of
        None \<Rightarrow> (m, Err (SessionNotFound i))
      | Some s \<Rightarrow> (update_session_mut i (\<lambda>s. s\<lparr>s_name := Some name\<rparr>) m, Ok ()))"

definition list_sessions :: "session_manager \<Rightarrow> session_info list" where
  "list_sessions m = map session_info_from (bt_values (sm_sessions m))"

definition remove_session ::
  "session_id \<Rightarrow> session_manager \<Rightarrow> session_manager \<times> (session_error + unit)" where
  "remove_session i m =
     (m\<lparr>sm_sessions := bt_remove i (sm_sessions m)\<rparr>,
      if bt_contains (sm_sessions m) i then Ok () else Err (SessionNotFound i))"

section \<open>The adapter\<close>

definition adapter_add_client ::
  "session_id \<Rightarrow> client_id \<Rightarrow> session_manager rwlock \<Rightarrow> session_manager rwlock" where
  "adapter_add_client i c lk =
     fst (with_write (\<lambda>m. (update_session_mut i (session_add_client c) m, ())) () lk)"

definition adapter_remove_client ::
  "session_id \<Rightarrow> client_id \<Rightarrow> session_manager rwlock \<Rightarrow> session_manager rwlock" where
  "adapter_remove_client i c lk =
     fst (with_write (\<lambda>m. (update_session_mut i (\<lambda>s. fst (session_remove_client c s)) m, ())) () lk)"

definition snapshot_of :: "session_manager \<Rightarrow> session list" where
  "snapshot_of m = List.map_filter (\<lambda>info. get_session m (si_id info)) (list_sessions m)"

definition sessions_snapshot :: "session_manager rwlock \<Rightarrow> session list" where
  "sessions_snapshot lk = with_read snapshot_of [] lk"

definition sessions_restore_snapshot ::
  "session list \<Rightarrow> session_manager rwlock \<Rightarrow> session_manager rwlock" where
  "sessions_restore_snapshot snap lk =
     fst (with_write (\<lambda>m. (fold (\<lambda>s m. fst (insert_session s m)) snap session_manager_new, ())) () lk)"

section \<open>Local command handlers\<close>

record session_summary =
  ss_id :: uuid
  ss_name :: "rstring option"
  ss_client_count :: u32

datatype session_event = SessionRenamed uuid rstring | SessionRemoved uuid

datatype handler_error = StateNotRegistered | LockPoisoned

datatype session_query_error = InvalidSelector | QueryNotFound

datatype rename_failure = EmptySelector | RenameState handler_error | RenameManager session_error

datatype rename_session_error = InvalidName | RenameFailed rename_failure | RenameNotFound

datatype reconcile_error = ReconcileFailed handler_error

record wire_selector =
  ws_id :: "uuid option"
  ws_name :: "rstring option"

record reconcile_args =
  ra_client_id :: uuid
  ra_previous :: "uuid option"
  ra_next :: "uuid option"

definition to_selector :: "wire_selector \<Rightarrow> session_selector option" where
  "to_selector w =
     (case ws_id w of Some i \<Rightarrow> Some (ById i) | None \<Rightarrow> map_option ByName (ws_name w))"

definition session_info_to_typed :: "session_info \<Rightarrow> session_summary" where
  "session_info_to_typed info =
     \<lparr>ss_id = session_uuid (si_id info), ss_name = si_name info,
      ss_client_count =
        (if si_client_count info < 2 ^ 32 then word_of_nat (si_client_count info) else - 1)\<rparr>"

fun matches_session_info :: "session_info \<Rightarrow> session_selector \<Rightarrow> bool" where
  "matches_session_info info (ById i) = (session_uuid (si_id info) = i)"
| "matches_session_info info (ByName name) = (si_name info = Some name)"

definition list_sessions_local ::
  "session_manager rwlock option \<Rightarrow> handler_error + session_summary list" where
  "list_sessions_local st =
     (case st of
        None \<Rightarrow> Err StateNotRegistered
      | Some lk \<Rightarrow>
          if lk_poisoned lk then Err LockPoisoned
          else Ok (map session_info_to_typed (list_sessions (lk_inner lk))))"

definition get_session_local ::
  "session_manager rwlock option \<Rightarrow> wire_selector \<Rightarrow>
   handler_error + (session_query_error + session_summary)" where
  "get_session_local st w =
     (case to_selector w of
        None \<Rightarrow> Ok (Err InvalidSelector)
      | Some sel \<Rightarrow>
          (case st of
             None \<Rightarrow> Err StateNotRegistered
           | Some lk \<Rightarrow>
               if lk_poisoned lk then Err LockPoisoned
               else (case find (\<lambda>info. matches_session_info info sel) (list_sessions (lk_inner lk)) of
                       None \<Rightarrow> Ok (Err QueryNotFound)
                     | Some info \<Rightarrow> Ok (Ok (session_info_to_typed info)))))"

definition reconcile_client_membership_local ::
  "reconcile_args \<Rightarrow> session_manager rwlock option \<Rightarrow>
   session_manager rwlock option \<times> (reconcile_error + uuid)" where
  "reconcile_client_membership_local req st =
     (case st of
        None \<Rightarrow> (st, Err (ReconcileFailed StateNotRegistered))
      | Some lk \<Rightarrow>
          if lk_poisoned lk then (st, Err (ReconcileFailed LockPoisoned))
          else
            let c = ClientId (ra_client_id req);
                m = lk_inner lk;
                m = (case ra_previous req of
                       Some p \<Rightarrow> update_session_mut (SessionId p) (\<lambda>s. fst (session_remove_client c s)) m
                     | None \<Rightarrow> m);
                m = (case ra_next req of
                       Some n \<Rightarrow> update_session_mut (SessionId n) (session_add_client c) m
                     | None \<Rightarrow> m)
            in (Some (lk\<lparr>lk_inner := m\<rparr>), Ok (case ra_next req of Some n \<Rightarrow> n | None \<Rightarrow> 0)))"

definition validate_rename_name :: "rstring \<Rightarrow> unit + rstring" where
  "validate_rename_name name = (let t = trim name in if t = [] then Err () else Ok t)"

definition rename_session_local ::
  "wire_selector \<Rightarrow> rstring \<Rightarrow> session_manager rwlock option \<Rightarrow>
   session_manager rwlock option \<times> session_event list \<times> (rename_session_error + uuid)" where
  "rename_session_local w name st =
     (case validate_rename_name name of
        Inl _ \<Rightarrow> (st, [], Err InvalidName)
      | Inr name \<Rightarrow>
     (case to_selector w of
        None \<Rightarrow> (st, [], Err (RenameFailed EmptySelector))
      | Some sel \<Rightarrow>
     (case st of
        None \<Rightarrow> (st, [], Err (RenameFailed (RenameState StateNotRegistered)))
      | Some lk \<Rightarrow>
          if lk_poisoned lk then (st, [], Err (RenameFailed (RenameState LockPoisoned)))
          else
     (case find (\<lambda>info. matches_session_info info sel) (list_sessions (lk_inner lk)) of
        None \<Rightarrow> (st, [], Err RenameNotFound)
      | Some info \<Rightarrow>
          (case rename_session (si_id info) name (lk_inner lk) of
             (m, Inl e) \<Rightarrow> (Some (lk\<lparr>lk_inner := m\<rparr>), [], Err (RenameFailed (RenameManager e)))
           | (m, Inr _) \<Rightarrow>
               (Some (lk\<lparr>lk_inner := m\<rparr>),
                [SessionRenamed (session_uuid (si_id info)) name],
                Ok (session_uuid (si_id info))))))))"

section \<open>Well-formed rosters\<close>

text \<open>
  Every entry is filed under the identifier of its session, and every client set is a proper ordered
  set.
\<close>

definition session_ok :: "session_id \<Rightarrow> session \<Rightarrow> bool" where
  "session_ok i s \<longleftrightarrow> s_id s = i \<and> bs_wf (s_clients s)"

definition sm_wf :: "session_manager \<Rightarrow> bool" where
  "sm_wf m \<longleftrightarrow> bt_wf (sm_sessions m) \<and>
     (\<forall>i s. bt_get (sm_sessions m) i = Some s \<longrightarrow> session_ok i s)"

named_theorems sm_defs \<open>definitions of the session operations\<close>

lemmas [sm_defs] = session_new_def session_add_client_def session_remove_client_def
  session_ok_def update_session_mut_def

lemma sm_wf_new [simp]: "sm_wf session_manager_new"
  by (simp add: sm_wf_def session_manager_new_def)

lemma sm_wf_put:
  "sm_wf m \<Longrightarrow> session_ok i s \<Longrightarrow> sm_wf (m\<lparr>sm_sessions := bt_insert i s (sm_sessions m)\<rparr>)"
  by (auto simp: sm_wf_def btree)

lemma sm_wf_create: "sm_wf m \<Longrightarrow> sm_wf (fst (create_session fresh name m))"
  by (simp add: create_session_def Let_def sm_wf_put sm_defs)

lemma sm_wf_insert: "sm_wf m \<Longrightarrow> bs_wf (s_clients s) \<Longrightarrow> sm_wf (fst (insert_session s m))"
  by (simp add: insert_session_def Let_def sm_wf_put sm_defs)

lemma sm_wf_update:
  "sm_wf m \<Longrightarrow> (\<And>s. session_ok i s \<Longrightarrow> session_ok i (f s)) \<Longrightarrow> sm_wf (update_session_mut i f m)"
  by (auto simp: update_session_mut_def sm_wf_def btree split: option.split)

lemma sm_wf_rename: "sm_wf m \<Longrightarrow> sm_wf (fst (rename_session i name m))"
  by (auto simp: rename_session_def intro!: sm_wf_update split: option.split simp: session_ok_def)

lemma sm_wf_remove: "sm_wf m \<Longrightarrow> sm_wf (fst (remove_session i m))"
  by (auto simp: remove_session_def sm_wf_def btree)

lemma session_ok_membership:
  "session_ok i s \<Longrightarrow> session_ok i (session_add_client c s)"
  "session_ok i s \<Longrightarrow> session_ok i (fst (session_remove_client c s))"
  by (simp_all add: sm_defs)

lemma get_update_session_mut:
  "get_session (update_session_mut i f m) j =
     (if j = i then map_option f (get_session m j) else get_session m j)"
  by (auto simp: update_session_mut_def get_session_def btree split: option.split)

lemma in_list_sessions:
  assumes "sm_wf m"
  shows "info \<in> set (list_sessions m) \<longleftrightarrow>
    (\<exists>s. get_session m (s_id s) = Some s \<and> info = session_info_from s)"
proof -
  have "s \<in> set (bt_values (sm_sessions m)) \<longleftrightarrow> get_session m (s_id s) = Some s" for s
    using assms by (auto simp: bt_values_iff sm_wf_def get_session_def session_ok_def)
  then show ?thesis
    by (auto simp: list_sessions_def)
qed

section \<open>Snapshot and restore\<close>

lemma snapshot_of_values:
  assumes "sm_wf m"
  shows "snapshot_of m = bt_values (sm_sessions m)"
proof -
  have "get_session m (s_id s) = Some s" if "s \<in> set (bt_values (sm_sessions m))" for s
    using that assms by (auto simp: bt_values_iff sm_wf_def get_session_def session_ok_def)
  then have "List.map_filter (\<lambda>s. get_session m (s_id s)) ss = ss"
    if "set ss \<subseteq> set (bt_values (sm_sessions m))" for ss
    using that by (induction ss) auto
  then show ?thesis
    by (simp add: snapshot_of_def list_sessions_def List.map_filter_def comp_def filter_map
        session_info_from_def)
qed

lemma get_fold_insert_session:
  "get_session (fold (\<lambda>s m. fst (insert_session s m)) ss m) i =
     (case get_session m i of Some s \<Rightarrow> Some s | None \<Rightarrow> find (\<lambda>s. s_id s = i) ss)"
  by (induction ss arbitrary: m)
    (auto simp: insert_session_def Let_def get_session_def btree split: option.split)

lemma sm_wf_fold_insert:
  "sm_wf m \<Longrightarrow> \<forall>s \<in> set ss. bs_wf (s_clients s) \<Longrightarrow>
   sm_wf (fold (\<lambda>s m. fst (insert_session s m)) ss m)"
  by (induction ss arbitrary: m) (auto intro: sm_wf_insert)

lemma find_values:
  "sm_wf m \<Longrightarrow> find (\<lambda>s. s_id s = i) (bt_values (sm_sessions m)) = get_session m i"
proof -
  assume wf: "sm_wf m"
  have "\<forall>(j, s) \<in> set es. s_id s = j \<Longrightarrow> find (\<lambda>s. s_id s = i) (map snd es) = map_of es i"
    for es :: "(session_id, session) btree"
    by (induction es) auto
  moreover have "\<forall>(j, s) \<in> set (sm_sessions m). s_id s = j"
    using wf by (auto simp: sm_wf_def bt_set_iff session_ok_def)
  ultimately show ?thesis
    by (simp add: bt_values_def get_session_def bt_get_def)
qed

lemma sm_ext: "sm_wf m \<Longrightarrow> sm_wf m' \<Longrightarrow> (\<And>i. get_session m i = get_session m' i) \<Longrightarrow> m = m'"
  by (auto intro!: session_manager.equality bt_ext simp: sm_wf_def get_session_def)

lemma restore_snapshot_of:
  assumes "sm_wf m"
  shows "fold (\<lambda>s m. fst (insert_session s m)) (snapshot_of m) session_manager_new = m"
proof (rule sm_ext)
  have "\<forall>s \<in> set (snapshot_of m). bs_wf (s_clients s)"
    using assms by (auto simp: snapshot_of_values bt_values_iff sm_wf_def session_ok_def)
  then show "sm_wf (fold (\<lambda>s m. fst (insert_session s m)) (snapshot_of m) session_manager_new)"
    by (intro sm_wf_fold_insert) simp_all
  show "get_session (fold (\<lambda>s m. fst (insert_session s m)) (snapshot_of m) session_manager_new) i =
      get_session m i" for i
  proof -
    have "get_session session_manager_new i = None"
      by (simp add: get_session_def session_manager_new_def)
    with assms show ?thesis
      by (simp add: get_fold_insert_session snapshot_of_values find_values)
  qed
qed (fact assms)

section \<open>Reachable rosters\<close>

text \<open>
  The managers that the operations can build.  A session handed to \<^verbatim>\<open>insert_session\<close> carries a
  \<^verbatim>\<open>BTreeSet\<close>, which is ordered by construction.
\<close>

inductive sm_reachable :: "session_manager \<Rightarrow> bool" where
  sm_init: "sm_reachable session_manager_new"
| sm_create: "sm_reachable m \<Longrightarrow> sm_reachable (fst (create_session fresh name m))"
| sm_insert: "sm_reachable m \<Longrightarrow> bs_wf (s_clients s) \<Longrightarrow> sm_reachable (fst (insert_session s m))"
| sm_rename: "sm_reachable m \<Longrightarrow> sm_reachable (fst (rename_session i name m))"
| sm_remove: "sm_reachable m \<Longrightarrow> sm_reachable (fst (remove_session i m))"
| sm_add_client: "sm_reachable m \<Longrightarrow> sm_reachable (update_session_mut i (session_add_client c) m)"
| sm_remove_client:
    "sm_reachable m \<Longrightarrow> sm_reachable (update_session_mut i (\<lambda>s. fst (session_remove_client c s)) m)"

lemma sm_reachable_wf: "sm_reachable m \<Longrightarrow> sm_wf m"
  by (induction rule: sm_reachable.induct)
    (auto intro: sm_wf_create sm_wf_insert sm_wf_rename sm_wf_remove sm_wf_update
      session_ok_membership)

text \<open>
  C8.  Restoring the snapshot of any reachable session roster, over whatever roster the target lock
  holds, rebuilds exactly the original one: same sessions, names and client sets.
\<close>

theorem sessions_snapshot_roundtrip:
  assumes "sm_reachable (lk_inner lk)" "\<not> lk_poisoned lk" "\<not> lk_poisoned lk'"
  shows "sessions_restore_snapshot (sessions_snapshot lk) lk' = lk'\<lparr>lk_inner := lk_inner lk\<rparr>"
  using assms restore_snapshot_of [OF sm_reachable_wf [OF assms(1)]]
  by (simp add: sessions_restore_snapshot_def sessions_snapshot_def with_read_def with_write_def)

definition sample_lock :: "session_manager rwlock" where
  "sample_lock =
     \<lparr>lk_poisoned = False,
      lk_inner = update_session_mut (SessionId 7) (session_add_client (ClientId 3))
        (fst (create_session 7 (Some [97]) session_manager_new))\<rparr>"

lemma sample_lock_reachable: "sm_reachable (lk_inner sample_lock)"
  by (simp add: sample_lock_def sm_init sm_create sm_add_client)

theorem sessions_snapshot_roundtrip_witness:
  "sessions_restore_snapshot (sessions_snapshot sample_lock)
     \<lparr>lk_poisoned = False, lk_inner = session_manager_new\<rparr> = sample_lock \<and>
   length (sm_sessions (lk_inner sample_lock)) = 1"
  using sessions_snapshot_roundtrip
    [OF sample_lock_reachable, of "\<lparr>lk_poisoned = False, lk_inner = session_manager_new\<rparr>"]
  by (simp add: sample_lock_def update_session_mut_def create_session_def session_new_def
      session_manager_new_def bt_get_def Let_def)

section \<open>Client membership\<close>

lemma bt_keys_update:
  "bt_wf (sm_sessions m) \<Longrightarrow> bt_keys (sm_sessions (update_session_mut i f m)) = bt_keys (sm_sessions m)"
  by (auto simp: update_session_mut_def bt_keys_insert_present split: option.split)

text \<open>
  C9.  Reconciling a client's membership moves exactly that client: afterwards it belongs to a
  session iff that is the next session, or it belonged to it before and it is not the previous one;
  the other clients, the names and the set of sessions are unchanged, and the acknowledged id is the
  next session (the nil UUID when there is none).
\<close>

theorem reconcile_membership_exact:
  assumes wf: "sm_reachable (lk_inner lk)" and "\<not> lk_poisoned lk"
    and "reconcile_client_membership_local req (Some lk) = (st', r)"
    and "get_session (lk_inner lk) (SessionId i) = Some s"
  shows "\<exists>lk' s'. st' = Some lk' \<and> get_session (lk_inner lk') (SessionId i) = Some s' \<and>
      s_id s' = s_id s \<and> s_name s' = s_name s \<and>
      (\<forall>c. c \<in> set (s_clients s') \<longleftrightarrow>
         (if c = ClientId (ra_client_id req)
          then ra_next req = Some i \<or> c \<in> set (s_clients s) \<and> ra_previous req \<noteq> Some i
          else c \<in> set (s_clients s))) \<and>
      bt_keys (sm_sessions (lk_inner lk')) = bt_keys (sm_sessions (lk_inner lk)) \<and>
      r = Ok (case ra_next req of Some n \<Rightarrow> n | None \<Rightarrow> 0)"
proof -
  let ?c = "ClientId (ra_client_id req)"
  let ?rm = "\<lambda>s. fst (session_remove_client ?c s)"
  let ?m = "lk_inner lk"
  let ?m1 = "case ra_previous req of Some p \<Rightarrow> update_session_mut (SessionId p) ?rm ?m | None \<Rightarrow> ?m"
  let ?m2 = "case ra_next req of Some n \<Rightarrow> update_session_mut (SessionId n) (session_add_client ?c) ?m1
    | None \<Rightarrow> ?m1"
  let ?s1 = "if ra_previous req = Some i then ?rm s else s"
  let ?s2 = "if ra_next req = Some i then session_add_client ?c ?s1 else ?s1"
  have res: "st' = Some (lk\<lparr>lk_inner := ?m2\<rparr>)" "r = Ok (case ra_next req of Some n \<Rightarrow> n | None \<Rightarrow> 0)"
    using assms(2,3) by (auto simp: reconcile_client_membership_local_def Let_def)
  have w: "bt_wf (sm_sessions ?m)"
    using sm_reachable_wf [OF wf] by (simp add: sm_wf_def)
  have s1: "get_session ?m1 (SessionId i) = Some ?s1"
    using assms(4) by (auto simp: get_update_session_mut split: option.split)
  have s2: "get_session ?m2 (SessionId i) = Some ?s2"
    using s1 by (auto simp: get_update_session_mut split: option.split)
  have k1: "bt_keys (sm_sessions ?m1) = bt_keys (sm_sessions ?m)"
    using w by (simp add: bt_keys_update split: option.split)
  have w1: "bt_wf (sm_sessions ?m1)"
    using w by (auto simp: update_session_mut_def split: option.split)
  have k2: "bt_keys (sm_sessions ?m2) = bt_keys (sm_sessions ?m)"
    using k1 w1 by (simp add: bt_keys_update split: option.split)
  show ?thesis
    using res s2 k2 by (auto simp: sm_defs)
qed

theorem reconcile_membership_exact_witness:
  "\<exists>s'. get_session (lk_inner (the (fst (reconcile_client_membership_local
      \<lparr>ra_client_id = 3, ra_previous = Some 7, ra_next = None\<rparr> (Some sample_lock))))) (SessionId 7) =
      Some s' \<and> ClientId 3 \<notin> set (s_clients s')"
proof -
  let ?req = "\<lparr>ra_client_id = 3, ra_previous = Some 7, ra_next = None\<rparr>"
  let ?res = "reconcile_client_membership_local ?req (Some sample_lock)"
  have "get_session (lk_inner sample_lock) (SessionId 7) =
      Some \<lparr>s_id = SessionId 7, s_name = Some [97], s_clients = [ClientId 3]\<rparr>"
    by code_simp
  from reconcile_membership_exact [OF sample_lock_reachable _ _ this, of ?req "fst ?res" "snd ?res"]
  show ?thesis
    by (auto simp: sample_lock_def)
qed

end
