(* ===== verification/Vt_Utf8.thy ===== *)
theory Vt_Utf8
  imports Bmux_Prelude
begin

text \<open>
  UTF-8 as the terminal parser uses it: \<^verbatim>\<open>std::str::from_utf8\<close> with its two error attributes
  (\<^verbatim>\<open>valid_up_to\<close> and \<^verbatim>\<open>error_len\<close>), and the decoding of the first scalar value of a
  checked text.  The validation follows the documented algorithm of the standard library: a scalar
  that the input cuts short is an error with no length, any other malformed sequence is an error
  whose length is the maximal valid part.
\<close>

abbreviation between :: "'a::ord \<Rightarrow> 'a \<Rightarrow> 'a \<Rightarrow> bool" where
  "between lo hi b \<equiv> lo \<le> b \<and> b \<le> hi"

definition cont :: "u8 \<Rightarrow> bool" where
  "cont b = between 0x80 0xBF b"

text \<open>The admissible second bytes, by first byte (RFC 3629).\<close>

definition second_ok :: "u8 \<Rightarrow> u8 \<Rightarrow> bool" where
  "second_ok a b =
     (cont b \<and> (a = 0xE0 \<longrightarrow> 0xA0 \<le> b) \<and> (a = 0xED \<longrightarrow> b \<le> 0x9F) \<and>
      (a = 0xF0 \<longrightarrow> 0x90 \<le> b) \<and> (a = 0xF4 \<longrightarrow> b \<le> 0x8F))"

text \<open>Width of the scalar a byte introduces; 0 for a byte that introduces none.\<close>

definition utf8_width :: "u8 \<Rightarrow> nat" where
  "utf8_width a =
     (if a \<le> 0x7F then 1 else if between 0xC2 0xDF a then 2
      else if between 0xE0 0xEF a then 3 else if between 0xF0 0xF4 a then 4 else 0)"

datatype utf8_head = Scalar nat | Malformed "nat option"

definition utf8_head :: "bytes \<Rightarrow> utf8_head" where
  "utf8_head bs =
     (case bs of
        [] \<Rightarrow> Malformed None
      | a # r \<Rightarrow>
          (let w = utf8_width a in
           if w = 0 then Malformed (Some 1)
           else if w = 1 then Scalar 1
           else (case r of
              [] \<Rightarrow> Malformed None
            | b # r \<Rightarrow>
                if \<not> second_ok a b then Malformed (Some 1)
                else if w = 2 then Scalar 2
                else (case r of
                   [] \<Rightarrow> Malformed None
                 | c # r \<Rightarrow>
                     if \<not> cont c then Malformed (Some 2)
                     else if w = 3 then Scalar 3
                     else (case r of
                        [] \<Rightarrow> Malformed None
                      | d # _ \<Rightarrow> if \<not> cont d then Malformed (Some 3) else Scalar 4)))))"

lemma utf8_head_Scalar: "utf8_head bs = Scalar n \<Longrightarrow> 0 < n \<and> n \<le> length bs \<and> n \<le> 4"
  by (auto simp: utf8_head_def Let_def split: list.splits if_splits)

lemma utf8_head_Malformed: "utf8_head bs = Malformed (Some n) \<Longrightarrow> 0 < n \<and> n \<le> length bs \<and> n \<le> 3"
  by (auto simp: utf8_head_def Let_def split: list.splits if_splits)

datatype utf8_result = Utf8Ok | Utf8Error (valid_up_to: nat) (error_len: "nat option")

function from_utf8_at :: "bytes \<Rightarrow> nat \<Rightarrow> utf8_result" where
  "from_utf8_at bs i =
     (if length bs \<le> i then Utf8Ok
      else (case utf8_head (drop i bs) of
              Scalar n \<Rightarrow> from_utf8_at bs (i + n)
            | Malformed e \<Rightarrow> Utf8Error i e))"
  by pat_completeness auto
termination
  by (relation "measure (\<lambda>(bs, i). length bs - i)") (auto dest: utf8_head_Scalar)

declare from_utf8_at.simps [simp del]

definition from_utf8 :: "bytes \<Rightarrow> utf8_result" where
  "from_utf8 bs = from_utf8_at bs 0"

text \<open>The first scalar value of a text, and its encoded length (\<^verbatim>\<open>char::len_utf8\<close>).\<close>

definition low6 :: "u8 \<Rightarrow> nat" where
  "low6 b = unat b mod 64"

definition first_char :: "bytes \<Rightarrow> nat option" where
  "first_char bs =
     (case utf8_head bs of
        Malformed _ \<Rightarrow> None
      | Scalar n \<Rightarrow>
          Some (if n = 1 then unat (bs ! 0)
                else if n = 2 then (unat (bs ! 0) mod 32) * 64 + low6 (bs ! 1)
                else if n = 3 then ((unat (bs ! 0) mod 16) * 64 + low6 (bs ! 1)) * 64 + low6 (bs ! 2)
                else (((unat (bs ! 0) mod 8) * 64 + low6 (bs ! 1)) * 64 + low6 (bs ! 2)) * 64
                  + low6 (bs ! 3)))"

definition char_len_utf8 :: "nat \<Rightarrow> nat" where
  "char_len_utf8 c = (if c < 0x80 then 1 else if c < 0x800 then 2 else if c < 0x10000 then 3 else 4)"

section \<open>Partial and complete scalars\<close>

lemma utf8_extend:
  assumes "utf8_head s = Malformed None" "s \<noteq> []" "cont b" "length s = 1 \<longrightarrow> second_ok (hd s) b"
  shows "length s + 1 \<le> utf8_width (hd s)"
    "utf8_head (s @ [b]) = (if length s + 1 = utf8_width (hd s) then Scalar (length s + 1) else Malformed None)"
proof -
  obtain a r where s: "s = a # r" using assms(2) by (cases s) auto
  have w: "utf8_width a \<in> {0, 1, 2, 3, 4}" by (simp add: utf8_width_def)
  have "r = [] \<or> (\<exists>x. r = [x]) \<or> (\<exists>x y. r = [x, y])"
    using assms(1) unfolding s utf8_head_def
    by (auto simp: Let_def split: list.splits if_splits)
  then show "length s + 1 \<le> utf8_width (hd s)"
    "utf8_head (s @ [b]) = (if length s + 1 = utf8_width (hd s) then Scalar (length s + 1) else Malformed None)"
    using assms w unfolding s utf8_head_def by (auto simp: Let_def split: if_splits)
qed

lemma utf8_partial_snoc:
  assumes "utf8_head (s @ [b]) = Malformed None" "s \<noteq> []"
  shows "utf8_head s = Malformed None" "cont b" "length s = 1 \<longrightarrow> second_ok (hd s) b"
    "length s + 1 \<noteq> utf8_width (hd s)"
proof -
  obtain a r where s: "s = a # r" using assms(2) by (cases s) auto
  have w: "utf8_width a \<in> {0, 1, 2, 3, 4}" by (simp add: utf8_width_def)
  have "r = [] \<or> (\<exists>x. r = [x])"
    using assms(1) unfolding s utf8_head_def
    by (auto simp: Let_def append_eq_Cons_conv split: list.splits if_splits)
  then show "utf8_head s = Malformed None" "cont b" "length s = 1 \<longrightarrow> second_ok (hd s) b"
    "length s + 1 \<noteq> utf8_width (hd s)"
    using assms w unfolding s utf8_head_def
    by (auto simp: Let_def second_ok_def split: if_splits)
qed

lemma utf8_lead_range: "utf8_head [b] = Malformed None \<Longrightarrow> between 0xC2 0xF4 b"
  by (auto simp: utf8_head_def Let_def utf8_width_def word_le_nat_alt split: if_splits)

lemma utf8_partial_short: "utf8_head s = Malformed None \<Longrightarrow> length s \<le> 3"
  by (auto simp: utf8_head_def Let_def split: list.splits if_splits)

lemma from_utf8_whole: "utf8_head t = Scalar (length t) \<Longrightarrow> from_utf8 t = Utf8Ok"
  using utf8_head_Scalar [of t "length t"]
  by (simp add: from_utf8_def from_utf8_at.simps [of t 0] from_utf8_at.simps [of t "length t"])

lemma from_utf8_at_Error: "from_utf8_at t i = Utf8Error e l \<Longrightarrow> i \<le> e \<and> e < length t"
proof (induction t i rule: from_utf8_at.induct)
  case (1 bs i)
  from "1.prems" show ?case
    using "1.IH" by (auto simp: from_utf8_at.simps [of bs i] split: if_splits utf8_head.splits)
qed

lemma from_utf8_Error_0: "from_utf8 t = Utf8Error 0 l \<Longrightarrow> utf8_head t = Malformed l"
  using from_utf8_at_Error [of t] utf8_head_Scalar [of t]
  by (auto simp: from_utf8_def from_utf8_at.simps [of t 0] split: if_splits utf8_head.splits)

lemma from_utf8_Ok_head: "from_utf8 t = Utf8Ok \<Longrightarrow> t \<noteq> [] \<Longrightarrow> \<exists>n. utf8_head t = Scalar n"
  by (auto simp: from_utf8_def from_utf8_at.simps [of t 0] split: if_splits utf8_head.splits)

text \<open>A decoded scalar has exactly the encoded length that its first byte announced.\<close>

lemma low6_bound: "low6 b < 64"
  by (simp add: low6_def)

lemma mod_lead: "k * m \<le> x \<Longrightarrow> x < k * m + m \<Longrightarrow> x mod m = x - k * m" for x :: nat
proof -
  assume le: "k * m \<le> x" "x < k * m + m"
  then have "x mod m = (k * m + (x - k * m)) mod m" by simp
  also have "\<dots> = (x - k * m) mod m" by (rule mod_mult_self3)
  also have "\<dots> = x - k * m" using le by (intro mod_less) linarith
  finally show ?thesis .
qed

lemma low6_second:
  assumes "second_ok a b"
  shows "low6 b = unat b - 128" "a = 0xE0 \<Longrightarrow> 32 \<le> low6 b" "a = 0xF0 \<Longrightarrow> 16 \<le> low6 b"
proof -
  have b: "128 \<le> unat b" "unat b \<le> 191"
    using assms by (auto simp: second_ok_def cont_def word_le_nat_alt)
  then show eq: "low6 b = unat b - 128"
    using mod_lead [of 2 64 "unat b"] by (simp add: low6_def)
  show "a = 0xE0 \<Longrightarrow> 32 \<le> low6 b" "a = 0xF0 \<Longrightarrow> 16 \<le> low6 b"
    using assms unfolding eq by (auto simp: second_ok_def word_le_nat_alt)
qed

lemma lead_range:
  "utf8_width a = 1 \<Longrightarrow> unat a < 128"
  "utf8_width a = 2 \<Longrightarrow> 194 \<le> unat a \<and> unat a \<le> 223"
  "utf8_width a = 3 \<Longrightarrow> 224 \<le> unat a \<and> unat a \<le> 239"
  "utf8_width a = 4 \<Longrightarrow> 240 \<le> unat a \<and> unat a \<le> 244"
  unfolding utf8_width_def word_le_nat_alt by (simp_all split: if_splits)

lemma decode_bounds:
  fixes A B C D :: nat
  assumes "B < 64" "C < 64" "D < 64"
  shows "2 \<le> A \<Longrightarrow> A < 32 \<Longrightarrow> char_len_utf8 (A * 64 + B) = 2"
    "A < 16 \<Longrightarrow> 0 < A \<or> 32 \<le> B \<Longrightarrow> char_len_utf8 ((A * 64 + B) * 64 + C) = 3"
    "0 < A \<or> 16 \<le> B \<Longrightarrow> char_len_utf8 (((A * 64 + B) * 64 + C) * 64 + D) = 4"
  using assms unfolding char_len_utf8_def by (simp_all) linarith+

lemma char_len_first_char:
  assumes "utf8_head t = Scalar n" "first_char t = Some c"
  shows "char_len_utf8 c = n"
proof -
  have n: "n \<in> {1, 2, 3, 4}" and len: "n \<le> length t"
    using utf8_head_Scalar [OF assms(1)] by auto
  obtain a r where t: "t = a # r" using len n by (cases t) auto
  have "utf8_width a \<le> 4" by (simp add: utf8_width_def)
  then have w: "utf8_width a = n" and sec: "n \<noteq> 1 \<Longrightarrow> second_ok a (t ! 1)"
    using assms(1) unfolding t utf8_head_def
    by (auto simp: Let_def split: list.splits if_splits)
  note lo = low6_bound [of "t ! 1"] low6_bound [of "t ! 2"] low6_bound [of "t ! 3"]
  have c: "c = (if n = 1 then unat a
      else if n = 2 then (unat a mod 32) * 64 + low6 (t ! 1)
      else if n = 3 then ((unat a mod 16) * 64 + low6 (t ! 1)) * 64 + low6 (t ! 2)
      else (((unat a mod 8) * 64 + low6 (t ! 1)) * 64 + low6 (t ! 2)) * 64 + low6 (t ! 3))"
    using assms(2) unfolding first_char_def assms(1) utf8_head.case option.inject
    by (simp only: t nth_Cons_0)
  from n consider (1) "n = 1" | (2) "n = 2" | (3) "n = 3" | (4) "n = 4" by blast
  then show ?thesis
  proof cases
    case 1
    then show ?thesis using lead_range(1) [of a] w c by (simp add: char_len_utf8_def)
  next
    case 2
    have r: "194 \<le> unat a" "unat a \<le> 223" using lead_range(2) [of a] w 2 by simp_all
    then show ?thesis
      using mod_lead [of 6 32 "unat a"] decode_bounds(1) [OF lo, of "unat a - 192"] c 2 by simp
  next
    case 3
    have r: "224 \<le> unat a" "unat a \<le> 239" using lead_range(3) [of a] w 3 by simp_all
    have "0 < unat a - 224 \<or> 32 \<le> low6 (t ! 1)"
      using low6_second(2) [OF sec] 3 r(1) by (cases "a = 0xE0") (auto simp: word_eq_iff_unsigned [where 'a = nat])
    then show ?thesis
      using mod_lead [of 14 16 "unat a"] decode_bounds(2) [OF lo, of "unat a - 224"] r c 3 by simp
  next
    case 4
    have r: "240 \<le> unat a" "unat a \<le> 244" using lead_range(4) [of a] w 4 by simp_all
    have "0 < unat a - 240 \<or> 16 \<le> low6 (t ! 1)"
      using low6_second(3) [OF sec] 4 r(1) by (cases "a = 0xF0") (auto simp: word_eq_iff_unsigned [where 'a = nat])
    then show ?thesis
      using mod_lead [of 30 8 "unat a"] decode_bounds(3) [OF lo, of "unat a - 240"] r c 4 by simp
  qed
qed

end
