(* ===== verification/Vt_Parser.thy ===== *)
theory Vt_Parser
  imports Vt_Utf8
begin

text \<open>
  The bounded terminal syntax decoder, \<^verbatim>\<open>packages/terminal-grid/src/vt_parser.rs\<close>, on its
  fixed-size arrays.  An array index out of range, a slice out of range, an index underflow and
  \<^verbatim>\<open>unreachable!\<close> are panics, the value \<^term>\<open>None\<close> of the option monad.  The callbacks
  of a \<^verbatim>\<open>Perform\<close> implementation are the list of events that a step emits, in call order; a
  \<^verbatim>\<open>Params\<close> argument is the list of groups that its iterator yields.
\<close>

section \<open>Parameters\<close>

record params =
  pr_values :: "u16 list"
  pr_ends :: "nat list"
  pr_used :: nat
  pr_groups :: nat

definition params_new :: params where
  "params_new = \<lparr>pr_values = replicate 32 0, pr_ends = replicate 32 0, pr_used = 0, pr_groups = 0\<rparr>"

definition params_clear :: "params \<Rightarrow> params" where
  "params_clear q =
     q\<lparr>pr_used := 0, pr_groups := 0, pr_ends := replicate (length (pr_ends q)) 0\<rparr>"

definition params_append :: "u16 \<Rightarrow> bool \<Rightarrow> params \<Rightarrow> (params \<times> bool) option" where
  "params_append v close q =
     (if pr_used q = length (pr_values q) then Some (q, False)
      else do {
        vs \<leftarrow> arr_set (pr_values q) (pr_used q) v;
        es \<leftarrow> arr_set (pr_ends q) (pr_groups q) (pr_used q + 1);
        Some (q\<lparr>pr_values := vs, pr_used := pr_used q + 1, pr_ends := es,
                pr_groups := (if close then pr_groups q + 1 else pr_groups q)\<rparr>, True)
      })"

definition params_finish :: "u16 \<Rightarrow> params \<Rightarrow> (params \<times> bool) option" where
  "params_finish v q =
     do {
       (q, ok) \<leftarrow> params_append v True q;
       if ok then Some (q, True)
       else if pr_groups q < length (pr_ends q) then do {
         e \<leftarrow> arr_get (pr_ends q) (pr_groups q);
         Some (if e = pr_used q then q\<lparr>pr_groups := pr_groups q + 1\<rparr> else q, False)
       }
       else Some (q, False)
     }"

text \<open>
  The iterator: \<open>params_next\<close> is one call of \<^verbatim>\<open>next\<close> on the cursor \<open>(grp, start)\<close>, and
  \<open>params_groups_from\<close> collects what repeated calls yield.
\<close>

definition params_next :: "params \<Rightarrow> nat \<times> nat \<Rightarrow> (u16 list \<times> nat \<times> nat) option option" where
  "params_next q cur =
     (case cur of (grp, start) \<Rightarrow>
        if pr_groups q = 0 \<or> grp = pr_groups q then Some None
        else do {
          e \<leftarrow> arr_get (pr_ends q) grp;
          r \<leftarrow> arr_slice (pr_values q) start e;
          Some (Some (r, grp + 1, e))
        })"

lemma params_next_bound: "params_next q (g, s) = Some (Some (r, g', s')) \<Longrightarrow> g < length (pr_ends q) \<and> g' = g + 1"
  by (auto simp: params_next_def arr_get_def split: if_splits bind_splits)

function params_groups_from :: "params \<Rightarrow> nat \<Rightarrow> nat \<Rightarrow> u16 list list option" where
  "params_groups_from q g s =
     (case params_next q (g, s) of
        None \<Rightarrow> None
      | Some None \<Rightarrow> Some []
      | Some (Some (r, g', s')) \<Rightarrow> map_option (\<lambda>rs. r # rs) (params_groups_from q g' s'))"
  by pat_completeness auto
termination
  by (relation "measure (\<lambda>(q, g, s). length (pr_ends q) - g)") (auto dest!: params_next_bound)

declare params_groups_from.simps [simp del]

definition params_iter :: "params \<Rightarrow> u16 list list option" where
  "params_iter q = params_groups_from q 0 0"

section \<open>Events, states and the parser record\<close>

datatype vt_event =
    Print nat
  | Execute u8
  | Hook "u16 list list" bytes bool u8
  | Put u8
  | Unhook
  | OscDispatch "bytes list" bool
  | CsiDispatch "u16 list list" bytes bool u8
  | EscDispatch bytes bool u8

datatype vt_state = Text | Escape | EscapeCollect | CsiStart | CsiNumbers | CsiCollect | CsiDiscard
  | DcsStart | DcsNumbers | DcsCollect | DcsDiscard | DcsData | Osc | OscEscape | StringDiscard

record parser =
  vp_state :: vt_state
  vp_params :: params
  vp_number :: u16
  vp_intermediates :: bytes
  vp_intermediate_len :: nat
  vp_ignored :: bool
  vp_osc :: bytes
  vp_osc_len :: nat
  vp_osc_ends :: "nat list"
  vp_osc_args :: nat
  vp_osc_overflow :: bool
  vp_utf8 :: bytes
  vp_utf8_len :: nat
  vp_utf8_expected :: nat

type_synonym vt_step = "(parser \<times> vt_event list) option"

definition new_with_size :: "nat \<Rightarrow> parser" where
  "new_with_size N =
     \<lparr>vp_state = Text, vp_params = params_new, vp_number = 0, vp_intermediates = [0, 0],
      vp_intermediate_len = 0, vp_ignored = False, vp_osc = replicate N 0, vp_osc_len = 0,
      vp_osc_ends = replicate 16 0, vp_osc_args = 0, vp_osc_overflow = False,
      vp_utf8 = [0, 0, 0, 0], vp_utf8_len = 0, vp_utf8_expected = 0\<rparr>"

definition parser_new :: parser where
  "parser_new = new_with_size 1024"

section \<open>Header storage\<close>

definition clear_header :: "parser \<Rightarrow> parser" where
  "clear_header p =
     p\<lparr>vp_params := params_clear (vp_params p), vp_number := 0, vp_intermediate_len := 0,
       vp_ignored := False\<rparr>"

definition collect :: "u8 \<Rightarrow> parser \<Rightarrow> parser option" where
  "collect b p =
     (if vp_intermediate_len p < length (vp_intermediates p) then do {
        xs \<leftarrow> arr_set (vp_intermediates p) (vp_intermediate_len p) b;
        Some (p\<lparr>vp_intermediates := xs, vp_intermediate_len := vp_intermediate_len p + 1\<rparr>)
      }
      else Some (p\<lparr>vp_ignored := True\<rparr>))"

definition parameter :: "u8 \<Rightarrow> parser \<Rightarrow> parser option" where
  "parameter b p =
     (if pr_used (vp_params p) = 32 then Some (p\<lparr>vp_ignored := True\<rparr>)
      else if between 0x30 0x39 b then
        Some (p\<lparr>vp_number :=
          saturating_add (saturating_mul (vp_number p) 10) (ucast (b - 0x30))\<rparr>)
      else if b = 0x3A \<or> b = 0x3B then do {
        (q, _) \<leftarrow> params_append (vp_number p) (b = 0x3B) (vp_params p);
        Some (p\<lparr>vp_params := q, vp_number := 0\<rparr>)
      }
      else Some p)"

definition finish_header :: "parser \<Rightarrow> parser option" where
  "finish_header p =
     do {
       (q, ok) \<leftarrow> params_finish (vp_number p) (vp_params p);
       Some (if ok then p\<lparr>vp_params := q\<rparr> else p\<lparr>vp_params := q, vp_ignored := True\<rparr>)
     }"

section \<open>Operating system commands\<close>

text \<open>The conjunction short-circuits: the array is read only when the first marker exists.\<close>

definition is_pointer_osc :: "parser \<Rightarrow> bool option" where
  "is_pointer_osc p =
     (if vp_osc_args p = 0 then Some False
      else do {
        e \<leftarrow> arr_get (vp_osc_ends p) 0;
        if e \<noteq> 2 then Some False
        else do { s \<leftarrow> arr_slice (vp_osc p) 0 2; Some (s = [0x32, 0x32]) }
      })"

text \<open>The argument slices: \<open>osc_slices osc ends start\<close> cuts \<open>osc\<close> at the given ends.\<close>

fun osc_slices :: "bytes \<Rightarrow> nat list \<Rightarrow> nat \<Rightarrow> bytes list option" where
  "osc_slices osc [] start = Some []"
| "osc_slices osc (e # es) start =
     do {
       a \<leftarrow> arr_slice osc start e;
       r \<leftarrow> osc_slices osc es e;
       Some (a # r)
     }"

definition end_string :: "bool \<Rightarrow> parser \<Rightarrow> vt_step" where
  "end_string bell p =
     (case vp_state p of
        DcsData \<Rightarrow> Some (p, [Unhook])
      | _ \<Rightarrow>
          if vp_state p = Osc \<or> vp_state p = OscEscape then do {
            pointer \<leftarrow> is_pointer_osc p;
            if pointer \<and> vp_osc_overflow p then Some (p, [])
            else do {
              p \<leftarrow> (if vp_osc_args p < 16 then do {
                     es \<leftarrow> arr_set (vp_osc_ends p) (vp_osc_args p) (vp_osc_len p);
                     Some (p\<lparr>vp_osc_ends := es, vp_osc_args := vp_osc_args p + 1\<rparr>)
                   } else Some p);
              ends \<leftarrow> arr_slice (vp_osc_ends p) 0 (vp_osc_args p);
              args \<leftarrow> osc_slices (vp_osc p) ends 0;
              Some (p, [OscDispatch args bell])
            }
          }
          else Some (p, []))"

text \<open>\<^verbatim>\<open>pointer_string_control\<close>: the flag says that the byte was handled.\<close>

definition pointer_string_control :: "u8 \<Rightarrow> parser \<Rightarrow> (parser \<times> vt_event list \<times> bool) option" where
  "pointer_string_control b p =
     (if vp_state p = OscEscape then
        if b = 0x5C then do {
          (p, ev) \<leftarrow> end_string False p;
          Some (p\<lparr>vp_state := Text\<rparr>, ev, True)
        }
        else Some (clear_header (p\<lparr>vp_state := Escape\<rparr>), [], False)
      else do {
        pointer \<leftarrow> (if vp_state p = Osc then is_pointer_osc p else Some False);
        if pointer \<and> b = 0x1B then Some (p\<lparr>vp_state := OscEscape\<rparr>, [], True)
        else if pointer \<and> (b = 0x18 \<or> b = 0x1A) then Some (p\<lparr>vp_state := Text\<rparr>, [], True)
        else Some (p, [], False)
      })"

definition osc_byte :: "u8 \<Rightarrow> parser \<Rightarrow> vt_step" where
  "osc_byte b p =
     (if b = 0x07 then do {
        (p, ev) \<leftarrow> end_string True p;
        Some (p\<lparr>vp_state := Text\<rparr>, ev)
      }
      else if b \<le> 0x1F then do {
        pointer \<leftarrow> is_pointer_osc p;
        Some (if pointer then p\<lparr>vp_osc_overflow := True\<rparr> else p, [])
      }
      else if b = 0x3B then
        if vp_osc_args p < 16 then do {
          es \<leftarrow> arr_set (vp_osc_ends p) (vp_osc_args p) (vp_osc_len p);
          Some (p\<lparr>vp_osc_ends := es, vp_osc_args := vp_osc_args p + 1\<rparr>, [])
        }
        else Some (p\<lparr>vp_osc_overflow := True\<rparr>, [])
      else if vp_osc_len p < length (vp_osc p) \<and> vp_osc_args p < 16 then do {
        xs \<leftarrow> arr_set (vp_osc p) (vp_osc_len p) b;
        Some (p\<lparr>vp_osc := xs, vp_osc_len := vp_osc_len p + 1\<rparr>, [])
      }
      else Some (p\<lparr>vp_osc_overflow := True\<rparr>, []))"

section \<open>Escape sequences and headers\<close>

definition escape :: "u8 \<Rightarrow> parser \<Rightarrow> vt_step" where
  "escape b p =
     (if b \<le> 0x1F then Some (p, [Execute b])
      else if between 0x20 0x2F b then do {
        p \<leftarrow> collect b p;
        Some (p\<lparr>vp_state := EscapeCollect\<rparr>, [])
      }
      else if b = 0x5B \<and> vp_state p = Escape then
        Some ((clear_header p)\<lparr>vp_state := CsiStart\<rparr>, [])
      else if b = 0x50 \<and> vp_state p = Escape then
        Some ((clear_header p)\<lparr>vp_state := DcsStart\<rparr>, [])
      else if b = 0x5D \<and> vp_state p = Escape then
        Some (p\<lparr>vp_osc_len := 0, vp_osc_args := 0, vp_osc_overflow := False, vp_state := Osc\<rparr>, [])
      else if (b = 0x58 \<or> b = 0x5E \<or> b = 0x5F) \<and> vp_state p = Escape then
        Some (p\<lparr>vp_state := StringDiscard\<rparr>, [])
      else if between 0x30 0x7E b then do {
        xs \<leftarrow> arr_slice (vp_intermediates p) 0 (vp_intermediate_len p);
        Some (p\<lparr>vp_state := Text\<rparr>, [EscDispatch xs (vp_ignored p) b])
      }
      else Some (p, []))"

definition header :: "u8 \<Rightarrow> parser \<Rightarrow> vt_step" where
  "header b p =
     (let dcs = vp_state p \<in> {DcsStart, DcsNumbers, DcsCollect};
          collecting = vp_state p \<in> {CsiCollect, DcsCollect};
          entry = vp_state p \<in> {CsiStart, DcsStart} in
      if b \<le> 0x1F then Some (p, if dcs then [] else [Execute b])
      else if between 0x20 0x2F b then do {
        p \<leftarrow> collect b p;
        Some (p\<lparr>vp_state := (if dcs then DcsCollect else CsiCollect)\<rparr>, [])
      }
      else if between 0x30 0x3F b then
        if collecting \<or> (0x3C \<le> b \<and> \<not> entry) then
          Some (p\<lparr>vp_state := (if dcs then DcsDiscard else CsiDiscard)\<rparr>, [])
        else if 0x3C \<le> b then do {
          p \<leftarrow> collect b p;
          Some (p\<lparr>vp_state := (if dcs then DcsNumbers else CsiNumbers)\<rparr>, [])
        }
        else do {
          p \<leftarrow> parameter b p;
          Some (p\<lparr>vp_state := (if dcs then DcsNumbers else CsiNumbers)\<rparr>, [])
        }
      else if between 0x40 0x7E b then do {
        p \<leftarrow> finish_header p;
        xs \<leftarrow> arr_slice (vp_intermediates p) 0 (vp_intermediate_len p);
        gs \<leftarrow> params_iter (vp_params p);
        Some (if dcs then (p\<lparr>vp_state := DcsData\<rparr>, [Hook gs xs (vp_ignored p) b])
              else (p\<lparr>vp_state := Text\<rparr>, [CsiDispatch gs xs (vp_ignored p) b]))
      }
      else Some (p, []))"

section \<open>Text\<close>

definition text_byte :: "u8 \<Rightarrow> parser \<Rightarrow> vt_step" where
  "text_byte b p =
     (if b \<le> 0x1F \<or> between 0x80 0x9F b then Some (p, [Execute b])
      else if between 0x20 0x7F b then Some (p, [Print (unat b)])
      else if between 0xC2 0xF4 b then do {
        u \<leftarrow> arr_set (vp_utf8 p) 0 b;
        Some (p\<lparr>vp_utf8 := u, vp_utf8_len := 1,
                vp_utf8_expected := (if b < 0xE0 then 2 else if b < 0xF0 then 3 else 4)\<rparr>, [])
      }
      else Some (p, [Print 0xFFFD]))"

definition continue_utf8 :: "u8 \<Rightarrow> parser \<Rightarrow> (parser \<times> vt_event list \<times> bool) option" where
  "continue_utf8 b p =
     do {
       first \<leftarrow> arr_get (vp_utf8 p) 0;
       if \<not> (between 0x80 0xBF b \<and>
             (vp_utf8_len p \<noteq> 1 \<or>
              (if first = 0xE0 then 0xA0 \<le> b
               else if first = 0xED then b \<le> 0x9F
               else if first = 0xF0 then 0x90 \<le> b
               else if first = 0xF4 then b \<le> 0x8F
               else True)))
       then Some (p\<lparr>vp_utf8_len := 0\<rparr>, [Print 0xFFFD], False)
       else do {
         u \<leftarrow> arr_set (vp_utf8 p) (vp_utf8_len p) b;
         let p = p\<lparr>vp_utf8 := u, vp_utf8_len := vp_utf8_len p + 1\<rparr>;
         if vp_utf8_len p = vp_utf8_expected p then do {
           t \<leftarrow> arr_slice (vp_utf8 p) 0 (vp_utf8_len p);
           Some (p\<lparr>vp_utf8_len := 0\<rparr>,
                 (if from_utf8 t = Utf8Ok then
                    (case first_char t of
                       None \<Rightarrow> []
                     | Some c \<Rightarrow> if between 0x80 0x9F c then [Execute (word_of_nat c)] else [Print c])
                  else []), True)
         }
         else Some (p, [], True)
       }
     }"

text \<open>
  \<^verbatim>\<open>complete_saved_utf8\<close> returns how many of the added bytes it consumed.
\<close>

definition complete_saved_utf8 :: "nat \<Rightarrow> parser \<Rightarrow> (parser \<times> vt_event list \<times> nat) option" where
  "complete_saved_utf8 added p =
     do {
       t \<leftarrow> arr_slice (vp_utf8 p) 0 (vp_utf8_len p);
       let original = vp_utf8_len p - added;
       case from_utf8 t of
         Utf8Ok \<Rightarrow>
           (case first_char t of
              Some c \<Rightarrow> Some (p\<lparr>vp_utf8_len := 0\<rparr>, [Print c], char_len_utf8 c - original)
            | None \<Rightarrow> Some (p\<lparr>vp_utf8_len := 0\<rparr>, [], 0))
       | Utf8Error e len \<Rightarrow>
           if e \<noteq> 0 then do {
             t' \<leftarrow> arr_slice (vp_utf8 p) 0 e;
             Some (p\<lparr>vp_utf8_len := 0\<rparr>,
                   (if from_utf8 t' = Utf8Ok then
                      (case first_char t' of Some c \<Rightarrow> [Print c] | None \<Rightarrow> [])
                    else []),
                   e - original)
           }
           else (case len of
                   Some l \<Rightarrow> Some (p\<lparr>vp_utf8_len := 0\<rparr>, [Print 0xFFFD], l - original)
                 | None \<Rightarrow> Some (p, [], added))
     }"

section \<open>The byte loop\<close>

text \<open>\<^verbatim>\<open>consume\<close> after the UTF-8 continuation has declined the byte.\<close>

definition dispatch_byte :: "u8 \<Rightarrow> parser \<Rightarrow> vt_step" where
  "dispatch_byte b p =
     (if b = 0x18 \<or> b = 0x1A then do {
        (p, ev) \<leftarrow> end_string False p;
        Some (p\<lparr>vp_state := Text\<rparr>, ev @ [Execute b])
      }
      else if b = 0x1B then do {
        (p, ev) \<leftarrow> end_string False p;
        Some ((clear_header p)\<lparr>vp_state := Escape\<rparr>, ev)
      }
      else
        (case vp_state p of
           Text \<Rightarrow> text_byte b p
         | Escape \<Rightarrow> escape b p
         | EscapeCollect \<Rightarrow> escape b p
         | CsiStart \<Rightarrow> header b p
         | CsiNumbers \<Rightarrow> header b p
         | CsiCollect \<Rightarrow> header b p
         | DcsStart \<Rightarrow> header b p
         | DcsNumbers \<Rightarrow> header b p
         | DcsCollect \<Rightarrow> header b p
         | CsiDiscard \<Rightarrow>
             if b \<le> 0x1F then Some (p, [Execute b])
             else if between 0x40 0x7E b then Some (p\<lparr>vp_state := Text\<rparr>, [])
             else Some (p, [])
         | DcsData \<Rightarrow>
             if b = 0x9C then Some (p\<lparr>vp_state := Text\<rparr>, [Unhook])
             else if b \<le> 0x7E then Some (p, [Put b])
             else Some (p, [])
         | Osc \<Rightarrow> osc_byte b p
         | OscEscape \<Rightarrow> None
         | DcsDiscard \<Rightarrow> if b = 0x9C then Some (p\<lparr>vp_state := Text\<rparr>, []) else Some (p, [])
         | StringDiscard \<Rightarrow> Some (p, [])))"

definition consume :: "u8 \<Rightarrow> parser \<Rightarrow> vt_step" where
  "consume b p =
     do {
       (p, ev1, handled) \<leftarrow> (if vp_state p = Text \<and> vp_utf8_len p \<noteq> 0 then continue_utf8 b p
                             else Some (p, [], False));
       if handled then Some (p, ev1)
       else do {
         (p, ev2, handled) \<leftarrow> pointer_string_control b p;
         if handled then Some (p, ev1 @ ev2)
         else do {
           (p, ev3) \<leftarrow> dispatch_byte b p;
           Some (p, ev1 @ ev2 @ ev3)
         }
       }
     }"

fun consume_all :: "bytes \<Rightarrow> parser \<Rightarrow> vt_step" where
  "consume_all [] p = Some (p, [])"
| "consume_all (b # bs) p =
     do {
       (p, ev) \<leftarrow> consume b p;
       (p, ev') \<leftarrow> consume_all bs p;
       Some (p, ev @ ev')
     }"

text \<open>\<^verbatim>\<open>copy_from_slice\<close> of the saved bytes, then the byte loop on the rest.\<close>

definition advance :: "bytes \<Rightarrow> parser \<Rightarrow> vt_step" where
  "advance bs p =
     do {
       (p, ev, offset) \<leftarrow>
         (if vp_utf8_len p \<noteq> 0 then
            let count = min (4 - vp_utf8_len p) (length bs) in
            if vp_utf8_len p + count \<le> length (vp_utf8 p) then
              complete_saved_utf8 count
                (p\<lparr>vp_utf8 := take (vp_utf8_len p) (vp_utf8 p) @ take count bs
                              @ drop (vp_utf8_len p + count) (vp_utf8 p),
                   vp_utf8_len := vp_utf8_len p + count\<rparr>)
            else None
          else Some (p, [], 0));
       rest \<leftarrow> arr_slice bs offset (length bs);
       (p, ev') \<leftarrow> consume_all rest p;
       Some (p, ev @ ev')
     }"

section \<open>Replay prefixes\<close>

text \<open>The digit loop runs down the five-byte buffer; running out of it would be an underflow.\<close>

fun write_digits :: "bytes \<Rightarrow> nat \<Rightarrow> u16 \<Rightarrow> bytes option" where
  "write_digits digits 0 remaining = None"
| "write_digits digits (Suc i) remaining =
     do {
       digits \<leftarrow> arr_set digits i
         (0x30 + (if remaining mod 10 < 256 then ucast (remaining mod 10) else 0));
       let remaining = remaining div 10;
       if remaining = 0 then arr_slice digits i (length digits)
       else write_digits digits i remaining
     }"

definition write_number :: "u16 \<Rightarrow> bytes option" where
  "write_number v = write_digits (replicate 5 0) 5 v"

text \<open>The parameter loop of the header prefix, from \<open>index\<close> for the remaining \<open>n\<close> values.\<close>

fun write_params :: "params \<Rightarrow> nat \<Rightarrow> nat \<Rightarrow> nat \<Rightarrow> bytes option" where
  "write_params q index 0 grp = Some []"
| "write_params q index (Suc n) grp =
     do {
       v \<leftarrow> arr_get (pr_values q) index;
       d \<leftarrow> write_number v;
       closed \<leftarrow> (if grp < pr_groups q then do {
                   e \<leftarrow> arr_get (pr_ends q) grp; Some (e = index + 1) }
                 else Some False);
       r \<leftarrow> write_params q (index + 1) n (if closed then grp + 1 else grp);
       Some (d @ [if closed then 0x3B else 0x3A] @ r)
     }"

fun write_osc_args :: "bytes \<Rightarrow> nat list \<Rightarrow> nat \<Rightarrow> nat \<Rightarrow> bytes option" where
  "write_osc_args osc [] start stop = arr_slice osc start stop"
| "write_osc_args osc (e # es) start stop =
     do {
       a \<leftarrow> arr_slice osc start e;
       r \<leftarrow> write_osc_args osc es e stop;
       Some (a @ [0x3B] @ r)
     }"

definition pointer_prefix :: "parser \<Rightarrow> bool option" where
  "pointer_prefix p =
     (if vp_osc_args p \<noteq> 0 then Some False
      else if vp_osc_len p = 0 then Some True
      else do {
        s \<leftarrow> arr_slice (vp_osc p) 0 (vp_osc_len p);
        Some (take (length s) [0x32, 0x32] = s)
      })"

definition write_osc_prefix :: "parser \<Rightarrow> bytes option" where
  "write_osc_prefix p =
     do {
       pp \<leftarrow> pointer_prefix p;
       pointer \<leftarrow> is_pointer_osc p;
       body \<leftarrow>
         (if pointer \<or> pp then
            if vp_osc_overflow p then
              Some ([0x32, 0x32, 0x3B] @ replicate (length (vp_osc p) + 1) 0x78)
            else do {
              ends \<leftarrow> arr_slice (vp_osc_ends p) 0 (vp_osc_args p);
              write_osc_args (vp_osc p) ends 0 (vp_osc_len p)
            }
          else Some []);
       Some ([0x1B, 0x5D] @ body @ (if vp_state p = OscEscape then [0x1B] else []))
     }"

definition write_header_prefix :: "parser \<Rightarrow> bytes option" where
  "write_header_prefix p =
     (let dcs = vp_state p \<in> {DcsStart, DcsNumbers, DcsCollect} in
      do {
        inter \<leftarrow> arr_slice (vp_intermediates p) 0 (vp_intermediate_len p);
        let private = (if inter \<noteq> [] \<and> 0x3C \<le> hd inter then 1 else 0);
        ps \<leftarrow> write_params (vp_params p) 0 (pr_used (vp_params p)) 0;
        num \<leftarrow> (if pr_used (vp_params p) \<noteq> 0 \<or> vp_number p \<noteq> 0 \<or>
                   vp_state p \<in> {CsiNumbers, DcsNumbers}
                then write_number (vp_number p) else Some []);
        Some ((if dcs then [0x1B, 0x50] else [0x1B, 0x5B]) @ take private inter @ ps @ num
              @ (if vp_ignored p \<and> pr_used (vp_params p) = 32 then [0x30] else [])
              @ drop private inter
              @ (if vp_ignored p \<and> pr_used (vp_params p) < 32 then [0x20] else []))
      })"

definition replay_prefix :: "parser \<Rightarrow> bytes option" where
  "replay_prefix p =
     (case vp_state p of
        Text \<Rightarrow> arr_slice (vp_utf8 p) 0 (vp_utf8_len p)
      | Osc \<Rightarrow> write_osc_prefix p
      | OscEscape \<Rightarrow> write_osc_prefix p
      | StringDiscard \<Rightarrow> Some [0x1B, 0x5F]
      | DcsData \<Rightarrow> Some [0x1B, 0x50, 0x71]
      | DcsDiscard \<Rightarrow> Some [0x1B, 0x50, 0x20, 0x24, 0x30]
      | CsiDiscard \<Rightarrow> Some [0x1B, 0x5B, 0x20, 0x24, 0x30]
      | Escape \<Rightarrow>
          do { xs \<leftarrow> arr_slice (vp_intermediates p) 0 (vp_intermediate_len p);
               Some ([0x1B] @ xs @ (if vp_ignored p then [0x20] else [])) }
      | EscapeCollect \<Rightarrow>
          do { xs \<leftarrow> arr_slice (vp_intermediates p) 0 (vp_intermediate_len p);
               Some ([0x1B] @ xs @ (if vp_ignored p then [0x20] else [])) }
      | _ \<Rightarrow> write_header_prefix p)"

end
