(* ===== verification/Vt_Cuts.thy ===== *)
theory Vt_Cuts
  imports Vt_Parser
begin

text \<open>
  The storage scheme that the parser uses twice, for numeric parameters and for the arguments of an
  operating system command: one flat buffer, a fill level and an array of end offsets.  \<open>cuts\<close> reads
  the closed segments of such a buffer and \<open>cur\<close> the open one.  The lemmas say how the two change
  when a value is stored and when a segment is closed; the last section instantiates them for
  \<^verbatim>\<open>Params\<close>.
\<close>

section \<open>Segments of a flat buffer\<close>

fun cuts :: "'a list \<Rightarrow> nat list \<Rightarrow> nat \<Rightarrow> 'a list list" where
  "cuts xs [] s = []"
| "cuts xs (e # es) s = take (e - s) (drop s xs) # cuts xs es e"

definition lastend :: "nat list \<Rightarrow> nat" where
  "lastend es = (if es = [] then 0 else last es)"

definition cur :: "'a list \<Rightarrow> nat list \<Rightarrow> nat \<Rightarrow> 'a list" where
  "cur xs es used = take (used - lastend es) (drop (lastend es) xs)"

definition cut_ok :: "'a list \<Rightarrow> nat list \<Rightarrow> nat \<Rightarrow> bool" where
  "cut_ok xs es used \<longleftrightarrow> sorted es \<and> lastend es \<le> used \<and> used \<le> length xs"

lemma lastend_simps [simp]: "lastend [] = 0" "lastend (es @ [e]) = e"
  by (simp_all add: lastend_def)

lemma cut_ok_le: "cut_ok xs es used \<Longrightarrow> e \<in> set es \<Longrightarrow> e \<le> used"
  unfolding cut_ok_def lastend_def
  by (cases es rule: rev_cases) (auto simp: sorted_append)

lemma cuts_snoc:
  "cuts xs (es @ [e]) s = cuts xs es s @ [take (e - (if es = [] then s else last es))
     (drop (if es = [] then s else last es) xs)]"
  by (induction es arbitrary: s) auto

lemma cuts_close: "cuts xs (es @ [used]) 0 = cuts xs es 0 @ [cur xs es used]"
  by (simp add: cuts_snoc cur_def lastend_def)

lemma cur_close [simp]: "cur xs (es @ [used]) used = []"
  by (simp add: cur_def)

lemma cur_zero [simp]: "cur xs [] 0 = []"
  by (simp add: cur_def)

lemma length_cuts [simp]: "length (cuts xs es s) = length es"
  by (induction es arbitrary: s) auto

lemma length_cur: "cut_ok xs es used \<Longrightarrow> length (cur xs es used) = used - lastend es"
  by (auto simp: cut_ok_def cur_def)

lemma take_drop_update [simp]: "e \<le> n \<Longrightarrow> take (e - s) (drop s (xs[n := v])) = take (e - s) (drop s xs)"
  by (cases "s \<le> n") (auto simp: drop_update_swap take_update_cancel)

lemma cuts_update: "(\<And>e. e \<in> set es \<Longrightarrow> e \<le> n) \<Longrightarrow> cuts (xs[n := v]) es s = cuts xs es s"
  by (induction es arbitrary: s) auto

lemma cuts_store: "cut_ok xs es used \<Longrightarrow> cuts (xs[used := v]) es 0 = cuts xs es 0"
  by (rule cuts_update) (rule cut_ok_le)

lemma cur_store:
  assumes "cut_ok xs es used" "used < length xs"
  shows "cur (xs[used := v]) es (Suc used) = cur xs es used @ [v]"
proof -
  let ?l = "lastend es"
  have l: "?l \<le> used" using assms by (simp add: cut_ok_def)
  let ?ys = "drop ?l (xs[used := v])"
  have "take (Suc (used - ?l)) ?ys = take (used - ?l) ?ys @ [?ys ! (used - ?l)]"
    by (rule take_Suc_conv_app_nth) (use l assms(2) in simp)
  then show ?thesis
    using l assms(2) by (simp add: cur_def Suc_diff_le)
qed

lemma cut_ok_store:
  "cut_ok xs es used \<Longrightarrow> used < length xs \<Longrightarrow> cut_ok (xs[used := v]) es (Suc used)"
  by (simp add: cut_ok_def)

lemma cut_ok_close: "cut_ok xs es used \<Longrightarrow> cut_ok xs (es @ [used]) used"
  using cut_ok_le by (auto simp: cut_ok_def sorted_append)

lemma concat_cuts:
  "sorted (s # es) \<Longrightarrow>
   concat (cuts xs es s) = take ((if es = [] then s else last es) - s) (drop s xs)"
proof (induction es arbitrary: s)
  case (Cons e es)
  have IH: "concat (cuts xs es e) = take ((if es = [] then e else last es) - e) (drop e xs)"
    using Cons by auto
  define l where "l = (if es = [] then e else last es)"
  have "s \<le> e" "e \<le> l"
    using Cons.prems by (auto simp: l_def)
  then have "take (e - s) (drop s xs) @ take (l - e) (drop e xs) = take (l - s) (drop s xs)"
    using take_add [of "e - s" "l - e" "drop s xs"] by simp
  then show ?case
    using IH by (simp add: l_def)
qed simp

lemma concat_cuts_cur:
  assumes "cut_ok xs es used"
  shows "concat (cuts xs es 0) @ cur xs es used = take used xs"
proof -
  have "concat (cuts xs es 0) = take (lastend es) xs"
    using assms concat_cuts [of 0 es xs] by (auto simp: cut_ok_def lastend_def)
  moreover have "lastend es \<le> used"
    using assms by (simp add: cut_ok_def)
  ultimately show ?thesis
    using take_add [of "lastend es" "used - lastend es" xs] by (simp add: cur_def)
qed

lemma sum_cuts: "cut_ok xs es used \<Longrightarrow> length (concat (cuts xs es 0)) + length (cur xs es used) = used"
  using arg_cong [OF concat_cuts_cur, of xs es used length] by (simp add: cut_ok_def)

lemma osc_slices_cuts:
  "sorted (s # es) \<Longrightarrow> (\<And>e. e \<in> set es \<Longrightarrow> e \<le> length xs) \<Longrightarrow> osc_slices xs es s = Some (cuts xs es s)"
  by (induction es arbitrary: s) auto

lemma osc_slices_ok: "cut_ok xs es used \<Longrightarrow> osc_slices xs es 0 = Some (cuts xs es 0)"
  using cut_ok_le [of xs es used] by (intro osc_slices_cuts) (auto simp: cut_ok_def intro: order_trans)

section \<open>Parameters\<close>

definition pr_closed :: "params \<Rightarrow> nat list" where
  "pr_closed q = take (pr_groups q) (pr_ends q)"

definition groups_of :: "params \<Rightarrow> u16 list list" where
  "groups_of q = cuts (pr_values q) (pr_closed q) 0"

definition open_of :: "params \<Rightarrow> u16 list" where
  "open_of q = cur (pr_values q) (pr_closed q) (pr_used q)"

text \<open>
  Closed groups are not empty, the end of the open group is recorded as soon as it has a value, and
  the end slots past it are zero.
\<close>

definition params_ok :: "params \<Rightarrow> bool" where
  "params_ok q \<longleftrightarrow> length (pr_values q) = 32 \<and> length (pr_ends q) = 32 \<and> pr_groups q \<le> 32 \<and>
     cut_ok (pr_values q) (pr_closed q) (pr_used q) \<and> sorted_wrt (<) (0 # pr_closed q) \<and>
     (\<forall>k. pr_groups q \<le> k \<longrightarrow> k < 32 \<longrightarrow>
        pr_ends q ! k = (if k = pr_groups q \<and> open_of q \<noteq> [] then pr_used q else 0))"

lemma params_ok_new [simp]: "params_ok params_new"
  by (simp add: params_ok_def params_new_def pr_closed_def cut_ok_def open_of_def)

lemma abs_new [simp]: "groups_of params_new = []" "open_of params_new = []" "pr_used params_new = 0"
  by (simp_all add: groups_of_def open_of_def pr_closed_def params_new_def)

lemma params_ok_clear: "params_ok q \<Longrightarrow> params_ok (params_clear q)"
  by (simp add: params_ok_def params_clear_def pr_closed_def cut_ok_def open_of_def)

lemma abs_clear [simp]:
  "groups_of (params_clear q) = []" "open_of (params_clear q) = []" "pr_used (params_clear q) = 0"
  by (simp_all add: groups_of_def open_of_def pr_closed_def params_clear_def)

lemma strict_sorted_length: "sorted_wrt (<) (x # xs) \<Longrightarrow> x + length xs \<le> last (x # xs)" for x :: nat
proof (induction xs arbitrary: x)
  case (Cons y ys)
  then have "y + length ys \<le> last (y # ys)" "x < y"
    by auto
  then show ?case by auto
qed simp

lemma groups_le_used:
  assumes "params_ok q"
  shows "pr_groups q \<le> pr_used q" "pr_used q \<le> 32"
proof -
  have "length (pr_closed q) \<le> lastend (pr_closed q)"
    using strict_sorted_length [of 0 "pr_closed q"] assms
    by (auto simp: params_ok_def lastend_def split: if_splits)
  then show "pr_groups q \<le> pr_used q" "pr_used q \<le> 32"
    using assms by (auto simp: params_ok_def cut_ok_def pr_closed_def)
qed

lemma used_abs: "params_ok q \<Longrightarrow> length (concat (groups_of q)) + length (open_of q) = pr_used q"
  using sum_cuts by (auto simp: params_ok_def groups_of_def open_of_def)

lemma params_append_ok:
  assumes "params_ok q" "pr_used q < 32"
  shows "\<exists>q'. params_append v close q = Some (q', True) \<and> params_ok q' \<and> pr_used q' = Suc (pr_used q) \<and>
    (groups_of q', open_of q') =
      (if close then (groups_of q @ [open_of q @ [v]], []) else (groups_of q, open_of q @ [v]))"
proof -
  let ?n = "pr_used q" and ?g = "pr_groups q" and ?es = "pr_closed q" and ?vs = "pr_values q"
  note ok = assms(1) [unfolded params_ok_def]
  have g: "?g < 32" using groups_le_used [OF assms(1)] assms(2) by simp
  define q' where "q' = q\<lparr>pr_values := ?vs[?n := v], pr_used := Suc ?n, pr_ends := (pr_ends q)[?g := Suc ?n],
      pr_groups := (if close then Suc ?g else ?g)\<rparr>"
  have eq: "params_append v close q = Some (q', True)"
    using ok g assms(2) by (simp add: params_append_def q'_def)
  have es': "pr_closed q' = (if close then ?es @ [Suc ?n] else ?es)"
    using ok g by (simp add: pr_closed_def q'_def take_Suc_conv_app_nth)
  have cut1: "cut_ok (?vs[?n := v]) ?es (Suc ?n)"
    using ok assms(2) by (simp add: cut_ok_store)
  have le: "e \<le> ?n" if "e \<in> set ?es" for e
    using ok that cut_ok_le by blast
  have sel: "pr_values q' = ?vs[?n := v]" "pr_used q' = Suc ?n"
    by (simp_all add: q'_def)
  have cut0: "cut_ok ?vs ?es ?n" and n: "?n < length ?vs"
    using ok assms(2) by simp_all
  have op: "open_of q' = (if close then [] else open_of q @ [v])"
    using cur_store [OF cut0 n] by (simp add: open_of_def es' sel)
  have gr: "groups_of q' = (if close then groups_of q @ [open_of q @ [v]] else groups_of q)"
    using cur_store [OF cut0 n] cuts_store [OF cut0]
    by (simp add: groups_of_def es' sel cuts_close open_of_def)
  have srt: "sorted_wrt (<) (0 # pr_closed q')"
    using ok le by (auto simp: es' sorted_wrt_append less_Suc_eq_le)
  have cut2: "cut_ok (pr_values q') (pr_closed q') (pr_used q')"
    using cut1 cut_ok_close [OF cut1] by (simp add: es' sel)
  have ends: "pr_ends q' ! k = (if k = pr_groups q' \<and> open_of q' \<noteq> [] then pr_used q' else 0)"
    if "pr_groups q' \<le> k" "k < 32" for k
  proof (cases "k = ?g")
    case True
    with that ok g op show ?thesis by (cases close) (simp_all add: q'_def)
  next
    case False
    with that have "pr_ends q' ! k = pr_ends q ! k" "?g \<le> k"
      by (auto simp: q'_def split: if_splits)
    with False that ok op show ?thesis by (cases close) (simp_all add: q'_def)
  qed
  have "length (pr_values q') = 32" "length (pr_ends q') = 32" "pr_groups q' \<le> 32"
    using ok g by (simp_all add: q'_def)
  then have "params_ok q'"
    using cut2 srt ends by (simp add: params_ok_def)
  then show ?thesis
    using eq op gr sel(2) by (cases close) simp_all
qed

lemma params_append_full:
  "params_ok q \<Longrightarrow> pr_used q = 32 \<Longrightarrow> params_append v close q = Some (q, False)"
  by (simp add: params_append_def params_ok_def)

lemma params_finish_ok:
  assumes "params_ok q" "pr_used q < 32"
  shows "\<exists>q'. params_finish v q = Some (q', True) \<and> params_ok q' \<and>
    groups_of q' = groups_of q @ [open_of q @ [v]]"
  using params_append_ok [OF assms, of v True] by (auto simp: params_finish_def)

lemma params_finish_full:
  assumes "params_ok q" "pr_used q = 32"
  shows "\<exists>q'. params_finish v q = Some (q', False) \<and> params_ok q' \<and>
    groups_of q' = groups_of q @ (if open_of q = [] then [] else [open_of q])"
proof -
  let ?g = "pr_groups q"
  note ok = assms(1) [unfolded params_ok_def]
  have fin: "params_finish v q =
      Some (if ?g < 32 \<and> open_of q \<noteq> [] then q\<lparr>pr_groups := Suc ?g\<rparr> else q, False)"
    using ok assms by (auto simp: params_finish_def params_append_full)
  show ?thesis
  proof (cases "?g < 32 \<and> open_of q \<noteq> []")
    case True
    let ?q = "q\<lparr>pr_groups := Suc ?g\<rparr>"
    have es: "pr_closed ?q = pr_closed q @ [pr_used q]"
      using True ok by (simp add: pr_closed_def take_Suc_conv_app_nth)
    have lt: "lastend (pr_closed q) < pr_used q"
      using True ok length_cur [of "pr_values q" "pr_closed q" "pr_used q"]
        length_greater_0_conv [of "open_of q"]
      by (simp add: open_of_def)
    have "sorted_wrt (<) (0 # pr_closed ?q)"
    proof -
      have "e < pr_used q" if "e \<in> set (pr_closed q)" for e
        using cut_ok_le [of "pr_values q" "pr_closed q" "lastend (pr_closed q)"] that ok lt
        by (fastforce simp: cut_ok_def)
      moreover have "0 < pr_used q" using assms by simp
      ultimately show ?thesis using ok by (auto simp: es sorted_wrt_append)
    qed
    moreover have "cut_ok (pr_values q) (pr_closed ?q) (pr_used q)"
      using ok by (simp add: es cut_ok_close)
    moreover have "open_of ?q = []"
      using es by (simp add: open_of_def)
    ultimately have "params_ok ?q"
      using ok True by (auto simp: params_ok_def)
    moreover have "groups_of ?q = groups_of q @ [open_of q]"
      by (simp add: groups_of_def es cuts_close open_of_def)
    ultimately show ?thesis using fin True by auto
  next
    case False
    have "open_of q = []" if "\<not> ?g < 32"
      using that ok groups_le_used [OF assms(1)] strict_sorted_length [of 0 "pr_closed q"]
        length_cur [of "pr_values q" "pr_closed q" "pr_used q"] assms(2)
      by (auto simp: open_of_def lastend_def pr_closed_def split: if_splits)
    with False fin assms(1) show ?thesis by auto
  qed
qed

lemma params_groups_from_cuts:
  assumes ok: "params_ok q" and "g \<le> pr_groups q" "s \<le> 32"
    and "s = (if g = 0 then 0 else pr_closed q ! (g - 1))"
  shows "params_groups_from q g s = Some (cuts (pr_values q) (drop g (pr_closed q)) s)"
  using assms(2-)
proof (induction "pr_groups q - g" arbitrary: g s)
  case 0
  then have "drop g (pr_closed q) = []" "params_next q (g, s) = Some None"
    by (simp_all add: pr_closed_def params_next_def)
  then show ?case by (simp add: params_groups_from.simps)
next
  case (Suc n)
  note pok = ok [unfolded params_ok_def]
  let ?e = "pr_closed q ! g"
  have len: "length (pr_closed q) = pr_groups q" using pok by (simp add: pr_closed_def)
  have g: "g < pr_groups q" using Suc by simp
  have e_in: "?e \<in> set (pr_closed q)" using g len by simp
  have e: "?e \<le> 32" "pr_ends q ! g = ?e"
    using cut_ok_le [OF _ e_in, of "pr_values q" "pr_used q"] pok groups_le_used [OF ok] g
    by (auto simp: pr_closed_def)
  have "s \<le> ?e"
    using pok g len Suc.prems by (auto simp: cut_ok_def sorted_iff_nth_mono)
  then have nxt: "params_next q (g, s) = Some (Some (take (?e - s) (drop s (pr_values q)), g + 1, ?e))"
    using g pok e by (simp add: params_next_def)
  have "params_groups_from q (g + 1) ?e = Some (cuts (pr_values q) (drop (g + 1) (pr_closed q)) ?e)"
    by (rule Suc.hyps(1)) (use Suc.hyps(2) g e in simp_all)
  moreover have "drop g (pr_closed q) = ?e # drop (g + 1) (pr_closed q)"
    using g len by (simp add: Cons_nth_drop_Suc)
  ultimately show ?case
    using nxt by (simp add: params_groups_from.simps [of q g s])
qed

text \<open>The iterator yields exactly the closed groups, and never reads out of range.\<close>

lemma params_iter_ok: "params_ok q \<Longrightarrow> params_iter q = Some (groups_of q)"
  using params_groups_from_cuts [of q 0 0] by (simp add: params_iter_def groups_of_def)

end
