(* ===== verification/Vt_Spec.thy ===== *)
theory Vt_Spec
  imports Vt_Cuts
begin

text \<open>
  The abstract decoder that the parser of \<^verbatim>\<open>vt_parser.rs\<close> implements: one constructor per
  syntactic situation, carrying lists instead of arrays, fill levels and flags, and only the data
  that later bytes can observe.  \<open>abs_vt\<close> reads the abstract state off a parser, \<open>vt_ok\<close> is the
  invariant of the arrays, and the simulation lemmas show that every byte is processed without a
  panic and as the abstract decoder does.
\<close>

section \<open>The abstract decoder\<close>

record vhdr =
  h_groups :: "u16 list list"
  h_open :: "u16 list"
  h_number :: u16
  h_inter :: bytes
  h_ignored :: bool

datatype phase = PStart | PNumbers | PCollect

text \<open>
  An operating system command is its closed arguments and the open one, or \<^term>\<open>None\<close> for an
  OSC 22 request that overflowed and will be rejected as a whole.
\<close>

type_synonym vosc = "(bytes list \<times> bytes) option"

datatype vt =
    VText bytes
  | VEscape bool bytes bool
  | VHeader bool phase vhdr
  | VCsiDiscard
  | VDcsDiscard
  | VDcsData
  | VOsc vosc
  | VOscEscape vosc
  | VStringDiscard

definition h_used :: "vhdr \<Rightarrow> nat" where
  "h_used h = length (concat (h_groups h)) + length (h_open h)"

definition hdr_empty :: vhdr where
  "hdr_empty = \<lparr>h_groups = [], h_open = [], h_number = 0, h_inter = [], h_ignored = False\<rparr>"

definition vcollect :: "u8 \<Rightarrow> bytes \<times> bool \<Rightarrow> bytes \<times> bool" where
  "vcollect b s = (case s of (xs, ig) \<Rightarrow> if length xs < 2 then (xs @ [b], ig) else (xs, True))"

definition hcollect :: "u8 \<Rightarrow> vhdr \<Rightarrow> vhdr" where
  "hcollect b h =
     (let (xs, ig) = vcollect b (h_inter h, h_ignored h) in h\<lparr>h_inter := xs, h_ignored := ig\<rparr>)"

definition hnumber :: "u16 \<Rightarrow> u8 \<Rightarrow> u16" where
  "hnumber n b = saturating_add (saturating_mul n 10) (ucast (b - 0x30))"

text \<open>A full header has lost a value, or will lose one on its final byte: it counts as ignored.\<close>

definition hparam :: "u8 \<Rightarrow> vhdr \<Rightarrow> vhdr" where
  "hparam b h =
     (if h_used h = 32 then h
      else if b \<le> 0x39 then h\<lparr>h_number := hnumber (h_number h) b\<rparr>
      else let h' = h\<lparr>h_number := 0, h_ignored := (h_ignored h \<or> h_used h = 31)\<rparr> in
        if b = 0x3B then h'\<lparr>h_groups := h_groups h @ [h_open h @ [h_number h]], h_open := []\<rparr>
        else h'\<lparr>h_open := h_open h @ [h_number h]\<rparr>)"

definition hfinal :: "vhdr \<Rightarrow> u16 list list" where
  "hfinal h =
     (if h_used h < 32 then h_groups h @ [h_open h @ [h_number h]]
      else h_groups h @ (if h_open h = [] then [] else [h_open h]))"

definition vheader :: "u8 \<Rightarrow> bool \<Rightarrow> phase \<Rightarrow> vhdr \<Rightarrow> vt \<times> vt_event list" where
  "vheader b dcs ph h =
     (if b \<le> 0x1F then (VHeader dcs ph h, if dcs then [] else [Execute b])
      else if b \<le> 0x2F then (VHeader dcs PCollect (hcollect b h), [])
      else if b \<le> 0x3F then
        if ph = PCollect \<or> (0x3C \<le> b \<and> ph \<noteq> PStart) then
          (if dcs then VDcsDiscard else VCsiDiscard, [])
        else if 0x3C \<le> b then (VHeader dcs PNumbers (hcollect b h), [])
        else (VHeader dcs PNumbers (hparam b h), [])
      else if b \<le> 0x7E then
        if dcs then (VDcsData, [Hook (hfinal h) (h_inter h) (h_ignored h) b])
        else (VText [], [CsiDispatch (hfinal h) (h_inter h) (h_ignored h) b])
      else (VHeader dcs ph h, []))"

definition vescape :: "u8 \<Rightarrow> bool \<Rightarrow> bytes \<Rightarrow> bool \<Rightarrow> vt \<times> vt_event list" where
  "vescape b collecting xs ig =
     (if b \<le> 0x1F then (VEscape collecting xs ig, [Execute b])
      else if b \<le> 0x2F then (case vcollect b (xs, ig) of (xs, ig) \<Rightarrow> VEscape True xs ig, [])
      else if b = 0x5B \<and> \<not> collecting then (VHeader False PStart hdr_empty, [])
      else if b = 0x50 \<and> \<not> collecting then (VHeader True PStart hdr_empty, [])
      else if b = 0x5D \<and> \<not> collecting then (VOsc (Some ([], [])), [])
      else if b \<in> {0x58, 0x5E, 0x5F} \<and> \<not> collecting then (VStringDiscard, [])
      else if b \<le> 0x7E then (VText [], [EscDispatch xs ig b])
      else (VEscape collecting xs ig, []))"

definition vpointer :: "bytes list \<Rightarrow> bool" where
  "vpointer args \<longleftrightarrow> args \<noteq> [] \<and> hd args = [0x32, 0x32]"

definition osc_args :: "bytes list \<times> bytes \<Rightarrow> bytes list" where
  "osc_args s = (case s of (args, c) \<Rightarrow> if length args < 16 then args @ [c] else args)"

definition osc_dispatch :: "bool \<Rightarrow> vosc \<Rightarrow> vt_event list" where
  "osc_dispatch bell s = (case s of None \<Rightarrow> [] | Some s \<Rightarrow> [OscDispatch (osc_args s) bell])"

definition osc_reject :: "bytes list \<times> bytes \<Rightarrow> vosc" where
  "osc_reject s = (if vpointer (fst s) then None else Some s)"

definition vosc_push :: "nat \<Rightarrow> u8 \<Rightarrow> vosc \<Rightarrow> vosc" where
  "vosc_push N b s =
     (case s of
        None \<Rightarrow> None
      | Some (args, c) \<Rightarrow>
          if b \<le> 0x1F then osc_reject (args, c)
          else if b = 0x3B then
            if length args < 16 then Some (args @ [c], []) else osc_reject (args, c)
          else if length (concat args) + length c < N \<and> length args < 16 then Some (args, c @ [b])
          else osc_reject (args, c))"

text \<open>The events of leaving a string state.\<close>

definition vexit :: "vt \<Rightarrow> vt_event list" where
  "vexit v = (case v of VDcsData \<Rightarrow> [Unhook] | VOsc s \<Rightarrow> osc_dispatch False s
     | VOscEscape s \<Rightarrow> osc_dispatch False s | _ \<Rightarrow> [])"

definition vtext :: "u8 \<Rightarrow> vt \<times> vt_event list" where
  "vtext b =
     (if b \<le> 0x1F \<or> between 0x80 0x9F b then (VText [], [Execute b])
      else if b \<le> 0x7F then (VText [], [Print (unat b)])
      else if between 0xC2 0xF4 b then (VText [b], [])
      else (VText [], [Print 0xFFFD]))"

definition vdispatch :: "nat \<Rightarrow> u8 \<Rightarrow> vt \<Rightarrow> vt \<times> vt_event list" where
  "vdispatch N b v =
     (if b = 0x18 \<or> b = 0x1A then (VText [], vexit v @ [Execute b])
      else if b = 0x1B then (VEscape False [] False, vexit v)
      else (case v of
          VText _ \<Rightarrow> vtext b
        | VEscape c xs ig \<Rightarrow> vescape b c xs ig
        | VHeader dcs ph h \<Rightarrow> vheader b dcs ph h
        | VCsiDiscard \<Rightarrow>
            if b \<le> 0x1F then (v, [Execute b])
            else if between 0x40 0x7E b then (VText [], []) else (v, [])
        | VDcsDiscard \<Rightarrow> if b = 0x9C then (VText [], []) else (v, [])
        | VDcsData \<Rightarrow>
            if b = 0x9C then (VText [], [Unhook]) else if b \<le> 0x7E then (v, [Put b]) else (v, [])
        | VOsc s \<Rightarrow>
            if b = 0x07 then (VText [], osc_dispatch True s) else (VOsc (vosc_push N b s), [])
        | VOscEscape s \<Rightarrow> (v, [])
        | VStringDiscard \<Rightarrow> (v, [])))"

definition char_event :: "bytes \<Rightarrow> vt_event list" where
  "char_event t =
     (case first_char t of
        None \<Rightarrow> []
      | Some c \<Rightarrow> if between 0x80 0x9F c then [Execute (word_of_nat c)] else [Print c])"

definition vconsume :: "nat \<Rightarrow> u8 \<Rightarrow> vt \<Rightarrow> vt \<times> vt_event list" where
  "vconsume N b v =
     (case v of
        VText s \<Rightarrow>
          if s = [] then vdispatch N b v
          else if cont b \<and> (length s = 1 \<longrightarrow> second_ok (hd s) b) then
            if length s + 1 = utf8_width (hd s) then (VText [], char_event (s @ [b]))
            else (VText (s @ [b]), [])
          else (case vdispatch N b (VText []) of (v', ev) \<Rightarrow> (v', Print 0xFFFD # ev))
      | VOscEscape s \<Rightarrow>
          if b = 0x5C then (VText [], osc_dispatch False s)
          else vdispatch N b (VEscape False [] False)
      | VOsc s \<Rightarrow>
          if s = None \<or> vpointer (fst (the s)) then
            if b = 0x1B then (VOscEscape s, [])
            else if b = 0x18 \<or> b = 0x1A then (VText [], [])
            else vdispatch N b v
          else vdispatch N b v
      | _ \<Rightarrow> vdispatch N b v)"

fun vconsume_all :: "nat \<Rightarrow> bytes \<Rightarrow> vt \<Rightarrow> vt \<times> vt_event list" where
  "vconsume_all N [] v = (v, [])"
| "vconsume_all N (b # bs) v =
     (case vconsume N b v of (v, ev) \<Rightarrow>
      case vconsume_all N bs v of (v, ev') \<Rightarrow> (v, ev @ ev'))"

text \<open>
  Saved text is completed with a bounded lookahead: the saved bytes and up to three more are checked
  at once, and the rest of the input starts after the part that was used.
\<close>

definition vcomplete :: "bytes \<Rightarrow> bytes \<Rightarrow> vt \<times> vt_event list \<times> nat" where
  "vcomplete s bs =
     (let t = s @ take (4 - length s) bs in
      case from_utf8 t of
        Utf8Ok \<Rightarrow>
          (case first_char t of
             Some c \<Rightarrow> (VText [], [Print c], char_len_utf8 c - length s)
           | None \<Rightarrow> (VText [], [], 0))
      | Utf8Error e len \<Rightarrow>
          if e \<noteq> 0 then
            (VText [],
             (if from_utf8 (take e t) = Utf8Ok then
                (case first_char (take e t) of Some c \<Rightarrow> [Print c] | None \<Rightarrow> []) else []),
             e - length s)
          else (case len of
                  Some l \<Rightarrow> (VText [], [Print 0xFFFD], l - length s)
                | None \<Rightarrow> (VText t, [], length t - length s)))"

definition vadvance :: "nat \<Rightarrow> bytes \<Rightarrow> vt \<Rightarrow> vt \<times> vt_event list" where
  "vadvance N bs v =
     (case v of
        VText s \<Rightarrow>
          if s = [] then vconsume_all N bs v
          else (case vcomplete s bs of (v, ev, k) \<Rightarrow>
                case vconsume_all N (drop k bs) v of (v, ev') \<Rightarrow> (v, ev @ ev'))
      | _ \<Rightarrow> vconsume_all N bs v)"

section \<open>Abstraction and invariant\<close>

definition osc_closed :: "parser \<Rightarrow> nat list" where
  "osc_closed p = take (vp_osc_args p) (vp_osc_ends p)"

definition abs_osc :: "parser \<Rightarrow> bytes list \<times> bytes" where
  "abs_osc p =
     (cuts (vp_osc p) (osc_closed p) 0, cur (vp_osc p) (osc_closed p) (vp_osc_len p))"

definition abs_vosc :: "parser \<Rightarrow> vosc" where
  "abs_vosc p = (if vpointer (fst (abs_osc p)) \<and> vp_osc_overflow p then None else Some (abs_osc p))"

definition abs_inter :: "parser \<Rightarrow> bytes" where
  "abs_inter p = take (vp_intermediate_len p) (vp_intermediates p)"

definition abs_hdr :: "parser \<Rightarrow> vhdr" where
  "abs_hdr p =
     \<lparr>h_groups = groups_of (vp_params p), h_open = open_of (vp_params p), h_number = vp_number p,
      h_inter = abs_inter p, h_ignored = (vp_ignored p \<or> pr_used (vp_params p) = 32)\<rparr>"

definition abs_vt :: "parser \<Rightarrow> vt" where
  "abs_vt p =
     (case vp_state p of
        Text \<Rightarrow> VText (take (vp_utf8_len p) (vp_utf8 p))
      | Escape \<Rightarrow> VEscape False (abs_inter p) (vp_ignored p)
      | EscapeCollect \<Rightarrow> VEscape True (abs_inter p) (vp_ignored p)
      | CsiStart \<Rightarrow> VHeader False PStart (abs_hdr p)
      | CsiNumbers \<Rightarrow> VHeader False PNumbers (abs_hdr p)
      | CsiCollect \<Rightarrow> VHeader False PCollect (abs_hdr p)
      | CsiDiscard \<Rightarrow> VCsiDiscard
      | DcsStart \<Rightarrow> VHeader True PStart (abs_hdr p)
      | DcsNumbers \<Rightarrow> VHeader True PNumbers (abs_hdr p)
      | DcsCollect \<Rightarrow> VHeader True PCollect (abs_hdr p)
      | DcsDiscard \<Rightarrow> VDcsDiscard
      | DcsData \<Rightarrow> VDcsData
      | Osc \<Rightarrow> VOsc (abs_vosc p)
      | OscEscape \<Rightarrow> VOscEscape (abs_vosc p)
      | StringDiscard \<Rightarrow> VStringDiscard)"

definition osc_ok :: "nat \<Rightarrow> parser \<Rightarrow> bool" where
  "osc_ok N p \<longleftrightarrow> length (vp_osc p) = N \<and> 3 \<le> N \<and> length (vp_osc_ends p) = 16 \<and> vp_osc_args p \<le> 16 \<and>
     cut_ok (vp_osc p) (osc_closed p) (vp_osc_len p) \<and>
     (vp_state p \<in> {Osc, OscEscape} \<and> vp_osc_args p = 0 \<and> vp_osc_overflow p \<longrightarrow> vp_osc_len p = N) \<and>
     (vp_state p = OscEscape \<longrightarrow> vpointer (fst (abs_osc p)))"

definition utf8_ok :: "parser \<Rightarrow> bool" where
  "utf8_ok p \<longleftrightarrow> length (vp_utf8 p) = 4 \<and> vp_utf8_len p \<le> 3 \<and>
     (vp_utf8_len p \<noteq> 0 \<longrightarrow> vp_state p = Text \<and>
        utf8_head (take (vp_utf8_len p) (vp_utf8 p)) = Malformed None \<and>
        vp_utf8_expected p = utf8_width (vp_utf8 p ! 0))"

definition vt_ok :: "nat \<Rightarrow> parser \<Rightarrow> bool" where
  "vt_ok N p \<longleftrightarrow> params_ok (vp_params p) \<and> length (vp_intermediates p) = 2 \<and>
     vp_intermediate_len p \<le> 2 \<and> osc_ok N p \<and> utf8_ok p"

text \<open>A concrete step returns, keeps the invariant and matches the abstract step.\<close>

definition refines :: "nat \<Rightarrow> vt_step \<Rightarrow> vt \<times> vt_event list \<Rightarrow> bool" where
  "refines N st r \<longleftrightarrow> (\<exists>p' ev. st = Some (p', ev) \<and> vt_ok N p' \<and> r = (abs_vt p', ev))"

end
