(* ===== verification/Vt_Refine.thy ===== *)
theory Vt_Refine
  imports Vt_Spec
begin

text \<open>
  The parser refines the abstract decoder: one simulation lemma per routine of
  \<^verbatim>\<open>vt_parser.rs\<close>, composed along its call structure up to \<^verbatim>\<open>advance\<close>.
\<close>

section \<open>Frame lemmas\<close>

lemma refinesI: "st = Some (p', ev) \<Longrightarrow> vt_ok N p' \<Longrightarrow> r = (abs_vt p', ev) \<Longrightarrow> refines N st r"
  by (auto simp: refines_def)

text \<open>Refinement descends through a conditional whose guards agree.\<close>

lemma refines_if:
  "c = c' \<Longrightarrow> (c \<Longrightarrow> refines N a x) \<Longrightarrow> (\<not> c \<Longrightarrow> refines N b y) \<Longrightarrow>
   refines N (if c then a else b) (if c' then x else y)"
  by simp

lemma osc_closed_simps [simp]:
  "osc_closed (p\<lparr>vp_state := s\<rparr>) = osc_closed p"
  "osc_closed (p\<lparr>vp_params := q\<rparr>) = osc_closed p"
  "osc_closed (p\<lparr>vp_number := n\<rparr>) = osc_closed p"
  "osc_closed (p\<lparr>vp_intermediates := xs\<rparr>) = osc_closed p"
  "osc_closed (p\<lparr>vp_intermediate_len := k\<rparr>) = osc_closed p"
  "osc_closed (p\<lparr>vp_ignored := g\<rparr>) = osc_closed p"
  "osc_closed (p\<lparr>vp_osc_overflow := g\<rparr>) = osc_closed p"
  "osc_closed (p\<lparr>vp_osc := xs\<rparr>) = osc_closed p"
  "osc_closed (p\<lparr>vp_osc_len := k\<rparr>) = osc_closed p"
  "osc_closed (p\<lparr>vp_utf8 := xs\<rparr>) = osc_closed p"
  "osc_closed (p\<lparr>vp_utf8_len := k\<rparr>) = osc_closed p"
  "osc_closed (p\<lparr>vp_utf8_expected := k\<rparr>) = osc_closed p"
  by (simp_all add: osc_closed_def)

lemma abs_osc_simps [simp]:
  "abs_osc (p\<lparr>vp_state := s\<rparr>) = abs_osc p"
  "abs_osc (p\<lparr>vp_params := q\<rparr>) = abs_osc p"
  "abs_osc (p\<lparr>vp_number := n\<rparr>) = abs_osc p"
  "abs_osc (p\<lparr>vp_intermediates := xs\<rparr>) = abs_osc p"
  "abs_osc (p\<lparr>vp_intermediate_len := k\<rparr>) = abs_osc p"
  "abs_osc (p\<lparr>vp_ignored := g\<rparr>) = abs_osc p"
  "abs_osc (p\<lparr>vp_osc_overflow := g\<rparr>) = abs_osc p"
  "abs_osc (p\<lparr>vp_utf8 := xs\<rparr>) = abs_osc p"
  "abs_osc (p\<lparr>vp_utf8_len := k\<rparr>) = abs_osc p"
  "abs_osc (p\<lparr>vp_utf8_expected := k\<rparr>) = abs_osc p"
  by (simp_all add: abs_osc_def)

lemma abs_vosc_simps [simp]:
  "abs_vosc (p\<lparr>vp_state := s\<rparr>) = abs_vosc p"
  "abs_vosc (p\<lparr>vp_utf8_len := k\<rparr>) = abs_vosc p"
  by (simp_all add: abs_vosc_def)

lemma abs_inter_simps [simp]:
  "abs_inter (p\<lparr>vp_state := s\<rparr>) = abs_inter p"
  "abs_inter (p\<lparr>vp_params := q\<rparr>) = abs_inter p"
  "abs_inter (p\<lparr>vp_number := n\<rparr>) = abs_inter p"
  "abs_inter (p\<lparr>vp_ignored := g\<rparr>) = abs_inter p"
  "abs_inter (p\<lparr>vp_utf8_len := k\<rparr>) = abs_inter p"
  "abs_inter (clear_header p) = []"
  by (simp_all add: abs_inter_def clear_header_def)

lemma abs_hdr_state [simp]: "abs_hdr (p\<lparr>vp_state := s\<rparr>) = abs_hdr p"
  by (simp add: abs_hdr_def)

lemma vt_ok_state:
  "vt_ok N p \<Longrightarrow> vp_utf8_len p = 0 \<or> s = Text \<Longrightarrow> s \<noteq> Osc \<Longrightarrow> s \<noteq> OscEscape \<Longrightarrow>
   vt_ok N (p\<lparr>vp_state := s\<rparr>)"
  by (auto simp: vt_ok_def osc_ok_def utf8_ok_def)

lemma vt_ok_clear_header: "vt_ok N p \<Longrightarrow> vt_ok N (clear_header p)"
  by (simp add: vt_ok_def clear_header_def params_ok_clear osc_ok_def utf8_ok_def)

lemma clear_header_sel [simp]:
  "vp_state (clear_header p) = vp_state p" "vp_utf8_len (clear_header p) = vp_utf8_len p"
  "vp_utf8 (clear_header p) = vp_utf8 p" "vp_ignored (clear_header p) = False"
  "clear_header (p\<lparr>vp_state := s\<rparr>) = (clear_header p)\<lparr>vp_state := s\<rparr>"
  by (simp_all add: clear_header_def)

lemma abs_hdr_clear [simp]: "abs_hdr (clear_header p) = hdr_empty"
  by (simp add: abs_hdr_def hdr_empty_def) (simp add: clear_header_def)

lemma vt_ok_new: "3 \<le> N \<Longrightarrow> vt_ok N (new_with_size N)"
  by (simp add: vt_ok_def new_with_size_def osc_ok_def utf8_ok_def cut_ok_def osc_closed_def)

lemma abs_new_parser: "abs_vt (new_with_size N) = VText []"
  by (simp add: abs_vt_def new_with_size_def)

section \<open>Header storage\<close>

lemma collect_ok:
  assumes "vt_ok N p"
  shows "\<exists>p'. collect b p = Some p' \<and> vt_ok N p' \<and>
    (abs_inter p', vp_ignored p') = vcollect b (abs_inter p, vp_ignored p) \<and>
    vp_params p' = vp_params p \<and> vp_number p' = vp_number p \<and> vp_state p' = vp_state p \<and>
    vp_utf8_len p' = vp_utf8_len p"
proof (cases "vp_intermediate_len p < 2")
  case True
  let ?p' = "p\<lparr>vp_intermediates := (vp_intermediates p)[vp_intermediate_len p := b],
    vp_intermediate_len := vp_intermediate_len p + 1\<rparr>"
  have "collect b p = Some ?p'" "vt_ok N ?p'"
    using assms True by (simp_all add: collect_def vt_ok_def osc_ok_def utf8_ok_def)
  moreover have "abs_inter ?p' = abs_inter p @ [b]" "length (abs_inter p) = vp_intermediate_len p"
    using assms True by (simp_all add: abs_inter_def vt_ok_def take_Suc_conv_app_nth)
  ultimately show ?thesis
    using True by (simp add: vcollect_def)
next
  case False
  then show ?thesis
    using assms
    by (auto simp: collect_def vt_ok_def osc_ok_def utf8_ok_def vcollect_def abs_inter_def)
qed

lemma collect_hdr:
  assumes "vt_ok N p"
  shows "\<exists>p'. collect b p = Some p' \<and> vt_ok N p' \<and> abs_hdr p' = hcollect b (abs_hdr p) \<and>
    vp_state p' = vp_state p \<and> vp_utf8_len p' = vp_utf8_len p"
  using collect_ok [OF assms, of b]
  by (auto simp: abs_hdr_def hcollect_def vcollect_def split: if_splits)

lemma vt_ok_params: "vt_ok N p \<Longrightarrow> params_ok q \<Longrightarrow> vt_ok N (p\<lparr>vp_params := q, vp_number := n\<rparr>)"
  by (simp add: vt_ok_def osc_ok_def utf8_ok_def)

lemma vt_ok_flags:
  "vt_ok N p \<Longrightarrow> vt_ok N (p\<lparr>vp_ignored := g\<rparr>)"
  "vt_ok N p \<Longrightarrow> vt_ok N (p\<lparr>vp_number := n\<rparr>)"
  "vt_ok N p \<Longrightarrow> params_ok q \<Longrightarrow> vt_ok N (p\<lparr>vp_params := q\<rparr>)"
  by (simp_all add: vt_ok_def osc_ok_def utf8_ok_def)

lemma h_used_abs: "params_ok (vp_params p) \<Longrightarrow> h_used (abs_hdr p) = pr_used (vp_params p)"
  using used_abs by (simp add: h_used_def abs_hdr_def)

lemma parameter_ok:
  assumes ok: "vt_ok N p" and b: "between 0x30 0x3B b"
  shows "\<exists>p'. parameter b p = Some p' \<and> vt_ok N p' \<and> abs_hdr p' = hparam b (abs_hdr p) \<and>
    vp_state p' = vp_state p \<and> vp_utf8_len p' = vp_utf8_len p"
proof -
  have pok: "params_ok (vp_params p)" using ok by (simp add: vt_ok_def)
  note used = h_used_abs [OF pok] groups_le_used(2) [OF pok]
  consider (full) "pr_used (vp_params p) = 32"
    | (digit) "pr_used (vp_params p) < 32" "b \<le> 0x39"
    | (sep) "pr_used (vp_params p) < 32" "\<not> b \<le> 0x39" "b = 0x3A \<or> b = 0x3B"
  proof -
    have "b = 0x3A \<or> b = 0x3B" if "\<not> b \<le> 0x39"
      using that b by (auto simp: word_le_nat_alt word_eq_iff_unsigned [where 'a = nat])
    then show ?thesis using that used(2) by fastforce
  qed
  then show ?thesis
  proof cases
    case full
    then show ?thesis
      using ok used by (auto simp: parameter_def hparam_def vt_ok_flags) (simp add: abs_hdr_def)
  next
    case digit
    then show ?thesis
      using ok used b
      by (auto simp: parameter_def hparam_def vt_ok_flags hnumber_def) (auto simp: abs_hdr_def)
  next
    case sep
    obtain q where q: "params_append (vp_number p) (b = 0x3B) (vp_params p) = Some (q, True)"
        "params_ok q" "pr_used q = Suc (pr_used (vp_params p))"
        "(groups_of q, open_of q) = (if b = 0x3B
          then (groups_of (vp_params p) @ [open_of (vp_params p) @ [vp_number p]], [])
          else (groups_of (vp_params p), open_of (vp_params p) @ [vp_number p]))"
      using params_append_ok [OF pok sep(1)] by blast
    have "parameter b p = Some (p\<lparr>vp_params := q, vp_number := 0\<rparr>)"
      using sep q(1) by (auto simp: parameter_def)
    moreover have "abs_hdr (p\<lparr>vp_params := q, vp_number := 0\<rparr>) = hparam b (abs_hdr p)"
      using sep q(3,4) used
      by (auto simp: hparam_def Let_def split: if_splits) (auto simp: abs_hdr_def)
    ultimately show ?thesis
      using vt_ok_params [OF ok q(2)] by simp
  qed
qed

lemma finish_header_ok:
  assumes ok: "vt_ok N p"
  shows "\<exists>p'. finish_header p = Some p' \<and> vt_ok N p' \<and>
    params_iter (vp_params p') = Some (hfinal (abs_hdr p)) \<and> abs_inter p' = abs_inter p \<and>
    vp_ignored p' = h_ignored (abs_hdr p) \<and> vp_utf8_len p' = vp_utf8_len p \<and>
    arr_slice (vp_intermediates p') 0 (vp_intermediate_len p') = Some (abs_inter p)"
proof -
  have pok: "params_ok (vp_params p)" using ok by (simp add: vt_ok_def)
  note used = h_used_abs [OF pok] groups_le_used(2) [OF pok]
  have sl: "arr_slice (vp_intermediates p) 0 (vp_intermediate_len p) = Some (abs_inter p)"
    using ok by (simp add: vt_ok_def abs_inter_def)
  show ?thesis
  proof (cases "pr_used (vp_params p) = 32")
    case True
    from params_finish_full [OF pok True, of "vp_number p"] obtain q where
      q: "params_finish (vp_number p) (vp_params p) = Some (q, False)" "params_ok q"
        "groups_of q = hfinal (abs_hdr p)"
      using used True by (auto simp: hfinal_def) (simp_all add: abs_hdr_def)
    then show ?thesis
      using ok sl True
      by (auto simp: finish_header_def vt_ok_flags params_iter_ok) (simp add: abs_hdr_def)
  next
    case False
    then have lt: "pr_used (vp_params p) < 32" using used by simp
    from params_finish_ok [OF pok lt, of "vp_number p"] obtain q where
      q: "params_finish (vp_number p) (vp_params p) = Some (q, True)" "params_ok q"
        "groups_of q = hfinal (abs_hdr p)"
      using used lt by (auto simp: hfinal_def) (simp_all add: abs_hdr_def)
    then show ?thesis
      using ok sl False
      by (auto simp: finish_header_def vt_ok_flags params_iter_ok) (simp_all add: abs_hdr_def)
  qed
qed

section \<open>Headers and escapes\<close>

text \<open>The state that a header is in, as a pair of the DCS flag and the phase.\<close>

fun header_state :: "bool \<Rightarrow> phase \<Rightarrow> vt_state" where
  "header_state False PStart = CsiStart"
| "header_state False PNumbers = CsiNumbers"
| "header_state False PCollect = CsiCollect"
| "header_state True PStart = DcsStart"
| "header_state True PNumbers = DcsNumbers"
| "header_state True PCollect = DcsCollect"

lemma header_state_facts:
  "header_state dcs ph \<in> {DcsStart, DcsNumbers, DcsCollect} \<longleftrightarrow> dcs"
  "header_state dcs ph \<in> {CsiCollect, DcsCollect} \<longleftrightarrow> ph = PCollect"
  "header_state dcs ph \<in> {CsiStart, DcsStart} \<longleftrightarrow> ph = PStart"
  "header_state dcs ph \<noteq> Osc" "header_state dcs ph \<noteq> OscEscape" "header_state dcs ph \<noteq> Text"
  "header_state dcs ph \<noteq> DcsData"
  "(if dcs then DcsCollect else CsiCollect) = header_state dcs PCollect"
  "(if dcs then DcsNumbers else CsiNumbers) = header_state dcs PNumbers"
  by (cases dcs; cases ph; simp)+

lemma abs_header: "vp_state p = header_state dcs ph \<Longrightarrow> abs_vt p = VHeader dcs ph (abs_hdr p)"
  by (cases dcs; cases ph) (simp_all add: abs_vt_def)

lemma word_gap: "\<not> b \<le> lo \<Longrightarrow> hi = lo + 1 \<Longrightarrow> lo \<noteq> - 1 \<Longrightarrow> hi \<le> b" for b lo hi :: "'a::len word"
  by (metis inc_le linorder_not_le)

lemma byte_gaps:
  fixes b :: u8
  shows "\<not> b \<le> 0x1F \<Longrightarrow> 0x20 \<le> b" "\<not> b \<le> 0x2F \<Longrightarrow> 0x30 \<le> b" "\<not> b \<le> 0x3F \<Longrightarrow> 0x40 \<le> b"
    "\<not> 0x3C \<le> b \<Longrightarrow> b \<le> 0x3B"
  using word_gap [of b "0x3B" "0x3C"] by (auto intro: word_gap)

lemma header_move:
  assumes "\<exists>p'. st = Some p' \<and> vt_ok N p' \<and> abs_hdr p' = h \<and> vp_state p' = s \<and> vp_utf8_len p' = 0"
  shows "refines N (do { p \<leftarrow> st; Some (p\<lparr>vp_state := header_state dcs ph\<rparr>, []) }) (VHeader dcs ph h, [])"
proof -
  obtain p' where p': "st = Some p'" "vt_ok N p'" "abs_hdr p' = h" "vp_utf8_len p' = 0"
    using assms by blast
  let ?p = "p'\<lparr>vp_state := header_state dcs ph\<rparr>"
  have "vt_ok N ?p" using p' header_state_facts by (intro vt_ok_state) simp_all
  moreover have "abs_vt ?p = VHeader dcs ph h" using p'(3) abs_header [of ?p dcs ph] by simp
  ultimately show ?thesis using p'(1) by (intro refinesI [of _ ?p]) simp_all
qed

lemma header_final:
  assumes ok: "vt_ok N p" and u: "vp_utf8_len p = 0"
  shows "refines N
    (do { p \<leftarrow> finish_header p;
          xs \<leftarrow> arr_slice (vp_intermediates p) 0 (vp_intermediate_len p);
          gs \<leftarrow> params_iter (vp_params p);
          Some (if dcs then (p\<lparr>vp_state := DcsData\<rparr>, [Hook gs xs (vp_ignored p) b])
                else (p\<lparr>vp_state := Text\<rparr>, [CsiDispatch gs xs (vp_ignored p) b])) })
    (if dcs then (VDcsData, [Hook (hfinal (abs_hdr p)) (abs_inter p) (h_ignored (abs_hdr p)) b])
     else (VText [], [CsiDispatch (hfinal (abs_hdr p)) (abs_inter p) (h_ignored (abs_hdr p)) b]))"
proof -
  obtain p' where p': "finish_header p = Some p'" "vt_ok N p'"
    "params_iter (vp_params p') = Some (hfinal (abs_hdr p))"
    "vp_ignored p' = h_ignored (abs_hdr p)" "vp_utf8_len p' = 0"
    "arr_slice (vp_intermediates p') 0 (vp_intermediate_len p') = Some (abs_inter p)"
    using finish_header_ok [OF ok] u by auto
  have "vt_ok N (p'\<lparr>vp_state := s\<rparr>)" if "s \<noteq> Osc" "s \<noteq> OscEscape" for s
    using p' that by (intro vt_ok_state) simp_all
  with p' show ?thesis
    by (cases dcs) (auto intro!: refinesI simp: abs_vt_def)
qed

lemma header_ok:
  assumes ok: "vt_ok N p" and u: "vp_utf8_len p = 0" and st: "vp_state p = header_state dcs ph"
  shows "refines N (header b p) (vheader b dcs ph (abs_hdr p))"
proof -
  note hs = header_state_facts
  have i: "h_inter (abs_hdr p) = abs_inter p" by (simp add: abs_hdr_def)
  have v: "refines N (Some (p, ev)) (VHeader dcs ph (abs_hdr p), ev)" for ev
    using ok abs_header [OF st] by (simp add: refines_def)
  have dcs: "(vp_state p \<in> {DcsStart, DcsNumbers, DcsCollect}) = dcs"
    "(vp_state p \<in> {CsiCollect, DcsCollect}) = (ph = PCollect)"
    "(vp_state p \<in> {CsiStart, DcsStart}) = (ph = PStart)"
    unfolding st by (rule hs)+
  have col: "refines N (do { p \<leftarrow> collect b p; Some (p\<lparr>vp_state := header_state dcs ph'\<rparr>, []) })
      (VHeader dcs ph' (hcollect b (abs_hdr p)), [])" for ph'
    using collect_hdr [OF ok, of b] u by (intro header_move) auto
  have par: "refines N (do { p \<leftarrow> parameter b p; Some (p\<lparr>vp_state := header_state dcs PNumbers\<rparr>, []) })
      (VHeader dcs PNumbers (hparam b (abs_hdr p)), [])" if "0x30 \<le> b" "\<not> 0x3C \<le> b"
    using parameter_ok [OF ok, of b] u that byte_gaps by (intro header_move) auto
  have disc: "refines N (Some (p\<lparr>vp_state := (if dcs then DcsDiscard else CsiDiscard)\<rparr>, []))
      (if dcs then VDcsDiscard else VCsiDiscard, [])"
    using ok u by (cases dcs) (auto intro!: refinesI vt_ok_state simp: abs_vt_def)
  show ?thesis
    unfolding header_def vheader_def Let_def dcs hs(8,9) i
  proof (intro refines_if)
    show "refines N (Some (p, if dcs then [] else [Execute b]))
        (VHeader dcs ph (abs_hdr p), if dcs then [] else [Execute b])"
      by (rule v)
  qed (use byte_gaps [of b] col par disc v header_final [OF ok u, of dcs b] in auto)
qed

lemma escape_ok:
  assumes ok: "vt_ok N p" and u: "vp_utf8_len p = 0"
    and st: "vp_state p = (if collecting then EscapeCollect else Escape)"
  shows "refines N (escape b p) (vescape b collecting (abs_inter p) (vp_ignored p))"
proof -
  have v: "refines N (Some (p, ev)) (VEscape collecting (abs_inter p) (vp_ignored p), ev)" for ev
    using ok st by (auto simp: refines_def abs_vt_def)
  have e: "(vp_state p = Escape) = (\<not> collecting)" using st by simp
  have col: "refines N (do { p \<leftarrow> collect b p; Some (p\<lparr>vp_state := EscapeCollect\<rparr>, []) })
      (case vcollect b (abs_inter p, vp_ignored p) of (xs, ig) \<Rightarrow> VEscape True xs ig, [])"
    using collect_ok [OF ok, of b] u
    by (auto intro!: refinesI vt_ok_state simp: abs_vt_def split: prod.splits)
  have hdr: "refines N (Some ((clear_header p)\<lparr>vp_state := header_state d PStart\<rparr>, []))
      (VHeader d PStart hdr_empty, [])" for d
    using vt_ok_state [OF vt_ok_clear_header [OF ok], of "header_state d PStart"] u
      header_state_facts(4,5) [of d PStart]
      abs_header [of "(clear_header p)\<lparr>vp_state := header_state d PStart\<rparr>" d PStart]
    by (intro refinesI [OF refl]) simp_all
  have osc: "refines N (Some (p\<lparr>vp_osc_len := 0, vp_osc_args := 0, vp_osc_overflow := False,
      vp_state := Osc\<rparr>, [])) (VOsc (Some ([], [])), [])"
    using ok u by (intro refinesI)
      (auto simp: vt_ok_def osc_ok_def utf8_ok_def abs_vt_def abs_vosc_def abs_osc_def osc_closed_def
        cut_ok_def vpointer_def)
  have str: "refines N (Some (p\<lparr>vp_state := StringDiscard\<rparr>, [])) (VStringDiscard, [])"
    using ok u by (auto intro!: refinesI vt_ok_state simp: abs_vt_def)
  have esc: "refines N (do { xs \<leftarrow> arr_slice (vp_intermediates p) 0 (vp_intermediate_len p);
        Some (p\<lparr>vp_state := Text\<rparr>, [EscDispatch xs (vp_ignored p) b]) })
      (VText [], [EscDispatch (abs_inter p) (vp_ignored p) b])"
  proof (rule refinesI)
    show "do { xs \<leftarrow> arr_slice (vp_intermediates p) 0 (vp_intermediate_len p);
        Some (p\<lparr>vp_state := Text\<rparr>, [EscDispatch xs (vp_ignored p) b]) } =
        Some (p\<lparr>vp_state := Text\<rparr>, [EscDispatch (abs_inter p) (vp_ignored p) b])"
      using ok by (simp add: vt_ok_def abs_inter_def)
  qed (use u ok in \<open>auto intro: vt_ok_state simp: abs_vt_def\<close>)
  have s: "b \<in> {0x58, 0x5E, 0x5F} \<longleftrightarrow> b = 0x58 \<or> b = 0x5E \<or> b = 0x5F" by blast
  show ?thesis
    unfolding escape_def vescape_def e s
    by (intro refines_if col v osc str esc hdr [of True, simplified] hdr [of False, simplified])
      (use byte_gaps [of b] in auto)
qed

section \<open>Operating system commands\<close>

lemma is_pointer_osc_ok:
  assumes "osc_ok N p"
  shows "is_pointer_osc p = Some (vpointer (fst (abs_osc p)))"
proof (cases "vp_osc_args p")
  case 0
  then show ?thesis by (simp add: is_pointer_osc_def abs_osc_def osc_closed_def vpointer_def)
next
  case (Suc k)
  obtain e es where es: "vp_osc_ends p = e # es"
    using assms by (cases "vp_osc_ends p") (auto simp: osc_ok_def)
  then have cl: "osc_closed p = e # take k es" using Suc by (simp add: osc_closed_def)
  have e: "e \<le> length (vp_osc p)" "3 \<le> length (vp_osc p)"
    using assms cut_ok_le [of "vp_osc p" "osc_closed p" "vp_osc_len p" e]
    by (auto simp: osc_ok_def cl cut_ok_def)
  have hd: "vpointer (fst (abs_osc p)) \<longleftrightarrow> take e (vp_osc p) = [0x32, 0x32]"
    by (simp add: vpointer_def abs_osc_def cl)
  show ?thesis
  proof (cases "e = 2")
    case True
    then show ?thesis using Suc e by (simp add: is_pointer_osc_def es hd)
  next
    case False
    then have "length (take e (vp_osc p)) \<noteq> 2" using e by simp
    then have "take e (vp_osc p) \<noteq> [0x32, 0x32]" by force
    then show ?thesis using Suc False by (simp add: is_pointer_osc_def es hd)
  qed
qed

text \<open>Closing an argument and storing a byte, on the abstract side.\<close>

definition close_arg :: "parser \<Rightarrow> parser" where
  "close_arg p = p\<lparr>vp_osc_ends := (vp_osc_ends p)[vp_osc_args p := vp_osc_len p],
     vp_osc_args := vp_osc_args p + 1\<rparr>"

lemma osc_closed_close:
  "length (vp_osc_ends p) = 16 \<Longrightarrow> vp_osc_args p < 16 \<Longrightarrow>
   osc_closed (close_arg p) = osc_closed p @ [vp_osc_len p]"
  by (simp add: osc_closed_def close_arg_def take_Suc_conv_app_nth)

lemma close_arg_sel [simp]:
  "vp_osc (close_arg p) = vp_osc p" "vp_osc_len (close_arg p) = vp_osc_len p"
  "vp_state (close_arg p) = vp_state p" "vp_osc_overflow (close_arg p) = vp_osc_overflow p"
  "vp_osc_args (close_arg p) = vp_osc_args p + 1" "vp_utf8_len (close_arg p) = vp_utf8_len p"
  "length (vp_osc_ends (close_arg p)) = length (vp_osc_ends p)"
  by (simp_all add: close_arg_def)

lemma close_arg_ok:
  assumes "vt_ok N p" "vp_osc_args p < 16"
  shows "vt_ok N (close_arg p)" "abs_osc (close_arg p) = (fst (abs_osc p) @ [snd (abs_osc p)], [])"
proof -
  have o: "osc_ok N p" using assms by (simp add: vt_ok_def)
  then have cl: "osc_closed (close_arg p) = osc_closed p @ [vp_osc_len p]"
    using assms(2) by (simp add: osc_closed_close osc_ok_def)
  show abs: "abs_osc (close_arg p) = (fst (abs_osc p) @ [snd (abs_osc p)], [])"
    by (simp add: abs_osc_def cl cuts_close)
  have "osc_ok N (close_arg p)"
    using o assms(2) cut_ok_close [of "vp_osc p" "osc_closed p" "vp_osc_len p"]
    by (auto simp: osc_ok_def abs cl vpointer_def)
  then show "vt_ok N (close_arg p)"
    using assms(1) by (auto simp: vt_ok_def) (auto simp: close_arg_def utf8_ok_def)
qed

lemma length_abs_args: "osc_ok N p \<Longrightarrow> length (fst (abs_osc p)) = vp_osc_args p"
  by (simp add: abs_osc_def osc_closed_def osc_ok_def)

lemma length_abs_osc:
  "osc_ok N p \<Longrightarrow> length (concat (fst (abs_osc p))) + length (snd (abs_osc p)) = vp_osc_len p"
  using sum_cuts [of "vp_osc p" "osc_closed p" "vp_osc_len p"] by (simp add: osc_ok_def abs_osc_def)

definition exit_events :: "bool \<Rightarrow> parser \<Rightarrow> vt_event list" where
  "exit_events bell p =
     (if vp_state p = DcsData then [Unhook]
      else if vp_state p \<in> {Osc, OscEscape} then osc_dispatch bell (abs_vosc p) else [])"

lemma vexit_abs: "vexit (abs_vt p) = exit_events False p"
  by (cases "vp_state p") (simp_all add: vexit_def abs_vt_def exit_events_def)

lemma end_string_osc:
  assumes ok: "vt_ok N p" and st: "vp_state p \<in> {Osc, OscEscape}"
  shows "\<exists>p'. end_string bell p = Some (p', osc_dispatch bell (abs_vosc p)) \<and> vt_ok N p' \<and>
    vp_utf8_len p' = vp_utf8_len p"
proof -
  have o: "osc_ok N p" using ok by (simp add: vt_ok_def)
  let ?p = "if vp_osc_args p < 16 then close_arg p else p"
  have okp: "vt_ok N ?p" "fst (abs_osc ?p) = osc_args (abs_osc p)"
    using ok close_arg_ok [OF ok] length_abs_args [OF o]
    by (auto simp: osc_args_def split: prod.split)
  then have o': "osc_ok N ?p" by (simp add: vt_ok_def)
  then have sl: "arr_slice (vp_osc_ends ?p) 0 (vp_osc_args ?p) = Some (osc_closed ?p)"
    by (simp add: osc_closed_def osc_ok_def)
  have sl2: "osc_slices (vp_osc ?p) (osc_closed ?p) 0 = Some (osc_args (abs_osc p))"
    using okp(2) osc_slices_ok [of "vp_osc ?p" "osc_closed ?p" "vp_osc_len ?p"] o'
    by (simp add: osc_ok_def abs_osc_def)
  have step: "(if vp_osc_args p < 16 then do {
        es \<leftarrow> arr_set (vp_osc_ends p) (vp_osc_args p) (vp_osc_len p);
        Some (p\<lparr>vp_osc_ends := es, vp_osc_args := vp_osc_args p + 1\<rparr>)
      } else Some p) = Some ?p"
    using o by (simp add: osc_ok_def close_arg_def)
  have "end_string bell p =
      (if vpointer (fst (abs_osc p)) \<and> vp_osc_overflow p then Some (p, [])
       else Some (?p, [OscDispatch (osc_args (abs_osc p)) bell]))"
    unfolding end_string_def is_pointer_osc_ok [OF o] step bind.bind_lunit sl sl2 using st by auto
  then show ?thesis
    using ok okp(1) by (auto simp: osc_dispatch_def abs_vosc_def)
qed

lemma end_string_ok:
  assumes ok: "vt_ok N p"
  shows "\<exists>p'. end_string bell p = Some (p', exit_events bell p) \<and> vt_ok N p' \<and>
    vp_utf8_len p' = vp_utf8_len p"
proof (cases "vp_state p \<in> {Osc, OscEscape}")
  case True
  then show ?thesis
    using end_string_osc [OF ok True, of bell] by (auto simp: exit_events_def)
next
  case False
  then show ?thesis
    using ok by (cases "vp_state p") (auto simp: end_string_def exit_events_def)
qed

lemma exit_to:
  assumes ok: "vt_ok N p" and "\<And>p'. vt_ok N p' \<Longrightarrow> vp_utf8_len p' = vp_utf8_len p \<Longrightarrow>
      vt_ok N (f p') \<and> abs_vt (f p') = v"
  shows "refines N (do { (p, ev) \<leftarrow> end_string bell p; Some (f p, ev @ ev') }) (v, exit_events bell p @ ev')"
  using end_string_ok [OF ok, of bell] assms(2) by (auto simp: refines_def)

lemma osc_overflow_step:
  assumes ok: "vt_ok N p" and st: "vp_state p = Osc"
    and full: "vp_osc_args p = 0 \<Longrightarrow> vp_osc_len p = N"
  shows "refines N (Some (p\<lparr>vp_osc_overflow := True\<rparr>, [])) (VOsc (osc_reject (abs_osc p)), [])"
  using assms
  by (intro refinesI [OF refl])
    (auto simp: vt_ok_def osc_ok_def utf8_ok_def abs_vt_def abs_vosc_def osc_reject_def)

lemma osc_close_step:
  assumes ok: "vt_ok N p" and st: "vp_state p = Osc" and lt: "vp_osc_args p < 16"
  shows "refines N (Some (close_arg p, []))
    (VOsc (case abs_vosc p of None \<Rightarrow> None | Some (args, c) \<Rightarrow> Some (args @ [c], [])), [])"
proof -
  have o: "osc_ok N p" using ok by (simp add: vt_ok_def)
  obtain args c where ac: "abs_osc p = (args, c)" by fastforce
  have "vpointer (args @ [c]) \<and> vp_osc_overflow p \<longleftrightarrow> vpointer args \<and> vp_osc_overflow p"
  proof (cases "args = []")
    case True
    then have "vp_osc_args p = 0" "length c = vp_osc_len p"
      using length_abs_args [OF o] length_abs_osc [OF o] ac by simp_all
    then have "length c = N" "3 \<le> N" if "vp_osc_overflow p"
      using that o st by (simp_all add: osc_ok_def)
    then show ?thesis using True by (auto simp: vpointer_def)
  qed (simp add: vpointer_def)
  then have "abs_vosc (close_arg p) = (case abs_vosc p of None \<Rightarrow> None | Some (args, c) \<Rightarrow> Some (args @ [c], []))"
    using close_arg_ok(2) [OF ok lt] ac by (simp add: abs_vosc_def)
  then show ?thesis
    using close_arg_ok(1) [OF ok lt] st by (intro refinesI [OF refl]) (simp_all add: abs_vt_def)
qed

lemma osc_store_step:
  assumes ok: "vt_ok N p" and st: "vp_state p = Osc" and lt: "vp_osc_len p < N"
  shows "refines N (Some (p\<lparr>vp_osc := (vp_osc p)[vp_osc_len p := b], vp_osc_len := vp_osc_len p + 1\<rparr>, []))
    (VOsc (case abs_vosc p of None \<Rightarrow> None | Some (args, c) \<Rightarrow> Some (args, c @ [b])), [])"
proof -
  have o: "osc_ok N p" using ok by (simp add: vt_ok_def)
  let ?p = "p\<lparr>vp_osc := (vp_osc p)[vp_osc_len p := b], vp_osc_len := vp_osc_len p + 1\<rparr>"
  have cl: "osc_closed ?p = osc_closed p" by (simp add: osc_closed_def)
  have cut: "cut_ok (vp_osc p) (osc_closed p) (vp_osc_len p)" "vp_osc_len p < length (vp_osc p)"
    using o lt by (simp_all add: osc_ok_def)
  have ao: "abs_osc ?p = (fst (abs_osc p), snd (abs_osc p) @ [b])"
    using cur_store [OF cut, of b] cuts_store [OF cut(1), of b] by (simp add: abs_osc_def cl)
  have "osc_ok N ?p"
    using o st lt cut_ok_store [OF cut, of b] by (auto simp: osc_ok_def cl)
  then have "vt_ok N ?p"
    using ok by (simp add: vt_ok_def utf8_ok_def)
  moreover have "abs_vosc ?p = (case abs_vosc p of None \<Rightarrow> None | Some (args, c) \<Rightarrow> Some (args, c @ [b]))"
    using ao by (auto simp: abs_vosc_def split: prod.split)
  ultimately show ?thesis
    using st by (intro refinesI [OF refl]) (simp_all add: abs_vt_def)
qed

lemma osc_byte_ok:
  assumes ok: "vt_ok N p" and st: "vp_state p = Osc"
  shows "refines N (osc_byte b p)
    (if b = 0x07 then (VText [], osc_dispatch True (abs_vosc p)) else (VOsc (vosc_push N b (abs_vosc p)), []))"
proof -
  have o: "osc_ok N p" and u: "vp_utf8_len p = 0" using ok st by (auto simp: vt_ok_def utf8_ok_def)
  obtain args c where ac: "abs_osc p = (args, c)" by fastforce
  note len = length_abs_args [OF o] length_abs_osc [OF o]
  have vo: "abs_vosc p = (if vpointer args \<and> vp_osc_overflow p then None else Some (args, c))"
    by (simp add: abs_vosc_def ac)
  have ptr: "is_pointer_osc p = Some (vpointer args)"
    using is_pointer_osc_ok [OF o] ac by simp
  have bound: "vp_osc_len p \<le> N" using o by (simp add: osc_ok_def cut_ok_def)
  have bell: "refines N (do { (p, ev) \<leftarrow> end_string True p; Some (p\<lparr>vp_state := Text\<rparr>, ev) })
      (VText [], osc_dispatch True (abs_vosc p))"
    using exit_to [OF ok, of "\<lambda>p. p\<lparr>vp_state := Text\<rparr>" "VText []" True "[]"] st u
    by (simp add: vt_ok_state abs_vt_def exit_events_def)
  have ctl: "refines N (Some (if vpointer args then p\<lparr>vp_osc_overflow := True\<rparr> else p, []))
      (VOsc (vosc_push N b (abs_vosc p)), [])" if "b \<le> 0x1F"
  proof (cases "vpointer args")
    case True
    then have "vp_osc_args p \<noteq> 0" using len(1) ac by (cases args) (auto simp: vpointer_def)
    then show ?thesis using True osc_overflow_step [OF ok st] that ac
      by (simp add: vo vosc_push_def osc_reject_def)
  next
    case False
    then show ?thesis using ok st that
      by (intro refinesI [OF refl]) (simp_all add: abs_vt_def vo vosc_push_def osc_reject_def)
  qed
  have rej: "refines N (Some (p\<lparr>vp_osc_overflow := True\<rparr>, [])) (VOsc (vosc_push N b (abs_vosc p)), [])"
    if "\<not> b \<le> 0x1F" "\<not> vp_osc_args p < 16 \<or> b \<noteq> 0x3B \<and> \<not> vp_osc_len p < N"
  proof -
    have "vosc_push N b (abs_vosc p) = osc_reject (abs_osc p)"
      using that len ac by (auto simp: vosc_push_def vo osc_reject_def)
    moreover have "vp_osc_len p = N" if "vp_osc_args p = 0"
      using that bound \<open>\<not> vp_osc_args p < 16 \<or> b \<noteq> 0x3B \<and> \<not> vp_osc_len p < N\<close> by auto
    ultimately show ?thesis using osc_overflow_step [OF ok st] by simp
  qed
  have cls: "refines N (Some (close_arg p, [])) (VOsc (vosc_push N b (abs_vosc p)), [])"
    if "b = 0x3B" "vp_osc_args p < 16"
    using osc_close_step [OF ok st that(2)] that len ac by (auto simp: vosc_push_def vo split: if_splits)
  have sto: "refines N (Some (p\<lparr>vp_osc := (vp_osc p)[vp_osc_len p := b], vp_osc_len := vp_osc_len p + 1\<rparr>, []))
      (VOsc (vosc_push N b (abs_vosc p)), [])"
    if "\<not> b \<le> 0x1F" "b \<noteq> 0x3B" "vp_osc_len p < N" "vp_osc_args p < 16"
    using osc_store_step [OF ok st that(3), of b] that len ac by (auto simp: vosc_push_def vo split: if_splits)
  have N: "length (vp_osc p) = N" "length (vp_osc_ends p) = 16" using o by (simp_all add: osc_ok_def)
  show ?thesis
    unfolding osc_byte_def ptr N(1)
    using bell ctl rej cls sto N by (auto simp: close_arg_def)
qed

section \<open>Text and the byte loop\<close>

lemma lead_partial:
  fixes b :: u8
  assumes "between 0xC2 0xF4 b"
  shows "utf8_head [b] = Malformed None"
    "(if b < 0xE0 then 2 else if b < 0xF0 then 3 else 4) = utf8_width b"
proof -
  have b: "194 \<le> unat b" "unat b \<le> 244"
    using assms by (auto simp: word_le_nat_alt)
  then show w: "(if b < 0xE0 then 2 else if b < 0xF0 then 3 else 4) = utf8_width b"
    unfolding utf8_width_def word_le_nat_alt word_less_nat_alt by simp
  have "utf8_width b \<noteq> 0" "utf8_width b \<noteq> 1"
    using b unfolding utf8_width_def word_le_nat_alt by auto
  then show "utf8_head [b] = Malformed None"
    by (simp add: utf8_head_def Let_def)
qed

lemma text_ok:
  assumes ok: "vt_ok N p" and st: "vp_state p = Text" and u: "vp_utf8_len p = 0"
  shows "refines N (text_byte b p) (vtext b)"
proof -
  have v: "refines N (Some (p, ev)) (VText [], ev)" for ev
    using ok st u by (intro refinesI [OF refl]) (simp_all add: abs_vt_def)
  obtain a r where ar: "vp_utf8 p = a # r"
    using ok by (cases "vp_utf8 p") (auto simp: vt_ok_def utf8_ok_def)
  let ?p = "p\<lparr>vp_utf8 := b # r, vp_utf8_len := 1,
    vp_utf8_expected := (if b < 0xE0 then 2 else if b < 0xF0 then 3 else 4)\<rparr>"
  have lead: "refines N (do { u \<leftarrow> arr_set (vp_utf8 p) 0 b;
      Some (p\<lparr>vp_utf8 := u, vp_utf8_len := 1,
        vp_utf8_expected := (if b < 0xE0 then 2 else if b < 0xF0 then 3 else 4)\<rparr>, []) }) (VText [b], [])"
    if "between 0xC2 0xF4 b"
  proof (rule refinesI)
    show "vt_ok N ?p"
      using ok st ar lead_partial [OF that] by (simp add: vt_ok_def osc_ok_def utf8_ok_def)
  qed (use st ar in \<open>simp_all add: abs_vt_def\<close>)
  have p: "between 0x20 0x7F b \<longleftrightarrow> b \<le> 0x7F" if "\<not> (b \<le> 0x1F \<or> between 0x80 0x9F b)"
    using that byte_gaps(1) by blast
  show ?thesis
    unfolding text_byte_def vtext_def by (intro refines_if v lead p) auto
qed

lemma hd_saved: "vt_ok N p \<Longrightarrow> vp_utf8_len p \<noteq> 0 \<Longrightarrow>
   hd (take (vp_utf8_len p) (vp_utf8 p)) = vp_utf8 p ! 0"
  by (cases "vp_utf8 p"; cases "vp_utf8_len p") (auto simp: vt_ok_def utf8_ok_def)

lemma vt_ok_drop_saved: "vt_ok N p \<Longrightarrow> vt_ok N (p\<lparr>vp_utf8_len := 0\<rparr>)"
  by (simp add: vt_ok_def osc_ok_def utf8_ok_def)

lemma continue_ok:
  assumes ok: "vt_ok N p" and st: "vp_state p = Text" and u: "vp_utf8_len p \<noteq> 0"
  defines "s \<equiv> take (vp_utf8_len p) (vp_utf8 p)"
  shows "if cont b \<and> (length s = 1 \<longrightarrow> second_ok (hd s) b)
    then \<exists>p' ev. continue_utf8 b p = Some (p', ev, True) \<and> vt_ok N p' \<and>
      (abs_vt p', ev) = (if length s + 1 = utf8_width (hd s) then (VText [], char_event (s @ [b]))
        else (VText (s @ [b]), []))
    else continue_utf8 b p = Some (p\<lparr>vp_utf8_len := 0\<rparr>, [Print 0xFFFD], False)"
proof -
  let ?n = "vp_utf8_len p" and ?u = "vp_utf8 p"
  have uok: "length ?u = 4" "?n \<le> 3" "utf8_head s = Malformed None" "vp_utf8_expected p = utf8_width (?u ! 0)"
    using ok u by (simp_all add: vt_ok_def utf8_ok_def s_def)
  have hd: "hd s = ?u ! 0" "length s = ?n" "s \<noteq> []"
    using hd_saved [OF ok u] uok u by (auto simp: s_def)
  have valid: "(between 0x80 0xBF b \<and> (?n \<noteq> 1 \<or>
      (if ?u ! 0 = 0xE0 then 0xA0 \<le> b else if ?u ! 0 = 0xED then b \<le> 0x9F
       else if ?u ! 0 = 0xF0 then 0x90 \<le> b else if ?u ! 0 = 0xF4 then b \<le> 0x8F else True))) \<longleftrightarrow>
      cont b \<and> (length s = 1 \<longrightarrow> second_ok (hd s) b)"
    unfolding hd cont_def second_ok_def by auto
  have tk: "take (Suc ?n) (?u[?n := b]) = s @ [b]"
    using uok by (simp add: take_Suc_conv_app_nth s_def)
  have acc: "arr_get ?u 0 = Some (?u ! 0)" "arr_set ?u ?n b = Some (?u[?n := b])"
    "arr_slice (?u[?n := b]) 0 (Suc ?n) = Some (s @ [b])"
    using uok tk by simp_all
  then have sl: "arr_slice (?u[?n := b]) 0 w = Some (s @ [b])" if "Suc ?n = w" for w
    using that by blast
  let ?p = "p\<lparr>vp_utf8 := ?u[?n := b], vp_utf8_len := Suc ?n\<rparr>"
  have c: "continue_utf8 b p =
      (if \<not> (cont b \<and> (length s = 1 \<longrightarrow> second_ok (hd s) b))
       then Some (p\<lparr>vp_utf8_len := 0\<rparr>, [Print 0xFFFD], False)
       else if Suc ?n = utf8_width (hd s) then
           Some (?p\<lparr>vp_utf8_len := 0\<rparr>,
             if from_utf8 (s @ [b]) = Utf8Ok then char_event (s @ [b]) else [], True)
         else Some (?p, [], True))"
    unfolding continue_utf8_def acc(1) Option.bind.simps valid
    by (rule if_cong [OF refl refl]) (simp add: acc(2) sl uok(4) hd(1) char_event_def)
  show ?thesis
  proof (cases "cont b \<and> (length s = 1 \<longrightarrow> second_ok (hd s) b)")
    case True
    note ext = utf8_extend [OF uok(3) hd(3) conjunct1 [OF True] conjunct2 [OF True]]
    have w: "utf8_width (hd s) \<le> 4" by (simp add: utf8_width_def)
    show ?thesis
    proof (cases "?n + 1 = utf8_width (hd s)")
      case whole: True
      then have "from_utf8 (s @ [b]) = Utf8Ok"
        using ext(2) hd(2) by (intro from_utf8_whole) simp
      then show ?thesis
        using True whole ok st hd(2) uok
        by (simp add: c Let_def) (simp add: vt_ok_def osc_ok_def utf8_ok_def abs_vt_def)
    next
      case False
      have "?n + 1 \<le> 3" using False ext(1) w hd(2) by simp
      then have "vt_ok N (p\<lparr>vp_utf8 := ?u[?n := b], vp_utf8_len := Suc ?n\<rparr>)"
        using ok st ext(2) False uok hd tk u by (simp add: vt_ok_def osc_ok_def utf8_ok_def)
      then show ?thesis
        using True False st hd(2) tk by (simp add: c Let_def abs_vt_def)
    qed
  qed (simp add: c)
qed

lemma abs_to:
  "abs_vt (p\<lparr>vp_state := Text\<rparr>) = VText (take (vp_utf8_len p) (vp_utf8 p))"
  "abs_vt (p\<lparr>vp_state := Escape\<rparr>) = VEscape False (abs_inter p) (vp_ignored p)"
  "abs_vt (p\<lparr>vp_state := OscEscape\<rparr>) = VOscEscape (abs_vosc p)"
  by (simp_all add: abs_vt_def)

lemma dispatch_ok:
  assumes ok: "vt_ok N p" and u: "vp_utf8_len p = 0" and ne: "vp_state p \<noteq> OscEscape"
  shows "refines N (dispatch_byte b p) (vdispatch N b (abs_vt p))"
proof -
  have stay: "refines N (Some (p, ev)) (abs_vt p, ev)" for ev
    using ok by (intro refinesI [OF refl]) simp_all
  have totext: "refines N (Some (p\<lparr>vp_state := Text\<rparr>, ev)) (VText [], ev)" for ev
    using ok u by (intro refinesI [OF refl] vt_ok_state) (simp_all add: abs_vt_def)
  have can: "refines N (do { (p, ev) \<leftarrow> end_string False p; Some (p\<lparr>vp_state := Text\<rparr>, ev @ [Execute b]) })
      (VText [], vexit (abs_vt p) @ [Execute b])"
    using exit_to [OF ok, of "\<lambda>p. p\<lparr>vp_state := Text\<rparr>" "VText []" False "[Execute b]"] u
    by (simp add: vt_ok_state abs_to vexit_abs)
  have esc: "refines N (do { (p, ev) \<leftarrow> end_string False p; Some ((clear_header p)\<lparr>vp_state := Escape\<rparr>, ev) })
      (VEscape False [] False, vexit (abs_vt p))"
    using exit_to [OF ok, of "\<lambda>p. (clear_header p)\<lparr>vp_state := Escape\<rparr>" "VEscape False [] False" False "[]"] u
    by (simp add: vt_ok_state vt_ok_clear_header abs_to vexit_abs)
  have hdr: "refines N (header b p) (vheader b dcs ph (abs_hdr p))" if "vp_state p = header_state dcs ph" for dcs ph
    by (rule header_ok [OF ok u that])
  show ?thesis
  proof (cases "b = 0x18 \<or> b = 0x1A \<or> b = 0x1B")
    case True
    then show ?thesis using can esc by (auto simp: dispatch_byte_def vdispatch_def)
  next
    case False
    then have d: "dispatch_byte b p = (case vp_state p of
           Text \<Rightarrow> text_byte b p | Escape \<Rightarrow> escape b p | EscapeCollect \<Rightarrow> escape b p
         | CsiStart \<Rightarrow> header b p | CsiNumbers \<Rightarrow> header b p | CsiCollect \<Rightarrow> header b p
         | DcsStart \<Rightarrow> header b p | DcsNumbers \<Rightarrow> header b p | DcsCollect \<Rightarrow> header b p
         | CsiDiscard \<Rightarrow>
             if b \<le> 0x1F then Some (p, [Execute b])
             else if between 0x40 0x7E b then Some (p\<lparr>vp_state := Text\<rparr>, []) else Some (p, [])
         | DcsData \<Rightarrow>
             if b = 0x9C then Some (p\<lparr>vp_state := Text\<rparr>, [Unhook])
             else if b \<le> 0x7E then Some (p, [Put b]) else Some (p, [])
         | Osc \<Rightarrow> osc_byte b p | OscEscape \<Rightarrow> None
         | DcsDiscard \<Rightarrow> if b = 0x9C then Some (p\<lparr>vp_state := Text\<rparr>, []) else Some (p, [])
         | StringDiscard \<Rightarrow> Some (p, []))"
      by (simp add: dispatch_byte_def cong: vt_state.case_cong)
    show ?thesis
      using False stay totext text_ok [OF ok _ u, of b] escape_ok [OF ok u, of False b]
        escape_ok [OF ok u, of True b] osc_byte_ok [OF ok, of b]
        hdr [of False PStart] hdr [of False PNumbers] hdr [of False PCollect]
        hdr [of True PStart] hdr [of True PNumbers] hdr [of True PCollect] ne u
      unfolding d by (cases "vp_state p") (simp_all add: vdispatch_def abs_vt_def)
  qed
qed

lemma pointer_control_ok:
  assumes ok: "vt_ok N p" and st: "vp_state p = Osc"
  shows "pointer_string_control b p =
    (if vpointer (fst (abs_osc p)) \<and> b = 0x1B then Some (p\<lparr>vp_state := OscEscape\<rparr>, [], True)
     else if vpointer (fst (abs_osc p)) \<and> (b = 0x18 \<or> b = 0x1A) then Some (p\<lparr>vp_state := Text\<rparr>, [], True)
     else Some (p, [], False))"
  using is_pointer_osc_ok [of N p] ok st by (simp add: pointer_string_control_def vt_ok_def)

lemma refines_prepend:
  "refines N st (v, ev) \<Longrightarrow> refines N (do { (p, e) \<leftarrow> st; Some (p, ev0 @ e) }) (v, ev0 @ ev)"
  by (auto simp: refines_def)

lemma bind_Some_pair: "do { (p, e) \<leftarrow> st; Some (p, e) } = st"
  by (cases st) auto

lemma consume_osc_ok:
  assumes ok: "vt_ok N p" and st: "vp_state p = Osc"
  shows "refines N (consume b p) (vconsume N b (abs_vt p))"
proof -
  have u: "vp_utf8_len p = 0" using ok st by (auto simp: vt_ok_def utf8_ok_def)
  have v: "abs_vt p = VOsc (abs_vosc p)" using st by (simp add: abs_vt_def)
  have ptr: "abs_vosc p = None \<or> vpointer (fst (the (abs_vosc p))) \<longleftrightarrow> vpointer (fst (abs_osc p))"
    by (auto simp: abs_vosc_def)
  have d: "refines N (dispatch_byte b p) (vdispatch N b (abs_vt p))"
    using st by (intro dispatch_ok [OF ok u]) simp
  have esc: "refines N (Some (p\<lparr>vp_state := OscEscape\<rparr>, [])) (VOscEscape (abs_vosc p), [])"
    if "vpointer (fst (abs_osc p))"
    using ok u that st by (intro refinesI [OF refl])
      (auto simp: vt_ok_def osc_ok_def utf8_ok_def abs_to)
  have totxt: "refines N (Some (p\<lparr>vp_state := Text\<rparr>, [])) (VText [], [])"
    using ok u by (intro refinesI [OF refl] vt_ok_state) (simp_all add: abs_to)
  show ?thesis
    using d esc totxt st
    by (auto simp: consume_def pointer_control_ok [OF ok st] vconsume_def v ptr bind_Some_pair)
qed

lemma consume_osc_escape_ok:
  assumes ok: "vt_ok N p" and st: "vp_state p = OscEscape"
  shows "refines N (consume b p) (vconsume N b (abs_vt p))"
proof -
  have u: "vp_utf8_len p = 0" using ok st by (auto simp: vt_ok_def utf8_ok_def)
  have v: "abs_vt p = VOscEscape (abs_vosc p)" using st by (simp add: abs_vt_def)
  let ?p = "(clear_header p)\<lparr>vp_state := Escape\<rparr>"
  have okp: "vt_ok N ?p" using ok u by (intro vt_ok_state vt_ok_clear_header) simp_all
  have "refines N (dispatch_byte b ?p) (vdispatch N b (VEscape False [] False))"
    using dispatch_ok [OF okp, of b] u by (simp add: abs_to)
  moreover have "refines N (do { (p, ev) \<leftarrow> end_string False p; Some (p\<lparr>vp_state := Text\<rparr>, ev) })
      (VText [], osc_dispatch False (abs_vosc p))"
    using exit_to [OF ok, of "\<lambda>p. p\<lparr>vp_state := Text\<rparr>" "VText []" False "[]"] u st
    by (simp add: vt_ok_state abs_to exit_events_def)
  moreover have "consume b p =
      (if b = 0x5C then do { (p, ev) \<leftarrow> end_string False p; Some (p\<lparr>vp_state := Text\<rparr>, ev) }
       else dispatch_byte b ?p)"
    using st by (auto simp: consume_def pointer_string_control_def bind_Some_pair
        intro!: Option.bind_cong split: prod.split)
  ultimately show ?thesis by (simp add: vconsume_def v)
qed

lemma consume_ok:
  assumes ok: "vt_ok N p"
  shows "refines N (consume b p) (vconsume N b (abs_vt p))"
proof -
  consider (osc) "vp_state p = Osc" | (esc) "vp_state p = OscEscape"
    | (saved) "vp_state p = Text" "vp_utf8_len p \<noteq> 0"
    | (plain) "vp_state p \<noteq> Osc" "vp_state p \<noteq> OscEscape" "vp_utf8_len p = 0"
    using ok by (auto simp: vt_ok_def utf8_ok_def)
  then show ?thesis
  proof cases
    case saved
    let ?s = "take (vp_utf8_len p) (vp_utf8 p)" and ?p = "p\<lparr>vp_utf8_len := 0\<rparr>"
    have v: "abs_vt p = VText ?s" "abs_vt ?p = VText []" "?s \<noteq> []"
      using saved ok by (auto simp: abs_vt_def vt_ok_def utf8_ok_def)
    have d: "refines N (dispatch_byte b ?p) (vdispatch N b (VText []))"
      using dispatch_ok [of N ?p b] vt_ok_drop_saved [OF ok] saved v(2) by simp
    have "pointer_string_control b ?p = Some (?p, [], False)"
      using saved by (simp add: pointer_string_control_def)
    with continue_ok [OF ok saved, of b] show ?thesis
      using saved v refines_prepend [of N _ "fst (vdispatch N b (VText []))" _ "[Print 0xFFFD]"] d
      by (auto simp: consume_def vconsume_def refines_def split: if_splits)
  next
    case plain
    have "pointer_string_control b p = Some (p, [], False)"
      using plain by (simp add: pointer_string_control_def)
    then have "consume b p = dispatch_byte b p"
      using plain by (simp add: consume_def bind_Some_pair)
    moreover have "vconsume N b (abs_vt p) = vdispatch N b (abs_vt p)"
      using plain by (cases "vp_state p") (simp_all add: vconsume_def abs_vt_def)
    ultimately show ?thesis using dispatch_ok [OF ok plain(3) plain(2), of b] by simp
  qed (use consume_osc_ok [OF ok] consume_osc_escape_ok [OF ok] in auto)
qed

lemma consume_all_ok: "vt_ok N p \<Longrightarrow> refines N (consume_all bs p) (vconsume_all N bs (abs_vt p))"
proof (induction bs arbitrary: p)
  case Nil
  then show ?case by (simp add: refines_def)
next
  case (Cons b bs)
  obtain p' ev where 1: "consume b p = Some (p', ev)" "vt_ok N p'" "vconsume N b (abs_vt p) = (abs_vt p', ev)"
    using consume_ok [OF Cons.prems, of b] by (auto simp: refines_def)
  then show ?case
    using Cons.IH [OF 1(2)] by (auto simp: refines_def)
qed

lemma vcomplete_bound:
  assumes "vcomplete s bs = (v, ev, k)" "utf8_head s = Malformed None" "s \<noteq> []"
  shows "k \<le> length bs"
proof -
  define t where "t = s @ take (4 - length s) bs"
  have len: "length t - length s \<le> length bs" and ne: "t \<noteq> []"
    using assms(3) by (simp_all add: t_def)
  have ok: "char_len_utf8 c \<le> length t" if "from_utf8 t = Utf8Ok" "first_char t = Some c" for c
    using from_utf8_Ok_head [OF that(1) ne] char_len_first_char [OF _ that(2)] utf8_head_Scalar [of t]
    by fastforce
  have er: "e \<le> length t" if "from_utf8 t = Utf8Error e l" for e l
    using that from_utf8_at_Error [of t 0 e l] by (simp add: from_utf8_def)
  have ln: "l \<le> length t" if "from_utf8 t = Utf8Error 0 (Some l)" for l
    using from_utf8_Error_0 [OF that] utf8_head_Malformed [of t l] by simp
  from assms(1) have r: "k \<le> length t - length s"
    unfolding vcomplete_def Let_def t_def [symmetric]
    using ok er ln
    by (auto split: utf8_result.splits option.splits if_splits intro!: diff_le_mono)
  with len show ?thesis by linarith
qed

lemma complete_ok:
  fixes bs :: bytes
  assumes ok: "vt_ok N p" and u: "vp_utf8_len p \<noteq> 0"
  defines "s \<equiv> take (vp_utf8_len p) (vp_utf8 p)"
    and "count \<equiv> min (4 - vp_utf8_len p) (length bs)"
  defines "p1 \<equiv> p\<lparr>vp_utf8 := s @ take count bs @ drop (vp_utf8_len p + count) (vp_utf8 p),
    vp_utf8_len := vp_utf8_len p + count\<rparr>"
  shows "\<exists>p' ev k. complete_saved_utf8 count p1 = Some (p', ev, k) \<and> vt_ok N p' \<and>
    vcomplete s bs = (abs_vt p', ev, k) \<and> k \<le> length bs"
proof -
  have uok: "length (vp_utf8 p) = 4" "vp_utf8_len p \<le> 3" "vp_state p = Text"
    "utf8_head s = Malformed None" "vp_utf8_expected p = utf8_width (vp_utf8 p ! 0)"
    using ok u by (auto simp: vt_ok_def utf8_ok_def s_def)
  define t where "t = s @ take (4 - length s) bs"
  have ls: "length s = vp_utf8_len p" "s \<noteq> []" using uok u by (auto simp: s_def)
  have tk: "take count bs = take (4 - length s) bs" by (simp add: count_def ls min_def)
  have lt: "length t = vp_utf8_len p + count" by (simp add: t_def ls count_def)
  have u1: "vp_utf8 p1 = t @ drop (length t) (vp_utf8 p)" "vp_utf8_len p1 = length t" "vp_state p1 = Text"
    "vp_utf8_expected p1 = vp_utf8_expected p"
    using lt tk uok(3) by (simp_all add: p1_def t_def)
  have len: "length t \<le> 4" using lt uok by (simp add: count_def)
  have sl: "arr_slice (vp_utf8 p1) 0 (vp_utf8_len p1) = Some t"
    "e \<le> length t \<Longrightarrow> arr_slice (vp_utf8 p1) 0 e = Some (take e t)" for e
    using uok len by (simp_all add: u1)
  have er: "e \<le> length t" if "from_utf8 t = Utf8Error e l" for e l
    using that from_utf8_at_Error [of t 0 e l] by (simp add: from_utf8_def)
  have z: "vt_ok N (p1\<lparr>vp_utf8_len := 0\<rparr>)" "abs_vt (p1\<lparr>vp_utf8_len := 0\<rparr>) = VText []"
  proof -
    have "utf8_ok (p1\<lparr>vp_utf8_len := 0\<rparr>)"
      using uok(1) len by (simp add: utf8_ok_def u1)
    then show "vt_ok N (p1\<lparr>vp_utf8_len := 0\<rparr>)"
      using ok by (simp add: p1_def vt_ok_def osc_ok_def)
    show "abs_vt (p1\<lparr>vp_utf8_len := 0\<rparr>) = VText []"
      using u1(3) by (simp add: abs_vt_def)
  qed
  have h0: "t ! 0 = vp_utf8 p ! 0"
    using ls u uok by (auto simp: t_def nth_append s_def)
  have part: "vt_ok N p1" "abs_vt p1 = VText t" if "utf8_head t = Malformed None"
  proof -
    have "length t \<le> 3" "t \<noteq> []" using utf8_partial_short [OF that] ls by (simp_all add: t_def)
    then have "utf8_ok p1"
      using that uok len h0 u1 by (auto simp: utf8_ok_def nth_append)
    moreover have "params_ok (vp_params p1)" "length (vp_intermediates p1) = 2"
      "vp_intermediate_len p1 \<le> 2" "osc_ok N p1"
      using ok by (simp_all add: p1_def vt_ok_def osc_ok_def)
    ultimately show "vt_ok N p1" by (simp add: vt_ok_def)
    show "abs_vt p1 = VText t" using u1 by (simp add: abs_vt_def)
  qed
  have orig: "vp_utf8_len p1 - count = length s" "length t - length s = count"
    using lt u1 ls by simp_all
  have "\<exists>p' ev k. complete_saved_utf8 count p1 = Some (p', ev, k) \<and> vt_ok N p' \<and>
      vcomplete s bs = (abs_vt p', ev, k)"
    unfolding complete_saved_utf8_def sl(1) Option.bind.simps Let_def orig
      vcomplete_def t_def [symmetric]
    using z sl(2) er part from_utf8_Error_0 [of t]
    by (auto split: utf8_result.split option.split)
  then show ?thesis using vcomplete_bound uok(4) ls(2) by blast
qed

lemma advance_ok:
  assumes ok: "vt_ok N p"
  shows "refines N (advance bs p) (vadvance N bs (abs_vt p))"
proof (cases "vp_utf8_len p = 0")
  case True
  have "vadvance N bs (abs_vt p) = vconsume_all N bs (abs_vt p)"
    using True by (cases "vp_state p") (simp_all add: vadvance_def abs_vt_def)
  then show ?thesis
    using True consume_all_ok [OF ok, of bs] by (simp add: advance_def bind_Some_pair)
next
  case False
  let ?s = "take (vp_utf8_len p) (vp_utf8 p)"
  have v: "abs_vt p = VText ?s" "?s \<noteq> []" "length (vp_utf8 p) = 4" "vp_utf8_len p \<le> 3"
    using ok False by (auto simp: abs_vt_def vt_ok_def utf8_ok_def)
  obtain p' ev k where c:
    "complete_saved_utf8 (min (4 - vp_utf8_len p) (length bs))
      (p\<lparr>vp_utf8 := ?s @ take (min (4 - vp_utf8_len p) (length bs)) bs @
          drop (vp_utf8_len p + min (4 - vp_utf8_len p) (length bs)) (vp_utf8 p),
        vp_utf8_len := vp_utf8_len p + min (4 - vp_utf8_len p) (length bs)\<rparr>) = Some (p', ev, k)"
    "vt_ok N p'" "vcomplete ?s bs = (abs_vt p', ev, k)" "k \<le> length bs"
    using complete_ok [OF ok False, of bs] by blast
  have "advance bs p = do { (p, ev') \<leftarrow> consume_all (drop k bs) p'; Some (p, ev @ ev') }"
    unfolding advance_def Let_def using False c(1,4) v(3,4) by simp
  moreover have "vadvance N bs (abs_vt p) =
      (case vconsume_all N (drop k bs) (abs_vt p') of (v, ev') \<Rightarrow> (v, ev @ ev'))"
    using v c(3) by (simp add: vadvance_def)
  ultimately show ?thesis
    using consume_all_ok [OF c(2), of "drop k bs"] by (auto simp: refines_def)
qed

end
