(* ===== verification/Vt_Replay.thy ===== *)
theory Vt_Replay
  imports Vt_Refine
begin

text \<open>
  What the refinement gives for \<^verbatim>\<open>packages/terminal-grid/src/vt_parser.rs\<close>: no panic on any
  input, and the exactness of the replay prefix, the bytes that rebuild a parser's syntax state in a
  fresh parser.  The locale \<open>simulation\<close> holds the argument that is independent of terminals: two
  machine states with the same abstraction answer every sequence of inputs alike.
\<close>

section \<open>Simulations\<close>

fun runs :: "('b \<Rightarrow> 's \<Rightarrow> ('s \<times> 'e list) option) \<Rightarrow> 'b list \<Rightarrow> 's \<Rightarrow> ('s \<times> 'e list) option" where
  "runs step [] s = Some (s, [])"
| "runs step (b # bs) s =
     do {
       (s, ev) \<leftarrow> step b s;
       (s, ev') \<leftarrow> runs step bs s;
       Some (s, ev @ ev')
     }"

fun aruns :: "('b \<Rightarrow> 'a \<Rightarrow> 'a \<times> 'e list) \<Rightarrow> 'b list \<Rightarrow> 'a \<Rightarrow> 'a \<times> 'e list" where
  "aruns astep [] a = (a, [])"
| "aruns astep (b # bs) a =
     (case astep b a of (a, ev) \<Rightarrow> case aruns astep bs a of (a, ev') \<Rightarrow> (a, ev @ ev'))"

locale simulation =
  fixes step :: "'b \<Rightarrow> 's \<Rightarrow> ('s \<times> 'e list) option"
    and astep :: "'b \<Rightarrow> 'a \<Rightarrow> 'a \<times> 'e list"
    and absn :: "'s \<Rightarrow> 'a"
    and ok :: "'s \<Rightarrow> bool"
  assumes sim: "ok s \<Longrightarrow> \<exists>s' ev. step b s = Some (s', ev) \<and> ok s' \<and> astep b (absn s) = (absn s', ev)"
begin

lemma runs_sim:
  "ok s \<Longrightarrow> \<exists>s' ev. runs step bs s = Some (s', ev) \<and> ok s' \<and> aruns astep bs (absn s) = (absn s', ev)"
proof (induction bs arbitrary: s)
  case (Cons b bs)
  obtain s1 ev1 where 1: "step b s = Some (s1, ev1)" "ok s1" "astep b (absn s) = (absn s1, ev1)"
    using sim [OF Cons.prems] by blast
  show ?case using Cons.IH [OF 1(2)] 1 by auto
qed simp

lemma same_answers:
  assumes "ok s" "ok t" "absn s = absn t"
  shows "map_option snd (runs step bs s) = map_option snd (runs step bs t)"
  using runs_sim [OF assms(1), of bs] runs_sim [OF assms(2), of bs] assms(3) by auto

lemma never_stuck: "ok s \<Longrightarrow> runs step bs s \<noteq> None"
  using runs_sim by fastforce

end

text \<open>The parser is simulated by the abstract decoder, for every buffer size.\<close>

interpretation vt: simulation "advance" "vadvance N" abs_vt "vt_ok N" for N
  using advance_ok by unfold_locales (fastforce simp: refines_def)

inductive vt_reachable :: "nat \<Rightarrow> parser \<Rightarrow> bool" for N where
  vt_start: "vt_reachable N (new_with_size N)"
| vt_step: "vt_reachable N p \<Longrightarrow> advance bs p = Some (p', ev) \<Longrightarrow> vt_reachable N p'"

lemma reachable_vt_ok: "vt_reachable N p \<Longrightarrow> 3 \<le> N \<Longrightarrow> vt_ok N p"
proof (induction rule: vt_reachable.induct)
  case (vt_step p bs p' ev)
  then show ?case using advance_ok [of N p bs] by (auto simp: refines_def)
qed (rule vt_ok_new)

section \<open>The invariant of the abstract decoder\<close>

definition inter_byte :: "u8 \<Rightarrow> bool" where
  "inter_byte b = between 0x20 0x2F b"

definition private_byte :: "u8 \<Rightarrow> bool" where
  "private_byte b = between 0x3C 0x3F b"

text \<open>A private marker can only be the first stored intermediate.\<close>

definition inter_ok :: "phase \<Rightarrow> bytes \<Rightarrow> bool" where
  "inter_ok ph xs \<longleftrightarrow> length xs \<le> 2 \<and>
     (case ph of
        PStart \<Rightarrow> xs = []
      | PNumbers \<Rightarrow> xs = [] \<or> (\<exists>b. xs = [b] \<and> private_byte b)
      | PCollect \<Rightarrow> xs \<noteq> [] \<and> (inter_byte (hd xs) \<or> private_byte (hd xs) \<and> tl xs \<noteq> []) \<and>
          list_all inter_byte (tl xs))"

definition hdr_ok :: "phase \<Rightarrow> vhdr \<Rightarrow> bool" where
  "hdr_ok ph h \<longleftrightarrow> h_used h \<le> 32 \<and> (\<forall>g \<in> set (h_groups h). g \<noteq> []) \<and> inter_ok ph (h_inter h) \<and>
     (h_used h = 32 \<longrightarrow> h_number h = 0 \<and> h_ignored h) \<and>
     (h_ignored h \<longrightarrow> h_used h = 32 \<or> ph = PCollect \<and> length (h_inter h) = 2) \<and>
     (ph = PStart \<longrightarrow> h = hdr_empty)"

definition osc_plain :: "u8 \<Rightarrow> bool" where
  "osc_plain b \<longleftrightarrow> \<not> b \<le> 0x1F \<and> b \<noteq> 0x3B"

definition vosc_ok :: "nat \<Rightarrow> vosc \<Rightarrow> bool" where
  "vosc_ok N s =
     (case s of None \<Rightarrow> True
      | Some (args, c) \<Rightarrow> length args \<le> 16 \<and> (length args = 16 \<longrightarrow> c = []) \<and>
          length (concat args) + length c \<le> N \<and>
          (\<forall>a \<in> set args. list_all osc_plain a) \<and> list_all osc_plain c)"

definition v_ok :: "nat \<Rightarrow> vt \<Rightarrow> bool" where
  "v_ok N v =
     (case v of
        VText s \<Rightarrow> s = [] \<or> utf8_head s = Malformed None
      | VEscape c xs ig \<Rightarrow> length xs \<le> 2 \<and> list_all inter_byte xs \<and> (c \<longleftrightarrow> xs \<noteq> []) \<and>
          (ig \<longrightarrow> length xs = 2)
      | VHeader dcs ph h \<Rightarrow> hdr_ok ph h
      | VOsc s \<Rightarrow> vosc_ok N s
      | VOscEscape s \<Rightarrow> vosc_ok N s \<and> (case s of None \<Rightarrow> True | Some (args, c) \<Rightarrow> vpointer args)
      | _ \<Rightarrow> True)"

lemma v_ok_simps:
  "v_ok N (VText t) \<longleftrightarrow> t = [] \<or> utf8_head t = Malformed None"
  "v_ok N (VOsc s) \<longleftrightarrow> vosc_ok N s"
  "v_ok N (VOscEscape s) \<longleftrightarrow> vosc_ok N s \<and> (case s of None \<Rightarrow> True | Some (args, c) \<Rightarrow> vpointer args)"
  "v_ok N (VHeader dcs ph h) \<longleftrightarrow> hdr_ok ph h"
  by (simp_all add: v_ok_def)

lemma hcollect_ok:
  assumes "hdr_ok ph h" "inter_byte b"
  shows "hdr_ok PCollect (hcollect b h)"
proof -
  have i: "inter_ok PCollect (fst (vcollect b (h_inter h, ig)))" for ig
  proof (cases "h_inter h")
    case Nil
    then show ?thesis using assms(2) by (simp add: inter_ok_def vcollect_def)
  next
    case (Cons x xs)
    then show ?thesis using assms
      by (cases ph) (auto simp: inter_ok_def vcollect_def hdr_ok_def)
  qed
  have "h_used (hcollect b h) = h_used h"
    by (simp add: hcollect_def h_used_def split: prod.split)
  moreover have "length (h_inter h) \<le> 2"
    using assms by (simp add: hdr_ok_def inter_ok_def)
  ultimately show ?thesis
    using assms i [of "h_ignored h"]
    by (auto simp: hdr_ok_def hcollect_def vcollect_def hdr_empty_def split: if_splits)
qed

lemma hmark_ok:
  assumes "hdr_ok PStart h" "private_byte b"
  shows "hdr_ok PNumbers (hcollect b h)"
  using assms by (auto simp: hdr_ok_def hcollect_def vcollect_def hdr_empty_def inter_ok_def h_used_def)

lemma hparam_ok:
  assumes "hdr_ok ph h" "ph \<noteq> PCollect"
  shows "hdr_ok PNumbers (hparam b h)"
  using assms
  by (cases ph) (auto simp: hdr_ok_def hparam_def Let_def inter_ok_def h_used_def hdr_empty_def)

lemma vheader_ok: "hdr_ok ph h \<Longrightarrow> v_ok N (fst (vheader b dcs ph h))"
  using hcollect_ok [of ph h b] hmark_ok [of h b] hparam_ok [of ph h b] byte_gaps [of b]
  by (cases ph) (auto simp: vheader_def v_ok_def inter_byte_def private_byte_def)

lemma vescape_ok:
  assumes "v_ok N (VEscape c xs ig)" "0 < N"
  shows "v_ok N (fst (vescape b c xs ig))"
  using assms byte_gaps(1) [of b]
  by (auto simp: vescape_def v_ok_def vcollect_def inter_byte_def hdr_ok_def hdr_empty_def
      inter_ok_def h_used_def vosc_ok_def)

lemma osc_reject_ok: "vosc_ok N (Some s) \<Longrightarrow> vosc_ok N (osc_reject s)"
  by (simp add: osc_reject_def vosc_ok_def)

lemma vosc_push_ok: "vosc_ok N s \<Longrightarrow> vosc_ok N (vosc_push N b s)"
proof (cases s)
  case (Some ac)
  obtain args c where ac: "ac = (args, c)" by fastforce
  assume "vosc_ok N s"
  then show ?thesis
    using osc_reject_ok [of N "(args, c)"] unfolding Some ac vosc_push_def
    by (auto simp: vosc_ok_def osc_plain_def)
qed (simp add: vosc_push_def vosc_ok_def)

lemma vtext_ok: "v_ok N (fst (vtext b))"
  using lead_partial(1) [of b] by (auto simp: vtext_def v_ok_def)

lemma vdispatch_v_ok: "v_ok N v \<Longrightarrow> 0 < N \<Longrightarrow> v_ok N (fst (vdispatch N b v))"
  unfolding vdispatch_def
  using vtext_ok [of N b] vescape_ok [of N _ _ _ b] vheader_ok [of _ _ N b] vosc_push_ok [of N _ b]
  by (cases v) (auto simp: v_ok_def)

lemma vconsume_ok:
  assumes "v_ok N v" "0 < N"
  shows "v_ok N (fst (vconsume N b v))"
proof (cases v)
  case (VText s)
  show ?thesis
  proof (cases "s \<noteq> [] \<and> cont b \<and> (length s = 1 \<longrightarrow> second_ok (hd s) b)")
    case True
    then show ?thesis
      using assms VText utf8_extend(2) [of s b] by (auto simp: vconsume_def v_ok_def)
  next
    case False
    have "v_ok N (fst (vdispatch N b (VText [])))"
      using assms by (intro vdispatch_v_ok) (simp_all add: v_ok_def)
    with False VText show ?thesis
      by (auto simp: vconsume_def split: prod.splits)
  qed
next
  case (VOsc s)
  then show ?thesis
    using assms vdispatch_v_ok [OF assms, of b]
    by (auto simp: vconsume_def v_ok_simps split: option.split)
next
  case (VOscEscape s)
  have "v_ok N (fst (vdispatch N b (VEscape False [] False)))"
    using assms by (intro vdispatch_v_ok) (simp_all add: v_ok_def)
  with VOscEscape show ?thesis by (simp add: vconsume_def v_ok_def)
qed (use vdispatch_v_ok [OF assms, of b] in \<open>simp_all add: vconsume_def\<close>)

lemma vconsume_all_ok: "v_ok N v \<Longrightarrow> 0 < N \<Longrightarrow> v_ok N (fst (vconsume_all N bs v))"
proof (induction bs arbitrary: v)
  case (Cons b bs)
  obtain v1 ev1 where 1: "vconsume N b v = (v1, ev1)" by fastforce
  then have "v_ok N v1" using vconsume_ok [OF Cons.prems, of b] by simp
  from Cons.IH [OF this Cons.prems(2)] 1 show ?case by (auto split: prod.split)
qed simp

lemma vcomplete_v_ok:
  assumes "vcomplete s bs = (v, ev, k)"
  shows "v_ok N v"
  using assms from_utf8_Error_0 [of "s @ take (4 - length s) bs"]
  by (auto simp: vcomplete_def Let_def v_ok_def split: utf8_result.splits option.splits if_splits)

lemma vadvance_v_ok:
  assumes "v_ok N v" "0 < N"
  shows "v_ok N (fst (vadvance N bs v))"
proof (cases "\<exists>s. v = VText s \<and> s \<noteq> []")
  case True
  then obtain s where s: "v = VText s" "s \<noteq> []" by blast
  obtain v1 ev k where c: "vcomplete s bs = (v1, ev, k)" by (cases "vcomplete s bs") auto
  have "v_ok N (fst (vconsume_all N (drop k bs) v1))"
    by (rule vconsume_all_ok [OF vcomplete_v_ok [OF c] assms(2)])
  then show ?thesis using s c by (auto simp: vadvance_def split: prod.split)
next
  case False
  then have "vadvance N bs v = vconsume_all N bs v" by (cases v) (auto simp: vadvance_def)
  then show ?thesis using vconsume_all_ok [OF assms] by simp
qed

lemma reachable_v_ok: "vt_reachable N p \<Longrightarrow> 3 \<le> N \<Longrightarrow> v_ok N (abs_vt p)"
proof (induction rule: vt_reachable.induct)
  case vt_start
  then show ?case by (simp add: abs_new_parser v_ok_def)
next
  case (vt_step p bs p' ev)
  then have "vadvance N bs (abs_vt p) = (abs_vt p', ev)"
    using advance_ok [OF reachable_vt_ok, of N p bs] by (auto simp: refines_def)
  then show ?case using vadvance_v_ok [of N "abs_vt p" bs] vt_step by simp
qed

section \<open>Printing and reading back a header\<close>

text \<open>\<open>feeds N bs v w\<close>: the bytes take the decoder silently from one state to another.\<close>

definition feeds :: "nat \<Rightarrow> bytes \<Rightarrow> vt \<Rightarrow> vt \<Rightarrow> bool" where
  "feeds N bs v w \<longleftrightarrow> vconsume_all N bs v = (w, [])"

lemma feeds_Nil: "feeds N [] v v"
  by (simp add: feeds_def)

lemma feeds_Cons: "vconsume N b v = (v', []) \<Longrightarrow> feeds N bs v' w \<Longrightarrow> feeds N (b # bs) v w"
  by (simp add: feeds_def)

lemma vconsume_all_append:
  "vconsume_all N (xs @ ys) u =
     (case vconsume_all N xs u of (v, ev) \<Rightarrow> case vconsume_all N ys v of (w, ev') \<Rightarrow> (w, ev @ ev'))"
  by (induction xs arbitrary: u) (auto split: prod.split)

lemma feeds_append: "feeds N xs u v \<Longrightarrow> feeds N ys v w \<Longrightarrow> feeds N (xs @ ys) u w"
  by (simp add: feeds_def vconsume_all_append)

fun dec :: "nat \<Rightarrow> bytes" where
  "dec n = (if n < 10 then [] else dec (n div 10)) @ [0x30 + word_of_nat (n mod 10)]"

declare dec.simps [simp del]

text \<open>The text of a closed group and of the open group.\<close>

fun gtext :: "u16 list \<Rightarrow> bytes" where
  "gtext [] = []"
| "gtext (v # vs) = dec (unat v) @ [if vs = [] then 0x3B else 0x3A] @ gtext vs"

fun otext :: "u16 list \<Rightarrow> bytes" where
  "otext [] = []"
| "otext (v # vs) = dec (unat v) @ [0x3A] @ otext vs"

lemma vconsume_header: "\<not> b \<le> 0x1F \<Longrightarrow> vconsume N b (VHeader dcs ph h) = vheader b dcs ph h"
  by (auto simp: vconsume_def vdispatch_def)

lemma vconsume_param:
  assumes "between 0x30 0x3B b" "ph \<noteq> PCollect"
  shows "vconsume N b (VHeader dcs ph h) = (VHeader dcs PNumbers (hparam b h), [])"
proof -
  have "\<not> b \<le> 0x1F" "\<not> b \<le> 0x2F" "b \<le> 0x3F" "\<not> 0x3C \<le> b"
    using assms(1) by (simp_all add: word_le_nat_alt)
  then show ?thesis using assms(2) by (simp add: vconsume_header vheader_def)
qed

lemma digit_byte: "d < 10 \<Longrightarrow> unat (0x30 + word_of_nat d :: u8) = 48 + d"
  by (simp add: unat_word_ariths unsigned_of_nat take_bit_nat_def)

lemma hnumber_digit:
  assumes "n < 65536"
  shows "hnumber (word_of_nat (n div 10)) (0x30 + word_of_nat (n mod 10)) = word_of_nat n"
proof -
  let ?q = "word_of_nat (n div 10) :: u16" and ?d = "0x30 + word_of_nat (n mod 10) :: u8"
  have q: "unat ?q = n div 10" using assms by (simp add: unsigned_of_nat take_bit_nat_def)
  have m: "unat (saturating_mul ?q 10) = n div 10 * 10"
  proof -
    have "n div 10 * 10 < 65536" "5 * (n div 10) < 32768" using assms by linarith+
    then show ?thesis using q by (simp add: saturating_mul_def unat_word_ariths)
  qed
  have d: "unat (ucast (?d - 0x30) :: u16) = n mod 10"
    by (simp add: unsigned_of_nat take_bit_nat_def unsigned_ucast_eq)
  have "unat (hnumber ?q ?d) = n"
    using m d assms by (simp add: hnumber_def)
  moreover have "unat (word_of_nat n :: u16) = n"
    using assms by (simp add: unsigned_of_nat take_bit_nat_def)
  ultimately show ?thesis by (simp add: word_eq_iff_unsigned [where 'a = nat])
qed

text \<open>Reading a printed number sets it, unless the parameter storage is full.\<close>

lemma dec_bytes: "b \<in> set (dec n) \<Longrightarrow> between 0x30 0x39 b"
proof (induction n rule: dec.induct)
  case (1 n)
  have "n mod 10 < 10" by simp
  then have "between 0x30 0x39 (0x30 + word_of_nat (n mod 10) :: u8)"
    using digit_byte [of "n mod 10"] by (simp add: word_le_nat_alt)
  with 1 show ?case by (subst (asm) (2) dec.simps) (auto split: if_splits)
qed

lemma feeds_full:
  assumes "\<forall>b \<in> set bs. between 0x30 0x39 b" "bs \<noteq> []" "h_used h = 32" "ph \<noteq> PCollect"
  shows "feeds N bs (VHeader dcs ph h) (VHeader dcs PNumbers h)"
  using assms
proof (induction bs arbitrary: ph)
  case (Cons b bs)
  have "between 0x30 0x3B b" using Cons.prems(1) by (auto simp: word_le_nat_alt)
  then have b: "vconsume N b (VHeader dcs ph h) = (VHeader dcs PNumbers h, [])"
    using Cons.prems by (subst vconsume_param) (simp_all add: hparam_def)
  have "feeds N bs (VHeader dcs PNumbers h) (VHeader dcs PNumbers h)"
    using Cons.IH [of PNumbers] Cons.prems by (cases "bs = []") (auto simp: feeds_Nil)
  then show ?case by (rule feeds_Cons [OF b])
qed simp

lemma feeds_number:
  assumes "n < 65536" "h_used h < 32" "h_number h = 0" "ph \<noteq> PCollect"
  shows "feeds N (dec n) (VHeader dcs ph h) (VHeader dcs PNumbers (h\<lparr>h_number := word_of_nat n\<rparr>))"
  using assms(1)
proof (induction n rule: dec.induct)
  case (1 n)
  let ?d = "0x30 + word_of_nat (n mod 10) :: u8"
  have "between 0x30 0x39 ?d" using digit_byte [of "n mod 10"] by (simp add: word_le_nat_alt)
  then have d: "between 0x30 0x3B ?d" "?d \<le> 0x39" by (auto simp: word_le_nat_alt)
  have last: "feeds N [?d] (VHeader dcs ph' (h\<lparr>h_number := word_of_nat (n div 10)\<rparr>))
      (VHeader dcs PNumbers (h\<lparr>h_number := word_of_nat n\<rparr>))" if "ph' \<noteq> PCollect" for ph'
    using vconsume_param [OF d(1) that] d(2) assms(2) hnumber_digit [OF "1.prems"]
    by (intro feeds_Cons [OF _ feeds_Nil]) (simp add: hparam_def h_used_def)
  show ?case
  proof (cases "n < 10")
    case True
    have "h\<lparr>h_number := word_of_nat (n div 10)\<rparr> = h" using True assms(3) by simp
    then show ?thesis using True last [OF assms(4)] by (simp add: dec.simps [of n])
  next
    case False
    have "feeds N (dec (n div 10)) (VHeader dcs ph h)
        (VHeader dcs PNumbers (h\<lparr>h_number := word_of_nat (n div 10)\<rparr>))"
      using "1.IH" [OF False] "1.prems" by simp
    then have "feeds N (dec (n div 10) @ [?d]) (VHeader dcs ph h)
        (VHeader dcs PNumbers (h\<lparr>h_number := word_of_nat n\<rparr>))"
      by (rule feeds_append) (rule last, simp)
    then show ?thesis using False by (simp add: dec.simps [of n])
  qed
qed

lemma feeds_sep:
  assumes "h_used h < 32" "ph \<noteq> PCollect" "sep = 0x3B \<or> sep = 0x3A"
  shows "feeds N [sep] (VHeader dcs ph h) (VHeader dcs PNumbers
    (h\<lparr>h_number := 0, h_ignored := (h_ignored h \<or> h_used h = 31),
       h_groups := (if sep = 0x3B then h_groups h @ [h_open h @ [h_number h]] else h_groups h),
       h_open := (if sep = 0x3B then [] else h_open h @ [h_number h])\<rparr>))"
proof -
  have "between 0x30 0x3B sep" using assms(3) by auto
  from vconsume_param [OF this assms(2), of N dcs h] show ?thesis
    using assms by (intro feeds_Cons [OF _ feeds_Nil]) (auto simp: hparam_def Let_def)
qed

lemma h_used_simps [simp]:
  "h_used (h\<lparr>h_number := n\<rparr>) = h_used h"
  "h_used (h\<lparr>h_ignored := g\<rparr>) = h_used h"
  "h_used (h\<lparr>h_open := h_open h @ xs\<rparr>) = h_used h + length xs"
  by (simp_all add: h_used_def)

lemma feeds_value:
  assumes "h_used h < 32" "h_number h = 0" "ph \<noteq> PCollect" "sep = 0x3B \<or> sep = 0x3A"
  shows "feeds N (dec (unat v) @ [sep]) (VHeader dcs ph h) (VHeader dcs PNumbers
    (h\<lparr>h_ignored := (h_ignored h \<or> h_used h = 31),
       h_groups := (if sep = 0x3B then h_groups h @ [h_open h @ [v]] else h_groups h),
       h_open := (if sep = 0x3B then [] else h_open h @ [v])\<rparr>))"
proof -
  let ?h = "h\<lparr>h_number := v\<rparr>"
  have "unat v < 65536" using unsigned_less [of v, where 'a = nat] by simp
  then have 1: "feeds N (dec (unat v)) (VHeader dcs ph h) (VHeader dcs PNumbers ?h)"
    using feeds_number [OF _ assms(1-3), of "unat v" N dcs] by simp
  have 2: "feeds N [sep] (VHeader dcs PNumbers ?h) (VHeader dcs PNumbers
      (?h\<lparr>h_number := 0, h_ignored := (h_ignored h \<or> h_used h = 31),
       h_groups := (if sep = 0x3B then h_groups h @ [h_open h @ [v]] else h_groups h),
       h_open := (if sep = 0x3B then [] else h_open h @ [v])\<rparr>))"
    using feeds_sep [of ?h PNumbers sep N dcs] assms by (cases "sep = 0x3B") simp_all
  have "?h\<lparr>h_number := 0, h_ignored := (h_ignored h \<or> h_used h = 31),
       h_groups := (if sep = 0x3B then h_groups h @ [h_open h @ [v]] else h_groups h),
       h_open := (if sep = 0x3B then [] else h_open h @ [v])\<rparr> =
     h\<lparr>h_ignored := (h_ignored h \<or> h_used h = 31),
       h_groups := (if sep = 0x3B then h_groups h @ [h_open h @ [v]] else h_groups h),
       h_open := (if sep = 0x3B then [] else h_open h @ [v])\<rparr>"
    using assms(2) by simp
  with feeds_append [OF 1 2] show ?thesis by simp
qed

lemma feeds_gtext:
  assumes "vs \<noteq> []" "h_used h + length vs \<le> 32" "h_number h = 0" "ph \<noteq> PCollect"
  shows "feeds N (gtext vs) (VHeader dcs ph h) (VHeader dcs PNumbers
    (h\<lparr>h_ignored := (h_ignored h \<or> h_used h + length vs = 32),
       h_groups := h_groups h @ [h_open h @ vs], h_open := []\<rparr>))"
  using assms
proof (induction vs arbitrary: h ph)
  case (Cons v vs)
  let ?sep = "if vs = [] then 0x3B else 0x3A :: u8"
  have step: "feeds N (dec (unat v) @ [?sep]) (VHeader dcs ph h) (VHeader dcs PNumbers
    (h\<lparr>h_ignored := (h_ignored h \<or> h_used h = 31),
       h_groups := (if ?sep = 0x3B then h_groups h @ [h_open h @ [v]] else h_groups h),
       h_open := (if ?sep = 0x3B then [] else h_open h @ [v])\<rparr>))"
    using Cons.prems by (intro feeds_value) auto
  show ?case
  proof (cases "vs = []")
    case True
    then show ?thesis using step by simp
  next
    case False
    let ?h = "h\<lparr>h_ignored := (h_ignored h \<or> h_used h = 31), h_open := h_open h @ [v]\<rparr>"
    have u: "h_used ?h = Suc (h_used h)" by (simp add: h_used_def)
    have "feeds N (gtext vs) (VHeader dcs PNumbers ?h) (VHeader dcs PNumbers
      (?h\<lparr>h_ignored := (h_ignored ?h \<or> h_used ?h + length vs = 32),
         h_groups := h_groups ?h @ [h_open ?h @ vs], h_open := []\<rparr>))"
      using False Cons.prems by (intro Cons.IH) (simp_all add: u)
    moreover have "?h\<lparr>h_ignored := (h_ignored ?h \<or> h_used ?h + length vs = 32),
         h_groups := h_groups ?h @ [h_open ?h @ vs], h_open := []\<rparr> =
       h\<lparr>h_ignored := (h_ignored h \<or> h_used h + length (v # vs) = 32),
         h_groups := h_groups h @ [h_open h @ v # vs], h_open := []\<rparr>"
      using False Cons.prems(2) by (cases vs) (auto simp: u)
    ultimately show ?thesis
      using feeds_append [OF step, of "gtext vs"] False by simp
  qed
qed simp

lemma feeds_groups:
  assumes "\<forall>g \<in> set gs. g \<noteq> []" "h_open h = []" "h_used h + length (concat gs) \<le> 32" "h_number h = 0"
    "ph \<noteq> PCollect"
  shows "feeds N (concat (map gtext gs)) (VHeader dcs ph h) (VHeader dcs (if gs = [] then ph else PNumbers)
    (h\<lparr>h_ignored := (h_ignored h \<or> gs \<noteq> [] \<and> h_used h + length (concat gs) = 32),
       h_groups := h_groups h @ gs\<rparr>))"
  using assms
proof (induction gs arbitrary: h ph)
  case (Cons g gs)
  let ?h = "h\<lparr>h_ignored := (h_ignored h \<or> h_used h + length g = 32), h_groups := h_groups h @ [g]\<rparr>"
  have u: "h_used ?h = h_used h + length g" by (simp add: h_used_def)
  have h: "?h = h\<lparr>h_ignored := (h_ignored h \<or> h_used h + length g = 32),
       h_groups := h_groups h @ [h_open h @ g], h_open := []\<rparr>"
    using Cons.prems(2) by simp
  have 1: "feeds N (gtext g) (VHeader dcs ph h) (VHeader dcs PNumbers ?h)"
    unfolding h using Cons.prems by (intro feeds_gtext) auto
  have 2: "feeds N (concat (map gtext gs)) (VHeader dcs PNumbers ?h) (VHeader dcs PNumbers
      (?h\<lparr>h_ignored := (h_ignored ?h \<or> gs \<noteq> [] \<and> h_used ?h + length (concat gs) = 32),
         h_groups := h_groups ?h @ gs\<rparr>))"
    using Cons.IH [of ?h PNumbers] Cons.prems by (simp add: u split: if_splits)
  have eq: "?h\<lparr>h_ignored := (h_ignored ?h \<or> gs \<noteq> [] \<and> h_used ?h + length (concat gs) = 32),
         h_groups := h_groups ?h @ gs\<rparr> =
      h\<lparr>h_ignored := (h_ignored h \<or> g # gs \<noteq> [] \<and> h_used h + length (concat (g # gs)) = 32),
         h_groups := h_groups h @ g # gs\<rparr>"
  proof -
    have "(h_ignored ?h \<or> gs \<noteq> [] \<and> h_used ?h + length (concat gs) = 32) =
        (h_ignored h \<or> h_used h + length (concat (g # gs)) = 32)"
      using Cons.prems(1,3) by (cases gs) (auto simp: u neq_Nil_conv)
    then show ?thesis by simp
  qed
  show ?case using feeds_append [OF 1 2] unfolding eq by simp
qed (simp add: feeds_Nil)

lemma feeds_otext:
  assumes "h_used h + length vs \<le> 32" "h_number h = 0" "ph \<noteq> PCollect"
  shows "feeds N (otext vs) (VHeader dcs ph h) (VHeader dcs (if vs = [] then ph else PNumbers)
    (h\<lparr>h_ignored := (h_ignored h \<or> vs \<noteq> [] \<and> h_used h + length vs = 32), h_open := h_open h @ vs\<rparr>))"
  using assms
proof (induction vs arbitrary: h ph)
  case (Cons v vs)
  let ?h = "h\<lparr>h_ignored := (h_ignored h \<or> h_used h = 31), h_open := h_open h @ [v]\<rparr>"
  have u: "h_used ?h = Suc (h_used h)" by (simp add: h_used_def)
  have 1: "feeds N (dec (unat v) @ [0x3A]) (VHeader dcs ph h) (VHeader dcs PNumbers ?h)"
    using feeds_value [of h ph "0x3A" N v dcs] Cons.prems by simp
  have 2: "feeds N (otext vs) (VHeader dcs PNumbers ?h) (VHeader dcs PNumbers
      (?h\<lparr>h_ignored := (h_ignored ?h \<or> vs \<noteq> [] \<and> h_used ?h + length vs = 32),
         h_open := h_open ?h @ vs\<rparr>))"
    using Cons.IH [of ?h PNumbers] Cons.prems by (simp add: u split: if_splits)
  have eq: "?h\<lparr>h_ignored := (h_ignored ?h \<or> vs \<noteq> [] \<and> h_used ?h + length vs = 32),
         h_open := h_open ?h @ vs\<rparr> =
      h\<lparr>h_ignored := (h_ignored h \<or> v # vs \<noteq> [] \<and> h_used h + length (v # vs) = 32),
         h_open := h_open h @ v # vs\<rparr>"
    using Cons.prems(1) by (cases vs) (auto simp: u)
  show ?case using feeds_append [OF 1 2] unfolding eq by simp
qed (simp add: feeds_Nil)

text \<open>Intermediates after the parameters.\<close>

lemma feeds_inter:
  assumes "list_all inter_byte xs" "length (h_inter h) + length xs \<le> 2"
  shows "feeds N xs (VHeader dcs ph h)
    (VHeader dcs (if xs = [] then ph else PCollect) (h\<lparr>h_inter := h_inter h @ xs\<rparr>))"
  using assms
proof (induction xs arbitrary: h ph)
  case (Cons x xs)
  have x: "\<not> x \<le> 0x1F" "x \<le> 0x2F"
    using Cons.prems(1) by (auto simp: inter_byte_def word_le_nat_alt)
  have "hcollect x h = h\<lparr>h_inter := h_inter h @ [x]\<rparr>"
    using Cons.prems(2) by (simp add: hcollect_def vcollect_def)
  then have 1: "vconsume N x (VHeader dcs ph h) = (VHeader dcs PCollect (h\<lparr>h_inter := h_inter h @ [x]\<rparr>), [])"
    using x by (simp add: vconsume_header vheader_def)
  show ?case
    using Cons.IH [of "h\<lparr>h_inter := h_inter h @ [x]\<rparr>" PCollect] Cons.prems
    by (intro feeds_Cons [OF 1]) (simp split: if_splits)
qed (simp add: feeds_Nil)

lemma feeds_overflow:
  assumes "length (h_inter h) = 2"
  shows "feeds N [0x20] (VHeader dcs ph h) (VHeader dcs PCollect (h\<lparr>h_ignored := True\<rparr>))"
  using assms
  by (intro feeds_Cons [OF _ feeds_Nil])
    (simp add: vconsume_header vheader_def hcollect_def vcollect_def)

definition split_private :: "bytes \<Rightarrow> nat" where
  "split_private xs = (if xs \<noteq> [] \<and> 0x3C \<le> hd xs then 1 else 0)"

lemma inter_private: "inter_byte b \<Longrightarrow> \<not> 0x3C \<le> b" "private_byte b \<Longrightarrow> 0x3C \<le> b"
  by (auto simp: inter_byte_def private_byte_def word_le_nat_alt)

lemma split_private_ok:
  assumes "inter_ok ph xs"
  shows "list_all inter_byte (drop (split_private xs) xs)"
    "take (split_private xs) xs = [] \<or> (\<exists>b. private_byte b \<and> take (split_private xs) xs = [b])"
    "drop (split_private xs) xs = [] \<longleftrightarrow> ph \<noteq> PCollect"
  using assms inter_private
  by (cases ph; cases xs; force simp: inter_ok_def split_private_def)+

text \<open>
  The text of a whole header: the extra zero digit is written when the parameter storage is full.
\<close>

definition hdr_text :: "bool \<Rightarrow> phase \<Rightarrow> vhdr \<Rightarrow> bytes" where
  "hdr_text z ph h =
     (let private = split_private (h_inter h) in
      take private (h_inter h) @ concat (map gtext (h_groups h)) @ otext (h_open h)
      @ (if h_used h \<noteq> 0 \<or> h_number h \<noteq> 0 \<or> ph = PNumbers then dec (unat (h_number h)) else [])
      @ (if z then [0x30] else [])
      @ drop private (h_inter h)
      @ (if h_ignored h \<and> h_used h < 32 then [0x20] else []))"

lemma feeds_values:
  assumes "\<forall>g \<in> set gs. g \<noteq> []" "length (concat gs) + length op \<le> 32" "ph \<noteq> PCollect"
  shows "feeds N (concat (map gtext gs) @ otext op) (VHeader dcs ph (hdr_empty\<lparr>h_inter := m\<rparr>))
    (VHeader dcs (if gs = [] \<and> op = [] then ph else PNumbers)
      \<lparr>h_groups = gs, h_open = op, h_number = 0, h_inter = m,
       h_ignored = (length (concat gs) + length op = 32)\<rparr>)"
proof -
  let ?h0 = "hdr_empty\<lparr>h_inter := m\<rparr>"
  let ?h1 = "\<lparr>h_groups = gs, h_open = [], h_number = 0, h_inter = m,
    h_ignored = (gs \<noteq> [] \<and> length (concat gs) = 32)\<rparr>"
  let ?p1 = "if gs = [] then ph else PNumbers"
  have z: "h_open ?h0 = []" "h_used ?h0 = 0" "h_number ?h0 = 0" "h_groups ?h0 = []" "\<not> h_ignored ?h0"
    by (simp_all add: hdr_empty_def h_used_def)
  have u1: "h_used ?h1 = length (concat gs)" by (simp add: h_used_def)
  have "?h0\<lparr>h_ignored := (h_ignored ?h0 \<or> gs \<noteq> [] \<and> h_used ?h0 + length (concat gs) = 32),
      h_groups := h_groups ?h0 @ gs\<rparr> = ?h1"
    using z by (simp add: hdr_empty_def)
  then have 1: "feeds N (concat (map gtext gs)) (VHeader dcs ph ?h0) (VHeader dcs ?p1 ?h1)"
    using feeds_groups [of gs ?h0 ph N dcs] assms z by simp
  have gs: "gs \<noteq> [] \<Longrightarrow> 0 < length (concat gs)"
    using assms(1) by (cases gs) auto
  have h2: "?h1\<lparr>h_ignored := (h_ignored ?h1 \<or> op \<noteq> [] \<and> h_used ?h1 + length op = 32), h_open := h_open ?h1 @ op\<rparr> =
      \<lparr>h_groups = gs, h_open = op, h_number = 0, h_inter = m,
       h_ignored = (length (concat gs) + length op = 32)\<rparr>"
    using gs assms(2) unfolding u1 by (cases gs; cases op) auto
  have 2: "feeds N (otext op) (VHeader dcs ?p1 ?h1) (VHeader dcs (if op = [] then ?p1 else PNumbers)
      (?h1\<lparr>h_ignored := (h_ignored ?h1 \<or> op \<noteq> [] \<and> h_used ?h1 + length op = 32), h_open := h_open ?h1 @ op\<rparr>))"
    using assms(2,3) u1 by (intro feeds_otext) auto
  have "(if op = [] then ?p1 else PNumbers) = (if gs = [] \<and> op = [] then ph else PNumbers)" by simp
  with feeds_append [OF 1 2] h2 show ?thesis by simp
qed

lemma feeds_numbers:
  fixes pr :: bool
  assumes ok: "h_used h \<le> 32" "\<forall>g \<in> set (h_groups h). g \<noteq> []" "h_used h = 32 \<longrightarrow> h_number h = 0"
    and z: "z \<longrightarrow> h_used h = 32" and ph: "ph \<noteq> PCollect"
  defines "printed \<equiv> h_used h \<noteq> 0 \<or> h_number h \<noteq> 0 \<or> pr"
  shows "feeds N ((concat (map gtext (h_groups h)) @ otext (h_open h))
      @ (if printed then dec (unat (h_number h)) else []) @ (if z then [0x30] else []))
    (VHeader dcs ph (hdr_empty\<lparr>h_inter := m\<rparr>))
    (VHeader dcs (if printed then PNumbers else ph) (h\<lparr>h_inter := m, h_ignored := (h_used h = 32)\<rparr>))"
proof -
  let ?h = "h\<lparr>h_number := 0, h_inter := m, h_ignored := (h_used h = 32)\<rparr>"
  let ?e = "h\<lparr>h_inter := m, h_ignored := (h_used h = 32)\<rparr>"
  let ?p = "if h_groups h = [] \<and> h_open h = [] then ph else PNumbers"
  have u: "h_used ?h = h_used h" "h_used ?e = h_used h" by (simp_all add: h_used_def)
  have "length (concat (h_groups h)) + length (h_open h) = h_used h" by (simp add: h_used_def)
  then have rec: "\<lparr>h_groups = h_groups h, h_open = h_open h, h_number = 0, h_inter = m,
       h_ignored = (length (concat (h_groups h)) + length (h_open h) = 32)\<rparr> = ?h" by simp
  have "feeds N (concat (map gtext (h_groups h)) @ otext (h_open h))
      (VHeader dcs ph (hdr_empty\<lparr>h_inter := m\<rparr>)) (VHeader dcs ?p
      \<lparr>h_groups = h_groups h, h_open = h_open h, h_number = 0, h_inter = m,
       h_ignored = (length (concat (h_groups h)) + length (h_open h) = 32)\<rparr>)"
    by (rule feeds_values) (use ok ph in \<open>simp_all add: h_used_def\<close>)
  note 1 = this [unfolded rec]
  have empty: "h_groups h = [] \<and> h_open h = []" if "h_used h = 0"
    using that ok(2) by (cases "h_groups h") (auto simp: h_used_def)
  have n: "unat (h_number h) < 65536" using unsigned_less [of "h_number h", where 'a = nat] by simp
  have num: "feeds N (dec (unat (h_number h))) (VHeader dcs ?p ?h) (VHeader dcs PNumbers ?e)"
  proof (cases "h_used h = 32")
    case True
    then have "?h = ?e" using ok(3) by simp
    moreover have "dec (unat (h_number h)) \<noteq> []" by (simp add: dec.simps)
    ultimately show ?thesis using feeds_full [of _ ?h ?p N dcs] dec_bytes u True ph by simp
  next
    case False
    have "?h\<lparr>h_number := word_of_nat (unat (h_number h))\<rparr> = ?e" by simp
    with feeds_number [OF n, of ?h ?p N dcs] False ok(1) u ph show ?thesis by simp
  qed
  have zero: "feeds N [0x30] (VHeader dcs PNumbers ?e) (VHeader dcs PNumbers ?e)" if z
    using z that u by (intro feeds_full) simp_all
  have "feeds N ((if printed then dec (unat (h_number h)) else []) @ (if z then [0x30] else []))
      (VHeader dcs ?p ?h) (VHeader dcs (if printed then PNumbers else ph) ?e)"
  proof (cases printed)
    case True
    have "feeds N (if z then [0x30] else []) (VHeader dcs PNumbers ?e) (VHeader dcs PNumbers ?e)"
      using zero by (cases z) (simp_all add: feeds_Nil)
    from feeds_append [OF num this] True show ?thesis by (simp only: if_True)
  next
    case False
    then have "\<not> z" "?h = ?e" "?p = ph" using z empty unfolding printed_def by auto
    then show ?thesis using False by (simp add: feeds_Nil)
  qed
  from feeds_append [OF 1 this] show ?thesis by simp
qed

lemma feeds_mark:
  assumes "m = [] \<or> (\<exists>b. private_byte b \<and> m = [b])"
  shows "feeds N m (VHeader dcs PStart hdr_empty)
    (VHeader dcs (if m = [] then PStart else PNumbers) (hdr_empty\<lparr>h_inter := m\<rparr>))"
proof (cases "m = []")
  case True
  then show ?thesis by (simp add: feeds_Nil hdr_empty_def)
next
  case False
  then obtain b where b: "m = [b]" "private_byte b" using assms by blast
  have "\<not> b \<le> 0x1F" "\<not> b \<le> 0x2F" "b \<le> 0x3F" "0x3C \<le> b"
    using b(2) by (auto simp: private_byte_def word_le_nat_alt)
  then have "vconsume N b (VHeader dcs PStart hdr_empty) = (VHeader dcs PNumbers (hdr_empty\<lparr>h_inter := [b]\<rparr>), [])"
    by (simp add: vconsume_header vheader_def hcollect_def vcollect_def hdr_empty_def)
  with b(1) show ?thesis by (simp add: feeds_Cons [OF _ feeds_Nil])
qed

text \<open>Feeding the text of a header rebuilds the header.\<close>

lemma feeds_hdr:
  assumes ok: "hdr_ok ph h" and z: "z \<longrightarrow> h_used h = 32"
  shows "feeds N (hdr_text z ph h) (VHeader dcs PStart hdr_empty) (VHeader dcs ph h)"
proof (cases "ph = PStart")
  case True
  then have "hdr_text z ph h = []" "h = hdr_empty"
    using ok z by (auto simp: hdr_text_def hdr_ok_def hdr_empty_def h_used_def split_private_def)
  then show ?thesis using True by (simp add: feeds_Nil)
next
  case False
  define k where "k = split_private (h_inter h)"
  define m where "m = take k (h_inter h)"
  define r where "r = drop k (h_inter h)"
  have hok: "h_used h \<le> 32" "\<forall>g \<in> set (h_groups h). g \<noteq> []" "h_used h = 32 \<longrightarrow> h_number h = 0"
    "h_used h = 32 \<longrightarrow> h_ignored h" "length (h_inter h) \<le> 2" "inter_ok ph (h_inter h)"
    "h_ignored h \<longrightarrow> h_used h = 32 \<or> ph = PCollect \<and> length (h_inter h) = 2"
    using ok by (auto simp: hdr_ok_def inter_ok_def)
  have mr: "m @ r = h_inter h" by (simp add: m_def r_def)
  have m: "m = [] \<or> (\<exists>b. private_byte b \<and> m = [b])" and r: "list_all inter_byte r"
    "r = [] \<longleftrightarrow> ph \<noteq> PCollect"
    using split_private_ok [OF hok(6)] by (auto simp: m_def r_def k_def)
  let ?p0 = "if m = [] then PStart else PNumbers"
  let ?pr = "h_used h \<noteq> 0 \<or> h_number h \<noteq> 0 \<or> ph = PNumbers"
  let ?p1 = "if ?pr then PNumbers else ?p0"
  let ?h1 = "h\<lparr>h_inter := m, h_ignored := (h_used h = 32)\<rparr>"
  let ?h2 = "h\<lparr>h_ignored := (h_used h = 32)\<rparr>"
  have 1: "feeds N (m @ ((concat (map gtext (h_groups h)) @ otext (h_open h))
        @ (if ?pr then dec (unat (h_number h)) else []) @ (if z then [0x30] else [])))
      (VHeader dcs PStart hdr_empty) (VHeader dcs ?p1 ?h1)"
    by (rule feeds_append [OF feeds_mark [OF m]], rule feeds_numbers) (use hok z in auto)
  have "feeds N r (VHeader dcs ?p1 ?h1) (VHeader dcs (if r = [] then ?p1 else PCollect) (?h1\<lparr>h_inter := h_inter ?h1 @ r\<rparr>))"
    using r hok(5) mr by (intro feeds_inter) (auto simp: length_append [symmetric] simp del: length_append)
  moreover have "?h1\<lparr>h_inter := h_inter ?h1 @ r\<rparr> = ?h2" using mr by simp
  moreover have "(if r = [] then ?p1 else PCollect) = ph" using r(2) False by (cases ph) auto
  ultimately have 2: "feeds N r (VHeader dcs ?p1 ?h1) (VHeader dcs ph ?h2)" by simp
  have 3: "feeds N (if h_ignored h \<and> h_used h < 32 then [0x20] else []) (VHeader dcs ph ?h2) (VHeader dcs ph h)"
  proof (cases "h_ignored h \<and> h_used h < 32")
    case True
    then have "ph = PCollect" "length (h_inter ?h2) = 2" using hok(7) by auto
    moreover have eq: "?h2\<lparr>h_ignored := True\<rparr> = h" using True by simp
    note feeds_overflow [of ?h2 N dcs ph, unfolded eq]
    ultimately show ?thesis using True by simp
  next
    case False
    then have "?h2 = h" using hok by auto
    then show ?thesis unfolding if_not_P [OF False] by (simp add: feeds_Nil)
  qed
  from feeds_append [OF feeds_append [OF 1 2] 3] show ?thesis
    by (simp add: hdr_text_def Let_def k_def [symmetric] m_def r_def)
qed

section \<open>Reading back the other states\<close>

definition osc_text :: "bytes list \<Rightarrow> bytes \<Rightarrow> bytes" where
  "osc_text args c = concat (map (\<lambda>a. a @ [0x3B]) args) @ c"

lemma feeds_osc_plain:
  assumes "list_all osc_plain bs" "length args < 16" "length (concat args) + length c + length bs \<le> N"
  shows "feeds N bs (VOsc (Some (args, c))) (VOsc (Some (args, c @ bs)))"
  using assms
proof (induction bs arbitrary: c)
  case (Cons b bs)
  have b: "\<not> b \<le> 0x1F" "b \<noteq> 0x3B" using Cons.prems(1) by (simp_all add: osc_plain_def)
  then have "b \<noteq> 0x18" "b \<noteq> 0x1A" "b \<noteq> 0x1B" "b \<noteq> 0x07" by auto
  with b have 1: "vconsume N b (VOsc (Some (args, c))) = (VOsc (Some (args, c @ [b])), [])"
    using Cons.prems by (auto simp: vconsume_def vdispatch_def vosc_push_def)
  show ?case using Cons.IH [of "c @ [b]"] Cons.prems by (intro feeds_Cons [OF 1]) simp
qed (simp add: feeds_Nil)

lemma feeds_osc_close:
  "length args < 16 \<Longrightarrow> feeds N [0x3B] (VOsc (Some (args, c))) (VOsc (Some (args @ [c], [])))"
  by (intro feeds_Cons [OF _ feeds_Nil]) (simp add: vconsume_def vdispatch_def vosc_push_def)

lemma feeds_osc_args:
  assumes "\<forall>a \<in> set as. list_all osc_plain a" "length args + length as \<le> 16"
    "length (concat args) + length (concat as) \<le> N"
  shows "feeds N (concat (map (\<lambda>a. a @ [0x3B]) as)) (VOsc (Some (args, []))) (VOsc (Some (args @ as, [])))"
  using assms
proof (induction as arbitrary: args)
  case (Cons a as)
  have "feeds N (a @ [0x3B]) (VOsc (Some (args, []))) (VOsc (Some (args @ [a], [])))"
    using Cons.prems feeds_osc_plain [of a args "[]" N] by (intro feeds_append [OF _ feeds_osc_close]) auto
  with Cons.IH [of "args @ [a]"] Cons.prems show ?case
    using feeds_append by fastforce
qed (simp add: feeds_Nil)

lemma feeds_osc_text:
  assumes "vosc_ok N (Some (args, c))"
  shows "feeds N (osc_text args c) (VOsc (Some ([], []))) (VOsc (Some (args, c)))"
proof -
  have 1: "feeds N (concat (map (\<lambda>a. a @ [0x3B]) args)) (VOsc (Some ([], []))) (VOsc (Some (args, [])))"
    using feeds_osc_args [of args "[]" N] assms by (simp add: vosc_ok_def)
  have 2: "feeds N c (VOsc (Some (args, []))) (VOsc (Some (args, c)))"
    using feeds_osc_plain [of c args "[]" N] assms
    by (cases "length args = 16") (auto simp: vosc_ok_def feeds_Nil)
  show ?thesis unfolding osc_text_def by (rule feeds_append [OF 1 2])
qed

lemma feeds_rejected: "\<forall>b \<in> set bs. osc_plain b \<Longrightarrow> feeds N bs (VOsc None) (VOsc None)"
proof (induction bs)
  case (Cons b bs)
  have b: "\<not> b \<le> 0x1F" using Cons.prems by (simp add: osc_plain_def)
  then have "b \<noteq> 0x18" "b \<noteq> 0x1A" "b \<noteq> 0x1B" "b \<noteq> 0x07" by auto
  then have "vconsume N b (VOsc None) = (VOsc None, [])"
    by (simp add: vconsume_def vdispatch_def vosc_push_def)
  then show ?case using Cons by (auto intro: feeds_Cons)
qed (simp add: feeds_Nil)

lemma feeds_overrun:
  assumes "vpointer args" "length args < 16" "N < length (concat args) + length c + k"
  shows "length (concat args) + length c \<le> N \<Longrightarrow>
    feeds N (replicate k 0x78) (VOsc (Some (args, c))) (VOsc None)"
  using assms(3)
proof (induction k arbitrary: c)
  case (Suc k)
  show ?case
  proof (cases "length (concat args) + length c < N")
    case True
    then have "vconsume N 0x78 (VOsc (Some (args, c))) = (VOsc (Some (args, c @ [0x78])), [])"
      using assms by (simp add: vconsume_def vdispatch_def vosc_push_def)
    then show ?thesis using Suc True by (auto intro!: feeds_Cons)
  next
    case False
    then have "vconsume N 0x78 (VOsc (Some (args, c))) = (VOsc None, [])"
      using assms by (auto simp: vconsume_def vdispatch_def vosc_push_def osc_reject_def)
    moreover have "feeds N (replicate k 0x78) (VOsc None) (VOsc None)"
      by (rule feeds_rejected) (simp add: osc_plain_def)
    ultimately show ?thesis by (auto intro: feeds_Cons)
  qed
qed simp

lemma feeds_dead:
  assumes "3 \<le> N"
  shows "feeds N ([0x32, 0x32, 0x3B] @ replicate (N + 1) 0x78) (VOsc (Some ([], []))) (VOsc None)"
proof -
  have "feeds N [0x32, 0x32] (VOsc (Some ([], []))) (VOsc (Some ([], [0x32, 0x32])))"
    using feeds_osc_plain [of "[0x32, 0x32]" "[]" "[]" N] assms by (simp add: osc_plain_def)
  then have "feeds N ([0x32, 0x32] @ [0x3B]) (VOsc (Some ([], []))) (VOsc (Some ([[0x32, 0x32]], [])))"
    by (rule feeds_append) (use feeds_osc_close [of "[]" N "[0x32, 0x32]"] in simp)
  moreover have "feeds N (replicate (N + 1) 0x78) (VOsc (Some ([[0x32, 0x32]], []))) (VOsc None)"
    using assms by (intro feeds_overrun) (simp_all add: vpointer_def)
  ultimately show ?thesis using feeds_append by fastforce
qed

lemma feeds_saved:
  assumes "utf8_head s = Malformed None"
  shows "feeds N s (VText []) (VText s)"
  using assms
proof (induction s rule: rev_induct)
  case (snoc b s)
  show ?case
  proof (cases "s = []")
    case True
    then have "between 0xC2 0xF4 b" using snoc.prems utf8_lead_range by simp
    then have "\<not> b \<le> 0x1F" "\<not> b \<le> 0x7F" "\<not> b \<le> 0x9F" "between 0xC2 0xF4 b"
      by (auto simp: word_le_nat_alt)
    moreover then have "b \<noteq> 0x18" "b \<noteq> 0x1A" "b \<noteq> 0x1B" by auto
    ultimately have "vconsume N b (VText []) = (VText [b], [])"
      by (simp add: vconsume_def vdispatch_def vtext_def)
    then show ?thesis using True by (simp add: feeds_Cons [OF _ feeds_Nil])
  next
    case False
    note part = utf8_partial_snoc [OF snoc.prems False]
    have "vconsume N b (VText s) = (VText (s @ [b]), [])"
      using part False by (simp add: vconsume_def)
    then show ?thesis
      by (intro feeds_append [OF snoc.IH [OF part(1)]] feeds_Cons [OF _ feeds_Nil])
  qed
qed (simp add: feeds_Nil)

lemma feeds_escape:
  assumes "list_all inter_byte ys" "length xs + length ys \<le> 2"
  shows "feeds N ys (VEscape c xs False) (VEscape (c \<or> ys \<noteq> []) (xs @ ys) False)"
  using assms
proof (induction ys arbitrary: c xs)
  case (Cons y ys)
  have y: "\<not> y \<le> 0x1F" "y \<le> 0x2F"
    using Cons.prems(1) by (auto simp: inter_byte_def word_le_nat_alt)
  then have "y \<noteq> 0x18" "y \<noteq> 0x1A" "y \<noteq> 0x1B" by auto
  with y have 1: "vconsume N y (VEscape c xs False) = (VEscape True (xs @ [y]) False, [])"
    using Cons.prems(2) by (simp add: vconsume_def vdispatch_def vescape_def vcollect_def)
  show ?case using Cons.IH [of "xs @ [y]" True] Cons.prems by (intro feeds_Cons [OF 1]) simp
qed (simp add: feeds_Nil)

section \<open>The whole prefix\<close>

definition pointer_start :: "bytes list \<times> bytes \<Rightarrow> bool" where
  "pointer_start s = (case s of (args, c) \<Rightarrow> vpointer args \<or> args = [] \<and> take (length c) [0x32, 0x32] = c)"

definition osc_body :: "nat \<Rightarrow> vosc \<Rightarrow> bytes" where
  "osc_body N s =
     (case s of
        None \<Rightarrow> [0x32, 0x32, 0x3B] @ replicate (N + 1) 0x78
      | Some (args, c) \<Rightarrow> if pointer_start (args, c) then osc_text args c else [])"

definition vprefix :: "nat \<Rightarrow> bool \<Rightarrow> vt \<Rightarrow> bytes" where
  "vprefix N z v =
     (case v of
        VText s \<Rightarrow> s
      | VEscape c xs ig \<Rightarrow> [0x1B] @ xs @ (if ig then [0x20] else [])
      | VHeader dcs ph h \<Rightarrow> (if dcs then [0x1B, 0x50] else [0x1B, 0x5B]) @ hdr_text z ph h
      | VCsiDiscard \<Rightarrow> [0x1B, 0x5B, 0x20, 0x24, 0x30]
      | VDcsDiscard \<Rightarrow> [0x1B, 0x50, 0x20, 0x24, 0x30]
      | VDcsData \<Rightarrow> [0x1B, 0x50, 0x71]
      | VOsc s \<Rightarrow> [0x1B, 0x5D] @ osc_body N s
      | VOscEscape s \<Rightarrow> [0x1B, 0x5D] @ osc_body N s @ [0x1B]
      | VStringDiscard \<Rightarrow> [0x1B, 0x5F])"

text \<open>
  Every state but one is rebuilt by its prefix: the payload of an operating system command that is
  not (and cannot become) an OSC 22 request is dropped.
\<close>

definition replayable :: "vt \<Rightarrow> bool" where
  "replayable v = (case v of VOsc (Some s) \<Rightarrow> pointer_start s | _ \<Rightarrow> True)"

lemma feeds_intro:
  "feeds N [0x1B] (VText []) (VEscape False [] False)"
  "feeds N [0x1B, 0x5B] (VText []) (VHeader False PStart hdr_empty)"
  "feeds N [0x1B, 0x50] (VText []) (VHeader True PStart hdr_empty)"
  "feeds N [0x1B, 0x5D] (VText []) (VOsc (Some ([], [])))"
  "feeds N [0x1B, 0x5F] (VText []) VStringDiscard"
  by (simp_all add: feeds_def vconsume_def vdispatch_def vescape_def vexit_def)

lemma feeds_discard:
  "feeds N [0x20, 0x24, 0x30] (VHeader dcs PStart hdr_empty) (if dcs then VDcsDiscard else VCsiDiscard)"
  by (simp add: feeds_def vconsume_def vdispatch_def vheader_def)

lemma feeds_osc_body:
  assumes "vosc_ok N s" "3 \<le> N" "\<And>x. s = Some x \<Longrightarrow> pointer_start x"
  shows "feeds N ([0x1B, 0x5D] @ osc_body N s) (VText []) (VOsc s)"
proof (cases s)
  case None
  then show ?thesis
    using feeds_append [OF feeds_intro(4) feeds_dead [OF assms(2)]] by (simp add: osc_body_def)
next
  case (Some x)
  obtain args c where x: "x = (args, c)" by fastforce
  show ?thesis
    using feeds_append [OF feeds_intro(4) feeds_osc_text] assms Some x
    by (simp add: osc_body_def)
qed

lemma feeds_prefix:
  assumes ok: "v_ok N v" and N: "3 \<le> N" and r: "replayable v" and d: "v \<noteq> VDcsData"
    and z: "\<And>dcs ph h. v = VHeader dcs ph h \<Longrightarrow> z \<Longrightarrow> h_used h = 32"
  shows "feeds N (vprefix N z v) (VText []) v"
proof (cases v)
  case (VText s)
  then show ?thesis using ok feeds_saved [of s N] by (auto simp: vprefix_def v_ok_simps feeds_Nil)
next
  case (VEscape c xs ig)
  have xs: "list_all inter_byte xs" "length xs \<le> 2" "c \<longleftrightarrow> xs \<noteq> []" "ig \<longrightarrow> length xs = 2"
    using ok VEscape by (simp_all add: v_ok_def)
  have 1: "feeds N ([0x1B] @ xs) (VText []) (VEscape c xs False)"
    using feeds_append [OF feeds_intro(1) feeds_escape [of xs "[]" N False]] xs by simp
  have 2: "feeds N [0x20] (VEscape c xs False) (VEscape c xs True)" if ig
    using xs that by (intro feeds_Cons [OF _ feeds_Nil])
      (auto simp: vconsume_def vdispatch_def vescape_def vcollect_def)
  show ?thesis
    using 1 feeds_append [OF 1 2] VEscape by (cases ig) (simp_all add: vprefix_def)
next
  case (VHeader dcs ph h)
  then have "feeds N (hdr_text z ph h) (VHeader dcs PStart hdr_empty) (VHeader dcs ph h)"
    using ok z by (intro feeds_hdr) (auto simp: v_ok_simps)
  then show ?thesis
    using VHeader feeds_append [OF feeds_intro(2)] feeds_append [OF feeds_intro(3)]
    by (cases dcs) (simp_all add: vprefix_def)
next
  case (VOsc s)
  then show ?thesis
    using feeds_osc_body [of N s] ok N r
    by (auto simp: vprefix_def v_ok_simps replayable_def split: option.splits)
next
  case (VOscEscape s)
  have "pointer_start x" if "s = Some x" for x
    using ok VOscEscape that by (auto simp: v_ok_simps pointer_start_def)
  then have 1: "feeds N ([0x1B, 0x5D] @ osc_body N s) (VText []) (VOsc s)"
    using feeds_osc_body [of N s] ok N VOscEscape by (simp add: v_ok_simps)
  have "feeds N [0x1B] (VOsc s) (VOscEscape s)"
    using ok VOscEscape
    by (intro feeds_Cons [OF _ feeds_Nil]) (auto simp: vconsume_def v_ok_simps split: option.splits)
  from feeds_append [OF 1 this] VOscEscape show ?thesis by (simp add: vprefix_def)
next
  case VCsiDiscard
  then show ?thesis
    using feeds_append [OF feeds_intro(2) feeds_discard [of N False]] by (simp add: vprefix_def)
next
  case VDcsDiscard
  then show ?thesis
    using feeds_append [OF feeds_intro(3) feeds_discard [of N True]] by (simp add: vprefix_def)
next
  case VDcsData
  then show ?thesis using d by simp
next
  case VStringDiscard
  then show ?thesis using feeds_intro(5) by (simp add: vprefix_def)
qed

text \<open>Only the prefix of a device control string calls back, with the hook that opened it.\<close>

lemma prefix_rebuilds:
  assumes "v_ok N v" "3 \<le> N" "replayable v"
    and "\<And>dcs ph h. v = VHeader dcs ph h \<Longrightarrow> z \<Longrightarrow> h_used h = 32"
  shows "vconsume_all N (vprefix N z v) (VText []) =
    (v, if v = VDcsData then [Hook [[0]] [] False 0x71] else [])"
proof (cases "v = VDcsData")
  case True
  then show ?thesis
    by (simp add: vprefix_def vconsume_def vdispatch_def vescape_def vheader_def hfinal_def
        hdr_empty_def h_used_def vexit_def)
next
  case False
  then show ?thesis using feeds_prefix [OF assms(1-3) False assms(4)] by (simp add: feeds_def)
qed

end
