(* ===== verification/Vt_Correct.thy ===== *)
theory Vt_Correct
  imports Vt_Replay
begin

text \<open>
  The properties of the terminal parser: it never panics, it refines the abstract decoder, its
  replay prefix rebuilds its state and is bounded, and a control sequence is dispatched with exactly
  the parameters that it spells.
\<close>

section \<open>The prefix that the arrays print\<close>

lemma take_drop_Cons:
  "i < length xs \<Longrightarrow> i < e \<Longrightarrow> take (e - i) (drop i xs) = xs ! i # take (e - Suc i) (drop (Suc i) xs)"
  by (simp add: Cons_nth_drop_Suc [symmetric] Suc_diff_Suc [symmetric])

lemma digit_word:
  fixes r :: u16
  shows "(if r mod 10 < 256 then ucast (r mod 10) else 0) = (word_of_nat (unat r mod 10) :: u8)"
proof -
  have u: "unat (r mod 10) = unat r mod 10" by (simp add: unat_mod)
  then have "r mod 10 < 256" by (simp add: word_less_nat_alt)
  moreover have "(ucast (r mod 10) :: u8) = word_of_nat (unat (r mod 10))" by simp
  ultimately show ?thesis by (simp add: u)
qed

lemma write_digits_dec:
  assumes "i < length ds" "unat r < 10 ^ Suc i"
  shows "write_digits ds (Suc i) r = Some (dec (unat r) @ drop (Suc i) ds)"
  using assms
proof (induction i arbitrary: ds r)
  case 0
  then have "unat (r div 10) = 0" "unat r < 10" by (simp_all add: unat_div)
  then have "r div 10 = 0" by (simp add: unat_eq_0)
  then show ?case
    using 0 \<open>unat r < 10\<close>
    by (cases ds) (simp_all add: digit_word dec.simps Let_def)
next
  case (Suc i)
  let ?d = "0x30 + word_of_nat (unat r mod 10) :: u8"
  have dr: "drop (Suc i) (ds[Suc i := ?d]) = ?d # drop (Suc (Suc i)) ds"
    using Suc.prems(1) by (simp add: Cons_nth_drop_Suc [symmetric])
  have div: "unat (r div 10) = unat r div 10" by (simp add: unat_div)
  have z: "r div 10 = 0 \<longleftrightarrow> unat r < 10"
    using div by (metis div_eq_0_iff unat_eq_0 zero_neq_numeral)
  show ?case
  proof (cases "unat r < 10")
    case True
    then have "dec (unat r) = [?d]" by (simp add: dec.simps)
    then show ?thesis
      using True z dr Suc.prems(1) by (subst write_digits.simps) (simp add: digit_word Let_def)
  next
    case False
    have "unat (r div 10) < 10 ^ Suc i" using Suc.prems(2) div by (simp add: less_mult_imp_div_less mult.commute)
    with Suc.IH [of "ds[Suc i := ?d]" "r div 10"] Suc.prems(1)
    have "write_digits (ds[Suc i := ?d]) (Suc i) (r div 10) = Some (dec (unat r div 10) @ ?d # drop (Suc (Suc i)) ds)"
      by (simp add: div dr del: write_digits.simps)
    moreover have "dec (unat r) = dec (unat r div 10) @ [?d]" using False by (simp add: dec.simps [of "unat r"])
    ultimately show ?thesis
      using False z Suc.prems(1)
      by (subst write_digits.simps) (simp add: digit_word Let_def del: write_digits.simps)
  qed
qed

lemma write_number_dec: "write_number v = Some (dec (unat v))"
proof -
  have "unat v < 10 ^ Suc 4" using unsigned_less [of v, where 'a = nat] by simp
  from write_digits_dec [OF _ this, of "replicate 5 0"] show ?thesis
    by (simp add: write_number_def eval_nat_numeral del: write_digits.simps)
qed

fun ptext_from :: "u16 list \<Rightarrow> nat list \<Rightarrow> nat \<Rightarrow> nat \<Rightarrow> bytes" where
  "ptext_from xs [] i used = otext (take (used - i) (drop i xs))"
| "ptext_from xs (e # es) i used = gtext (take (e - i) (drop i xs)) @ ptext_from xs es e used"

lemma ptext_from_cuts:
  "ptext_from xs es i used =
     concat (map gtext (cuts xs es i)) @ otext (take (used - (if es = [] then i else last es))
       (drop (if es = [] then i else last es) xs))"
  by (induction es arbitrary: i) auto

lemma write_params_text:
  assumes ok: "params_ok q" and "g \<le> pr_groups q" "i + n = pr_used q"
    "sorted_wrt (<) (i # drop g (pr_closed q))"
  shows "write_params q i n g = Some (ptext_from (pr_values q) (drop g (pr_closed q)) i (pr_used q))"
  using assms(2-)
proof (induction n arbitrary: i g)
  case 0
  note pok = ok [unfolded params_ok_def]
  have "drop g (pr_closed q) = []"
  proof (rule ccontr)
    assume "drop g (pr_closed q) \<noteq> []"
    then obtain e where e: "e \<in> set (drop g (pr_closed q))" by (meson list.set_sel(1))
    then have "i < e" using 0 by auto
    moreover have "e \<le> pr_used q" using cut_ok_le [of _ _ _ e] pok e by (meson in_set_dropD)
    ultimately show False using 0 by simp
  qed
  then show ?case using 0 by simp
next
  case (Suc n)
  note pok = ok [unfolded params_ok_def]
  have i: "i < pr_used q" "pr_used q \<le> 32" using Suc.prems groups_le_used(2) [OF ok] by auto
  have v: "arr_get (pr_values q) i = Some (pr_values q ! i)" using i pok by simp
  show ?case
  proof (cases "drop g (pr_closed q)")
    case Nil
    then have g: "g = pr_groups q" using Suc.prems pok by (simp add: pr_closed_def)
    have IH: "write_params q (i + 1) n g = Some (ptext_from (pr_values q) [] (i + 1) (pr_used q))"
      using Suc.IH [of g "i + 1"] Suc.prems Nil by simp
    then show ?thesis using v write_number_dec g IH Nil i pok by (simp add: take_drop_Cons)
  next
    case (Cons e es)
    have g: "g < pr_groups q"
    proof (rule ccontr)
      assume "\<not> g < pr_groups q"
      then have "drop g (pr_closed q) = []" by (simp add: pr_closed_def)
      with Cons show False by simp
    qed
    have e: "pr_ends q ! g = e" "drop (g + 1) (pr_closed q) = es"
      using nth_via_drop [OF Cons] Cons g by (simp_all add: pr_closed_def) (metis drop_Suc list.sel(3) tl_drop)
    have lt: "i < e" "sorted_wrt (<) (e # es)" using Suc.prems(3) Cons by auto
    have ends: "arr_get (pr_ends q) g = Some e" using e(1) g pok by simp
    show ?thesis
    proof (cases "e = i + 1")
      case True
      have "write_params q (i + 1) n (g + 1) = Some (ptext_from (pr_values q) es e (pr_used q))"
        using Suc.IH [of "g + 1" "i + 1"] Suc.prems e(2) lt g True by simp
      moreover have "take (e - i) (drop i (pr_values q)) = [pr_values q ! i]"
        using True take_drop_Cons [of i "pr_values q" e] i pok by simp
      ultimately show ?thesis using v write_number_dec g ends Cons True by simp
    next
      case False
      have IH: "write_params q (i + 1) n g = Some (ptext_from (pr_values q) (e # es) (i + 1) (pr_used q))"
      proof -
        have "sorted_wrt (<) (Suc i # e # es)" using lt False by fastforce
        then show ?thesis using Suc.IH [of g "i + 1"] Suc.prems(1,2) Cons by simp
      qed
      have t: "take (e - i) (drop i (pr_values q)) =
          pr_values q ! i # take (e - (i + 1)) (drop (i + 1) (pr_values q))"
        using take_drop_Cons [of i "pr_values q" e] i pok lt by simp
      have "e \<le> pr_used q" using cut_ok_le [of "pr_values q" "pr_closed q" "pr_used q" e] pok Cons
        by (metis in_set_dropD list.set_intros(1))
      then have "take (e - (i + 1)) (drop (i + 1) (pr_values q)) \<noteq> []"
        using False lt i pok by auto
      with IH t show ?thesis using v write_number_dec g ends Cons False by simp
    qed
  qed
qed

lemma write_params_abs:
  assumes "params_ok q"
  shows "write_params q 0 (pr_used q) 0 = Some (concat (map gtext (groups_of q)) @ otext (open_of q))"
  using write_params_text [OF assms, of 0 0 "pr_used q"] assms
  by (simp add: ptext_from_cuts groups_of_def open_of_def cur_def lastend_def params_ok_def)

lemma write_osc_args_cuts:
  "sorted (s # es) \<Longrightarrow> \<forall>e \<in> set es. e \<le> n \<Longrightarrow> s \<le> n \<Longrightarrow> n \<le> length xs \<Longrightarrow>
   write_osc_args xs es s n =
     Some (concat (map (\<lambda>a. a @ [0x3B]) (cuts xs es s)) @
       take (n - (if es = [] then s else last es)) (drop (if es = [] then s else last es) xs))"
  by (induction es arbitrary: s) auto

lemma write_osc_args_abs:
  assumes "osc_ok N p"
  shows "write_osc_args (vp_osc p) (osc_closed p) 0 (vp_osc_len p) = Some (osc_text (fst (abs_osc p)) (snd (abs_osc p)))"
  using write_osc_args_cuts [of 0 "osc_closed p" "vp_osc_len p" "vp_osc p"] assms
    cut_ok_le [of "vp_osc p" "osc_closed p" "vp_osc_len p"]
  by (simp add: osc_ok_def cut_ok_def osc_text_def abs_osc_def cur_def lastend_def)

lemma pointer_prefix_abs:
  assumes o: "osc_ok N p"
  shows "pointer_prefix p =
    Some (fst (abs_osc p) = [] \<and> take (length (snd (abs_osc p))) [0x32, 0x32] = snd (abs_osc p))"
proof -
  have a: "fst (abs_osc p) = [] \<longleftrightarrow> vp_osc_args p = 0"
    using length_abs_args [OF o] by auto
  have "snd (abs_osc p) = take (vp_osc_len p) (vp_osc p)" if "vp_osc_args p = 0"
    using that by (simp add: abs_osc_def osc_closed_def cur_def)
  moreover have "vp_osc_len p \<le> length (vp_osc p)" using o by (simp add: osc_ok_def cut_ok_def)
  ultimately show ?thesis unfolding pointer_prefix_def a by auto
qed

lemma write_osc_prefix_abs:
  assumes o: "osc_ok N p" and st: "vp_state p = Osc \<or> vp_state p = OscEscape"
  shows "write_osc_prefix p =
    Some ([0x1B, 0x5D] @ osc_body N (abs_vosc p) @ (if vp_state p = OscEscape then [0x1B] else []))"
proof -
  obtain args c where ac: "abs_osc p = (args, c)" by fastforce
  let ?pp = "args = [] \<and> take (length c) [0x32, 0x32] = c"
  have N: "length (vp_osc p) = N" "3 \<le> N" using o by (simp_all add: osc_ok_def)
  have sl: "arr_slice (vp_osc_ends p) 0 (vp_osc_args p) = Some (osc_closed p)"
    using o by (simp add: osc_ok_def osc_closed_def)
  have noover: "\<not> vp_osc_overflow p" if ?pp
  proof
    assume over: "vp_osc_overflow p"
    have "vp_osc_args p = 0" using length_abs_args [OF o] ac that by simp
    then have "vp_osc_len p = N" using o st over by (auto simp: osc_ok_def)
    then have "length c = N" using length_abs_osc [OF o] ac that by simp
    moreover have "length c \<le> 2"
      using arg_cong [OF conjunct2 [OF that], of length] by simp
    ultimately show False using N by simp
  qed
  have "osc_body N (abs_vosc p) =
      (if vpointer args \<or> ?pp then
         if vp_osc_overflow p then [0x32, 0x32, 0x3B] @ replicate (N + 1) 0x78 else osc_text args c
       else [])"
    using noover ac by (auto simp: osc_body_def abs_vosc_def pointer_start_def)
  then show ?thesis
    using pointer_prefix_abs [OF o] is_pointer_osc_ok [OF o] write_osc_args_abs [OF o] ac N sl
    by (simp add: write_osc_prefix_def)
qed

lemma write_header_prefix_abs:
  assumes ok: "vt_ok N p" and st: "vp_state p = header_state dcs ph"
  shows "write_header_prefix p =
    Some ((if dcs then [0x1B, 0x50] else [0x1B, 0x5B]) @
      hdr_text (vp_ignored p \<and> pr_used (vp_params p) = 32) ph (abs_hdr p))"
proof -
  have pok: "params_ok (vp_params p)" using ok by (simp add: vt_ok_def)
  have sl: "arr_slice (vp_intermediates p) 0 (vp_intermediate_len p) = Some (abs_inter p)"
    using ok by (simp add: vt_ok_def abs_inter_def)
  have st': "(vp_state p \<in> {DcsStart, DcsNumbers, DcsCollect}) = dcs"
    "(vp_state p \<in> {CsiNumbers, DcsNumbers}) = (ph = PNumbers)"
    unfolding st by (cases dcs; cases ph; simp)+
  have u: "h_used (abs_hdr p) = pr_used (vp_params p)" by (rule h_used_abs [OF pok])
  have sel: "h_groups (abs_hdr p) = groups_of (vp_params p)" "h_open (abs_hdr p) = open_of (vp_params p)"
    "h_number (abs_hdr p) = vp_number p" "h_inter (abs_hdr p) = abs_inter p"
    "h_ignored (abs_hdr p) \<and> pr_used (vp_params p) < 32 \<longleftrightarrow> vp_ignored p \<and> pr_used (vp_params p) < 32"
    by (auto simp: abs_hdr_def)
  show ?thesis
    unfolding write_header_prefix_def Let_def st' sl write_params_abs [OF pok] write_number_dec
      hdr_text_def split_private_def u sel
    by simp
qed

lemma replay_prefix_abs:
  assumes ok: "vt_ok N p"
  shows "replay_prefix p = Some (vprefix N (vp_ignored p \<and> pr_used (vp_params p) = 32) (abs_vt p))"
proof -
  have o: "osc_ok N p" and u: "vp_utf8_len p \<le> length (vp_utf8 p)"
    and i: "vp_intermediate_len p \<le> length (vp_intermediates p)"
    using ok by (auto simp: vt_ok_def utf8_ok_def)
  show ?thesis
    using write_osc_prefix_abs [OF o] u i
      write_header_prefix_abs [OF ok, of False PStart] write_header_prefix_abs [OF ok, of False PNumbers]
      write_header_prefix_abs [OF ok, of False PCollect] write_header_prefix_abs [OF ok, of True PStart]
      write_header_prefix_abs [OF ok, of True PNumbers] write_header_prefix_abs [OF ok, of True PCollect]
    by (cases "vp_state p") (simp_all add: replay_prefix_def vprefix_def abs_vt_def abs_inter_def)
qed

section \<open>Properties\<close>

lemma new_parser_ok: "3 \<le> N \<Longrightarrow> vt_ok N (new_with_size N) \<and> abs_vt (new_with_size N) = VText []"
  by (simp add: vt_ok_new abs_new_parser)

text \<open>
  C1.  The parser never panics: whatever bytes arrive, in whatever chunks, every array access is in
  range and no unreachable arm is reached; and the replay prefix of the state reached is computed.
\<close>

theorem vt_never_panics:
  assumes "3 \<le> N"
  shows "\<exists>p ev pre. runs advance chunks (new_with_size N) = Some (p, ev) \<and> replay_prefix p = Some pre"
proof -
  obtain p ev where "runs advance chunks (new_with_size N) = Some (p, ev)" "vt_ok N p"
    using vt.runs_sim [OF vt_ok_new [OF assms], of chunks] by blast
  then show ?thesis using replay_prefix_abs by blast
qed

theorem vt_never_panics_witness:
  "\<exists>p ev pre. runs advance [[0x1B, 0x5B], [0x33, 0x31, 0x6D]] (new_with_size 1024) = Some (p, ev) \<and>
     replay_prefix p = Some pre"
  using vt_never_panics [of 1024 "[[0x1B, 0x5B], [0x33, 0x31, 0x6D]]"] by simp

text \<open>
  C2.  The array parser refines the abstract decoder: from a fresh parser, any chunks lead to a state
  that stands for the abstract state, with the same callbacks in the same order.
\<close>

theorem vt_refines_decoder:
  assumes "3 \<le> N" "runs advance chunks (new_with_size N) = Some (p, ev)"
  shows "aruns (vadvance N) chunks (VText []) = (abs_vt p, ev)"
  using vt.runs_sim [OF vt_ok_new [OF assms(1)], of chunks] assms(2) by (simp add: abs_new_parser)

theorem vt_refines_decoder_witness:
  "\<exists>p ev. runs advance [[0x1B], [0x5B, 0x31]] (new_with_size 3) = Some (p, ev) \<and>
     aruns (vadvance 3) [[0x1B], [0x5B, 0x31]] (VText []) = (abs_vt p, ev)"
proof -
  obtain p ev where 1: "runs advance [[0x1B], [0x5B, 0x31]] (new_with_size 3) = Some (p, ev)"
    using vt.runs_sim [OF vt_ok_new [of 3], of "[[0x1B], [0x5B, 0x31]]"] by auto
  from vt_refines_decoder [OF _ 1] 1 show ?thesis by simp
qed

lemma replayable_iff:
  assumes ok: "vt_ok N p"
  shows "replayable (abs_vt p) \<longleftrightarrow>
    (vp_state p = Osc \<longrightarrow> is_pointer_osc p = Some True \<or> pointer_prefix p = Some True)"
proof -
  have o: "osc_ok N p" using ok by (simp add: vt_ok_def)
  have "pointer_start (abs_osc p) \<longleftrightarrow> is_pointer_osc p = Some True \<or> pointer_prefix p = Some True"
    using is_pointer_osc_ok [OF o] pointer_prefix_abs [OF o]
    by (auto simp: pointer_start_def split: prod.splits)
  then show ?thesis
    using is_pointer_osc_ok [OF o]
    by (cases "vp_state p") (auto simp: replayable_def abs_vt_def abs_vosc_def)
qed

lemma z_used: "vt_ok N p \<Longrightarrow> abs_vt p = VHeader dcs ph h \<Longrightarrow> pr_used (vp_params p) = 32 \<Longrightarrow> h_used h = 32"
  using h_used_abs [of p] by (cases "vp_state p") (auto simp: abs_vt_def vt_ok_def)

text \<open>
  C3.  Hydration is exact: feeding the replay prefix of any reachable parser to a fresh parser gives
  a parser that answers every later sequence of chunks with exactly the callbacks of the original,
  including OSC 22 requests and their overflow.  The replay itself is silent, except for the hook of
  an open device control string.  The one state excluded is an operating system command that is
  neither an OSC 22 request nor the beginning of one.
\<close>

theorem replay_prefix_exact:
  assumes reach: "vt_reachable N p" and N: "3 \<le> N"
    and osc: "vp_state p = Osc \<longrightarrow> is_pointer_osc p = Some True \<or> pointer_prefix p = Some True"
  shows "\<exists>pre q. replay_prefix p = Some pre \<and>
    advance pre (new_with_size N) =
      Some (q, if vp_state p = DcsData then [Hook [[0]] [] False 0x71] else []) \<and>
    (\<forall>chunks. map_option snd (runs advance chunks q) = map_option snd (runs advance chunks p))"
proof -
  have ok: "vt_ok N p" by (rule reachable_vt_ok [OF reach N])
  let ?z = "vp_ignored p \<and> pr_used (vp_params p) = 32"
  let ?pre = "vprefix N ?z (abs_vt p)"
  have "vconsume_all N ?pre (VText []) =
      (abs_vt p, if abs_vt p = VDcsData then [Hook [[0]] [] False 0x71] else [])"
    using reachable_v_ok [OF reach N] N osc replayable_iff [OF ok] z_used [OF ok]
    by (intro prefix_rebuilds) auto
  moreover have "abs_vt p = VDcsData \<longleftrightarrow> vp_state p = DcsData"
    by (cases "vp_state p") (simp_all add: abs_vt_def)
  ultimately have "vadvance N ?pre (abs_vt (new_with_size N)) =
      (abs_vt p, if vp_state p = DcsData then [Hook [[0]] [] False 0x71] else [])"
    by (simp add: abs_new_parser vadvance_def)
  then obtain q where "advance ?pre (new_with_size N) =
      Some (q, if vp_state p = DcsData then [Hook [[0]] [] False 0x71] else [])"
    "vt_ok N q" "abs_vt q = abs_vt p"
    using vt.sim [OF vt_ok_new [OF N], of ?pre] by auto
  with replay_prefix_abs [OF ok] vt.same_answers [OF _ ok] show ?thesis by blast
qed

text \<open>The parser that has read \<open>ESC [ 3 1\<close>.\<close>

definition sample_parser :: parser where
  "sample_parser = fst (the (advance [0x1B, 0x5B, 0x33, 0x31] (new_with_size 8)))"

lemma sample_parser_facts:
  "advance [0x1B, 0x5B, 0x33, 0x31] (new_with_size 8) = Some (sample_parser, [])"
  "vt_ok 8 sample_parser" "vp_state sample_parser = CsiNumbers"
proof -
  have a: "vadvance 8 [0x1B, 0x5B, 0x33, 0x31] (VText []) =
      (VHeader False PNumbers (hdr_empty\<lparr>h_number := 31\<rparr>), [])"
    by (simp add: vadvance_def vconsume_def vdispatch_def vescape_def vheader_def vexit_def hparam_def
        hdr_empty_def h_used_def hnumber_def saturating_add_def saturating_mul_def)
  obtain p ev where p: "advance [0x1B, 0x5B, 0x33, 0x31] (new_with_size 8) = Some (p, ev)" "vt_ok 8 p"
    "vadvance 8 [0x1B, 0x5B, 0x33, 0x31] (abs_vt (new_with_size 8)) = (abs_vt p, ev)"
    using vt.sim [OF vt_ok_new [of 8], of "[0x1B, 0x5B, 0x33, 0x31]"] by auto
  have "ev = []" "abs_vt p = VHeader False PNumbers (hdr_empty\<lparr>h_number := 31\<rparr>)"
    using p(3) a by (simp_all add: abs_new_parser)
  then show "advance [0x1B, 0x5B, 0x33, 0x31] (new_with_size 8) = Some (sample_parser, [])"
    "vt_ok 8 sample_parser" "vp_state sample_parser = CsiNumbers"
    using p(1,2) by (simp_all add: sample_parser_def) (cases "vp_state p", simp_all add: abs_vt_def)
qed

lemma sample_parser_reachable: "vt_reachable 8 sample_parser"
  by (rule vt_step [OF vt_start sample_parser_facts(1)])

theorem replay_prefix_exact_witness:
  "\<exists>pre q. replay_prefix sample_parser = Some pre \<and> advance pre (new_with_size 8) = Some (q, []) \<and>
    (\<forall>chunks. map_option snd (runs advance chunks q) = map_option snd (runs advance chunks sample_parser))"
  using replay_prefix_exact [OF sample_parser_reachable] by (simp add: sample_parser_facts(3))

subsection \<open>Bounded prefixes\<close>

lemma length_dec: "n < 10 ^ Suc k \<Longrightarrow> length (dec n) \<le> Suc k"
proof (induction k arbitrary: n)
  case 0
  then show ?case by (simp add: dec.simps)
next
  case (Suc k)
  have "n div 10 < 10 ^ Suc k" using Suc.prems by (simp add: less_mult_imp_div_less mult.commute)
  then have "length (dec (n div 10)) \<le> Suc k" by (rule Suc.IH)
  then show ?case by (subst dec.simps) simp
qed

lemma length_dec_u16: "length (dec (unat (v :: u16))) \<le> 5"
  using length_dec [of "unat v" 4] unsigned_less [of v, where 'a = nat] by simp

lemma length_gtext: "length (gtext vs) \<le> 6 * length vs" and length_otext: "length (otext vs) \<le> 6 * length vs"
proof (induction vs)
  case (Cons v vs)
  case 1
  then show ?case using Cons length_dec_u16 [of v] by simp
next
  case (Cons v vs)
  case 2
  then show ?case using Cons length_dec_u16 [of v] by simp
qed simp_all

lemma length_gtexts: "length (concat (map gtext gs)) \<le> 6 * length (concat gs)"
  using length_gtext by (induction gs) (auto intro: add_mono simp: algebra_simps)

lemma length_hdr_text:
  assumes "hdr_ok ph h" "z \<longrightarrow> h_used h = 32"
  shows "length (hdr_text z ph h) \<le> 200"
proof -
  have u: "h_used h \<le> 32" "length (h_inter h) \<le> 2"
    using assms by (simp_all add: hdr_ok_def inter_ok_def)
  have ptext: "length (concat (map gtext (h_groups h)) @ otext (h_open h)) \<le> 6 * 32"
    using length_gtexts [of "h_groups h"] length_otext [of "h_open h"] u(1)
    by (simp add: h_used_def)
  have n: "length (if h_used h \<noteq> 0 \<or> h_number h \<noteq> 0 \<or> ph = PNumbers then dec (unat (h_number h)) else []) \<le> 5"
    using length_dec_u16 [of "h_number h"] by simp
  have "length (hdr_text z ph h) =
      length (h_inter h) + length (concat (map gtext (h_groups h)) @ otext (h_open h))
      + length (if h_used h \<noteq> 0 \<or> h_number h \<noteq> 0 \<or> ph = PNumbers then dec (unat (h_number h)) else [])
      + (if z then 1 else 0) + (if h_ignored h \<and> h_used h < 32 then 1 else 0)"
    unfolding hdr_text_def Let_def by auto
  moreover have "(if z then 1 else 0) + (if h_ignored h \<and> h_used h < 32 then 1 else 0) \<le> (1 :: nat)"
    using assms(2) by auto
  ultimately show ?thesis using u(2) ptext n by linarith
qed

lemma length_closed_args: "length (concat (map (\<lambda>a. a @ [b]) args)) = length (concat args) + length args"
  by (induction args) auto

lemma length_osc_body: "vosc_ok N s \<Longrightarrow> length (osc_body N s) \<le> N + 16"
  by (auto simp: osc_body_def vosc_ok_def osc_text_def length_closed_args split: option.splits)

lemma length_vprefix:
  assumes "v_ok N v" "\<And>dcs ph h. v = VHeader dcs ph h \<Longrightarrow> z \<Longrightarrow> h_used h = 32"
  shows "length (vprefix N z v) \<le> max 202 (N + 19)"
proof (cases v)
  case (VText s)
  then show ?thesis using assms utf8_partial_short [of s] by (auto simp: vprefix_def v_ok_simps)
next
  case (VEscape c xs ig)
  then show ?thesis using assms by (auto simp: vprefix_def v_ok_def)
next
  case (VHeader dcs ph h)
  then have "length (hdr_text z ph h) \<le> 200"
    using assms by (intro length_hdr_text) (auto simp: v_ok_simps)
  then show ?thesis using VHeader by (simp add: vprefix_def)
next
  case (VOsc s)
  then show ?thesis using assms length_osc_body [of N s] by (simp add: vprefix_def v_ok_simps)
next
  case (VOscEscape s)
  then show ?thesis using assms length_osc_body [of N s] by (simp add: vprefix_def v_ok_simps)
qed (simp_all add: vprefix_def)

text \<open>
  C4.  The replay prefix stays bounded by the OSC capacity plus a fixed header: with the default
  buffer of 1024 bytes it never exceeds 1043 bytes, whatever has been received.
\<close>

theorem replay_prefix_bounded:
  assumes "vt_reachable N p" "3 \<le> N" "replay_prefix p = Some pre"
  shows "length pre \<le> max 202 (N + 19)"
proof -
  have ok: "vt_ok N p" by (rule reachable_vt_ok [OF assms(1,2)])
  have "length (vprefix N (vp_ignored p \<and> pr_used (vp_params p) = 32) (abs_vt p)) \<le> max 202 (N + 19)"
    using reachable_v_ok [OF assms(1,2)] z_used [OF ok] by (intro length_vprefix) auto
  then show ?thesis using assms(3) replay_prefix_abs [OF ok] by simp
qed

theorem replay_prefix_bounded_witness:
  "\<exists>pre. replay_prefix sample_parser = Some pre \<and> length pre \<le> 202"
proof -
  obtain pre where pre: "replay_prefix sample_parser = Some pre"
    using replay_prefix_abs [OF sample_parser_facts(2)] by auto
  then show ?thesis using replay_prefix_bounded [OF sample_parser_reachable _ pre] by auto
qed

subsection \<open>Dispatched sequences\<close>

text \<open>What the abstract decoder does from the ground state, the parser does from any ground state.\<close>

lemma ground_run:
  assumes "vt_reachable N p" "3 \<le> N" "vp_state p = Text" "vp_utf8_len p = 0"
    and "vconsume_all N bs (VText []) = (VText [], ev)"
  shows "\<exists>p'. advance bs p = Some (p', ev) \<and> vp_state p' = Text"
proof -
  have "abs_vt p = VText []" using assms by (simp add: abs_vt_def)
  then obtain p' where "advance bs p = Some (p', ev)" "abs_vt p' = VText []"
    using vt.sim [OF reachable_vt_ok [OF assms(1,2)], of bs] assms(5) by (auto simp: vadvance_def)
  moreover then have "vp_state p' = Text" by (cases "vp_state p'") (simp_all add: abs_vt_def)
  ultimately show ?thesis by blast
qed

lemma feeds_then: "feeds N xs u v \<Longrightarrow> vconsume N b v = (w, ev) \<Longrightarrow> vconsume_all N (xs @ [b]) u = (w, ev)"
  by (simp add: feeds_def vconsume_all_append)

text \<open>
  C5.  A control sequence is dispatched exactly as spelled: a private marker, groups of values with
  semicolons between groups and colons inside them, and a final byte give one CSI callback with these
  groups, the marker, no ignore flag and that byte, for every number of values up to the 32 that the
  storage holds; the parser is back in the ground state.
\<close>

theorem csi_dispatch_exact:
  assumes "vt_reachable N p" "3 \<le> N" "vp_state p = Text" "vp_utf8_len p = 0"
    and gs: "\<forall>g \<in> set gs. g \<noteq> []" and len: "length (concat gs) + length g < 32"
    and m: "m = [] \<or> (\<exists>b. private_byte b \<and> m = [b])" and f: "between 0x40 0x7E f"
  shows "\<exists>p'. advance ([0x1B, 0x5B] @ m @ (concat (map gtext gs) @ otext g) @ dec (unat n) @ [f]) p =
      Some (p', [CsiDispatch (gs @ [g @ [n]]) m False f]) \<and> vp_state p' = Text"
proof -
  let ?h = "\<lparr>h_groups = gs, h_open = g, h_number = n, h_inter = m, h_ignored = False\<rparr>"
  let ?p0 = "if m = [] then PStart else PNumbers"
  have u: "h_used ?h = length (concat gs) + length g" by (simp add: h_used_def)
  have "feeds N ((concat (map gtext gs) @ otext g) @ dec (unat n) @ [])
      (VHeader False ?p0 (hdr_empty\<lparr>h_inter := m\<rparr>)) (VHeader False PNumbers ?h)"
    using feeds_numbers [where h = ?h and z = False and ph = ?p0 and pr = True and N = N and dcs = False
        and m = m] gs len by (simp add: u)
  from feeds_append [OF feeds_append [OF feeds_intro(2) feeds_mark [OF m]] this]
  have "feeds N ([0x1B, 0x5B] @ m @ (concat (map gtext gs) @ otext g) @ dec (unat n)) (VText [])
      (VHeader False PNumbers ?h)" by simp
  moreover have "vconsume N f (VHeader False PNumbers ?h) = (VText [], [CsiDispatch (gs @ [g @ [n]]) m False f])"
  proof -
    have "\<not> f \<le> 0x1F" "\<not> f \<le> 0x2F" "\<not> f \<le> 0x3F" "f \<le> 0x7E" using f by (auto simp: word_le_nat_alt)
    then show ?thesis using len by (simp add: vconsume_header vheader_def hfinal_def u)
  qed
  ultimately have "vconsume_all N (([0x1B, 0x5B] @ m @ (concat (map gtext gs) @ otext g) @ dec (unat n)) @ [f]) (VText []) =
      (VText [], [CsiDispatch (gs @ [g @ [n]]) m False f])"
    by (rule feeds_then)
  from ground_run [OF assms(1-4) this] show ?thesis by simp
qed

lemma fresh_ground: "vp_state (new_with_size N) = Text" "vp_utf8_len (new_with_size N) = 0"
  by (simp_all add: new_with_size_def)

text \<open>\<open>ESC [ ? 38 : 5 ; 1 h\<close>.\<close>

theorem csi_dispatch_exact_witness:
  "\<exists>p'. advance ([0x1B, 0x5B] @ [0x3F] @ (concat (map gtext [[38, 5]]) @ otext []) @ dec (unat (1 :: u16)) @ [0x68])
      (new_with_size 1024) = Some (p', [CsiDispatch [[38, 5], [1]] [0x3F] False 0x68]) \<and> vp_state p' = Text"
  using csi_dispatch_exact [OF vt_start _ fresh_ground, of 1024 "[[38, 5]]" "[]" "[0x3F]" "0x68" 1]
  by (simp add: private_byte_def)

text \<open>
  C6.  An operating system command is dispatched exactly as spelled: up to 16 arguments of printable
  bytes without semicolons that fit the buffer, separated by semicolons and terminated by BEL, give
  one OSC callback with exactly these arguments; this covers OSC 22 requests.
\<close>

theorem osc_dispatch_exact:
  assumes "vt_reachable N p" "3 \<le> N" "vp_state p = Text" "vp_utf8_len p = 0"
    and len: "length args < 16" "length (concat args) + length c \<le> N"
    and plain: "\<forall>a \<in> set args. list_all osc_plain a" "list_all osc_plain c"
  shows "\<exists>p'. advance ([0x1B, 0x5D] @ osc_text args c @ [0x07]) p =
      Some (p', [OscDispatch (args @ [c]) True]) \<and> vp_state p' = Text"
proof -
  have "vosc_ok N (Some (args, c))" using len plain by (simp add: vosc_ok_def)
  from feeds_append [OF feeds_intro(4) feeds_osc_text [OF this]]
  have 1: "feeds N ([0x1B, 0x5D] @ osc_text args c) (VText []) (VOsc (Some (args, c)))" .
  have "vconsume N 0x07 (VOsc (Some (args, c))) = (VText [], [OscDispatch (args @ [c]) True])"
    using len(1) by (simp add: vconsume_def vdispatch_def osc_dispatch_def osc_args_def)
  from ground_run [OF assms(1-4) feeds_then [OF 1 this]] show ?thesis by simp
qed

text \<open>\<open>ESC ] 22 ; hand BEL\<close>.\<close>

theorem osc_dispatch_exact_witness:
  "\<exists>p'. advance ([0x1B, 0x5D] @ osc_text [[0x32, 0x32]] [0x68, 0x61, 0x6E, 0x64] @ [0x07]) (new_with_size 1024) =
      Some (p', [OscDispatch [[0x32, 0x32], [0x68, 0x61, 0x6E, 0x64]] True]) \<and> vp_state p' = Text"
  using osc_dispatch_exact [OF vt_start _ fresh_ground, of 1024 "[[0x32, 0x32]]" "[0x68, 0x61, 0x6E, 0x64]"]
  by (simp add: osc_plain_def)

subsection \<open>The state that a prefix does not rebuild\<close>

text \<open>
  C7.  The exclusion in the hydration theorem is needed: after \<open>ESC ] 2 ;\<close> the prefix is \<open>ESC ]\<close> alone.  When the rest of that title is \<open>22;x\<close>, the original
  parser dispatches the arguments \<open>2\<close>, \<open>22\<close>, \<open>x\<close>, and the hydrated one an OSC 22 request for \<open>x\<close>.
\<close>

theorem replay_forges_pointer_request:
  "\<exists>p q. advance [0x1B, 0x5D, 0x32, 0x3B] (new_with_size 8) = Some (p, []) \<and>
    replay_prefix p = Some [0x1B, 0x5D] \<and> advance [0x1B, 0x5D] (new_with_size 8) = Some (q, []) \<and>
    map_option snd (advance [0x32, 0x32, 0x3B, 0x78, 0x07] p) =
      Some [OscDispatch [[0x32], [0x32, 0x32], [0x78]] True] \<and>
    map_option snd (advance [0x32, 0x32, 0x3B, 0x78, 0x07] q) =
      Some [OscDispatch [[0x32, 0x32], [0x78]] True]"
proof -
  note ev = vadvance_def vconsume_def vdispatch_def vescape_def vexit_def vosc_push_def
    osc_dispatch_def osc_args_def vpointer_def
  have ok: "vt_ok 8 (new_with_size 8)" by (simp add: vt_ok_new)
  have a: "vadvance 8 [0x1B, 0x5D, 0x32, 0x3B] (abs_vt (new_with_size 8)) = (VOsc (Some ([[0x32]], [])), [])"
    "vadvance 8 [0x1B, 0x5D] (abs_vt (new_with_size 8)) = (VOsc (Some ([], [])), [])"
    "snd (vadvance 8 [0x32, 0x32, 0x3B, 0x78, 0x07] (VOsc (Some ([[0x32]], [])))) =
      [OscDispatch [[0x32], [0x32, 0x32], [0x78]] True]"
    "snd (vadvance 8 [0x32, 0x32, 0x3B, 0x78, 0x07] (VOsc (Some ([], [])))) =
      [OscDispatch [[0x32, 0x32], [0x78]] True]"
    by (simp_all add: abs_new_parser ev)
  obtain p where p: "advance [0x1B, 0x5D, 0x32, 0x3B] (new_with_size 8) = Some (p, [])" "vt_ok 8 p"
    "abs_vt p = VOsc (Some ([[0x32]], []))"
    using vt.sim [OF ok, of "[0x1B, 0x5D, 0x32, 0x3B]"] a(1) by auto
  obtain q where q: "advance [0x1B, 0x5D] (new_with_size 8) = Some (q, [])" "vt_ok 8 q"
    "abs_vt q = VOsc (Some ([], []))"
    using vt.sim [OF ok, of "[0x1B, 0x5D]"] a(2) by auto
  have "replay_prefix p = Some [0x1B, 0x5D]"
    using replay_prefix_abs [OF p(2)] p(3)
    by (simp add: vprefix_def osc_body_def pointer_start_def vpointer_def)
  moreover have "map_option snd (advance [0x32, 0x32, 0x3B, 0x78, 0x07] p) =
      Some [OscDispatch [[0x32], [0x32, 0x32], [0x78]] True]"
    using vt.sim [OF p(2), of "[0x32, 0x32, 0x3B, 0x78, 0x07]"] a(3) p(3) by auto
  moreover have "map_option snd (advance [0x32, 0x32, 0x3B, 0x78, 0x07] q) =
      Some [OscDispatch [[0x32, 0x32], [0x78]] True]"
    using vt.sim [OF q(2), of "[0x32, 0x32, 0x3B, 0x78, 0x07]"] a(4) q(3) by auto
  ultimately show ?thesis using p(1) q(1) by blast
qed

end
