(* ===== verification/Varint.thy ===== *)
theory Varint
  imports Bmux_Prelude
begin

text \<open>
  Variable-length integers, \<^verbatim>\<open>packages/codec/src/varint.rs\<close>: unsigned LEB128 with ZigZag for
  signed types.  An encoder is the list of bytes it appends to the output.  \<^verbatim>\<open>usize\<close> is the
  64-bit word of the targets that bmux supports, so its checked conversions succeed.
\<close>

section \<open>Encoding\<close>

lemma unat_drop7: "unat (drop_bit 7 v) = unat v div 128" for v :: u64
proof -
  have "take_bit 64 (unat v) = unat v"
    using unsigned_less [of v, where 'a = nat] by (intro take_bit_nat_eq_self) simp
  then show ?thesis by (simp add: unsigned_drop_bit_eq drop_bit_nat_def)
qed

lemma drop_bit_less: "drop_bit 7 v \<noteq> 0 \<Longrightarrow> unat (drop_bit 7 v) < unat v" for v :: u64
proof -
  assume "drop_bit 7 v \<noteq> 0"
  then have "v \<noteq> 0" by auto
  then show ?thesis by (simp add: unat_drop7 unat_gt_0)
qed

function encode_u64 :: "u64 \<Rightarrow> bytes" where
  "encode_u64 v =
     (let byte = ucast (v AND 0x7F); v' = drop_bit 7 v in
      if v' \<noteq> 0 then (byte OR 0x80) # encode_u64 v' else [byte])"
  by pat_completeness auto
termination
  by (relation "measure unat") (use drop_bit_less in auto)

declare encode_u64.simps [simp del]

definition encode_u32 :: "u32 \<Rightarrow> bytes" where
  "encode_u32 v = encode_u64 (ucast v)"

definition encode_u16 :: "u16 \<Rightarrow> bytes" where
  "encode_u16 v = encode_u64 (ucast v)"

definition encode_usize :: "nat \<Rightarrow> bytes" where
  "encode_usize n = encode_u64 (word_of_nat n)"

definition zigzag_encode_i64 :: "i64 \<Rightarrow> u64" where
  "zigzag_encode_i64 v = push_bit 1 v XOR signed_drop_bit 63 v"

definition zigzag_encode_i32 :: "i32 \<Rightarrow> u64" where
  "zigzag_encode_i32 v = zigzag_encode_i64 (scast v)"

definition zigzag_encode_i16 :: "i16 \<Rightarrow> u64" where
  "zigzag_encode_i16 v = zigzag_encode_i64 (scast v)"

definition encode_i64 :: "i64 \<Rightarrow> bytes" where
  "encode_i64 v = encode_u64 (zigzag_encode_i64 v)"

definition encode_i32 :: "i32 \<Rightarrow> bytes" where
  "encode_i32 v = encode_u64 (zigzag_encode_i32 v)"

definition encode_i16 :: "i16 \<Rightarrow> bytes" where
  "encode_i16 v = encode_u64 (zigzag_encode_i16 v)"

section \<open>Decoding\<close>

fun decode_u64_loop :: "bytes \<Rightarrow> u64 \<Rightarrow> nat \<Rightarrow> nat \<Rightarrow> (u64 \<times> nat) option" where
  "decode_u64_loop [] result shift i = None"
| "decode_u64_loop (byte # rest) result shift i =
     (if shift \<ge> 70 then None
      else let result = result OR push_bit shift (ucast (byte AND 0x7F)) in
        if byte AND 0x80 = 0 then Some (result, i + 1)
        else decode_u64_loop rest result (shift + 7) (i + 1))"

definition decode_u64 :: "bytes \<Rightarrow> (u64 \<times> nat) option" where
  "decode_u64 input = decode_u64_loop input 0 0 0"

definition decode_u32 :: "bytes \<Rightarrow> (u32 \<times> nat) option" where
  "decode_u32 input =
     do { (v, k) \<leftarrow> decode_u64 input; if unat v < 2 ^ 32 then Some (ucast v, k) else None }"

definition decode_u16 :: "bytes \<Rightarrow> (u16 \<times> nat) option" where
  "decode_u16 input =
     do { (v, k) \<leftarrow> decode_u64 input; if unat v < 2 ^ 16 then Some (ucast v, k) else None }"

definition decode_usize :: "bytes \<Rightarrow> (nat \<times> nat) option" where
  "decode_usize input = do { (v, k) \<leftarrow> decode_u64 input; Some (unat v, k) }"

definition zigzag_decode_i64 :: "u64 \<Rightarrow> i64" where
  "zigzag_decode_i64 v = drop_bit 1 v XOR (- (v AND 1))"

definition decode_i64 :: "bytes \<Rightarrow> (i64 \<times> nat) option" where
  "decode_i64 input = do { (raw, k) \<leftarrow> decode_u64 input; Some (zigzag_decode_i64 raw, k) }"

definition decode_i32 :: "bytes \<Rightarrow> (i32 \<times> nat) option" where
  "decode_i32 input =
     do {
       (raw, k) \<leftarrow> decode_u64 input;
       let signed = zigzag_decode_i64 raw;
       if - (2 ^ 31) \<le> sint signed \<and> sint signed < 2 ^ 31 then Some (scast signed, k) else None
     }"

definition decode_i16 :: "bytes \<Rightarrow> (i16 \<times> nat) option" where
  "decode_i16 input =
     do {
       (raw, k) \<leftarrow> decode_u64 input;
       let signed = zigzag_decode_i64 raw;
       if - (2 ^ 15) \<le> sint signed \<and> sint signed < 2 ^ 15 then Some (scast signed, k) else None
     }"

section \<open>Round trips\<close>

lemma length_encode_bound: "0 < n \<Longrightarrow> unat v < 2 ^ (7 * n) \<Longrightarrow> length (encode_u64 v) \<le> n"
proof (induction n arbitrary: v)
  case (Suc n)
  show ?case
  proof (cases "drop_bit 7 v = 0")
    case True
    then show ?thesis by (simp add: encode_u64.simps [of v] Let_def)
  next
    case False
    note d = unat_drop7 [of v]
    have "n \<noteq> 0"
    proof
      assume "n = 0"
      then have "unat (drop_bit 7 v) = 0" using d Suc.prems(2) by simp
      with False show False by (simp add: unat_eq_0)
    qed
    moreover have "unat (drop_bit 7 v) < 2 ^ (7 * n)"
      using Suc.prems(2) unfolding d by (simp add: less_mult_imp_div_less power_add mult.commute)
    ultimately have "length (encode_u64 (drop_bit 7 v)) \<le> n" using Suc.IH by simp
    then show ?thesis by (simp add: encode_u64.simps [of v] Let_def)
  qed
qed simp

lemma length_encode_u64: "0 < length (encode_u64 v)" "length (encode_u64 v) \<le> 10"
proof -
  show "0 < length (encode_u64 v)" by (subst encode_u64.simps) (simp add: Let_def)
  have "unat v < 2 ^ 64" using unsigned_less [of v, where 'a = nat] by simp
  then have "unat v < 2 ^ (7 * 10)" by simp
  then show "length (encode_u64 v) \<le> 10" by (intro length_encode_bound) simp_all
qed

lemma low7: "v AND 0x7F = take_bit 7 v" for v :: "'a::len word"
  by (simp add: take_bit_eq_mask mask_eq_exp_minus_1)

lemma bit7: "bit (0x80 :: 'a::len word) n \<longleftrightarrow> n = 7 \<and> 7 < LENGTH('a)"
proof -
  have "(0x80 :: 'a word) = push_bit 7 1" by simp
  then show ?thesis by (simp only: bit_push_bit_iff) (auto simp: bit_1_iff)
qed

lemma low_byte_bits:
  fixes v :: u64
  shows "(ucast (v AND 0x7F) :: u8) AND 0x80 = 0"
    "((ucast (v AND 0x7F) :: u8) OR 0x80) AND 0x80 \<noteq> 0"
    "ucast ((ucast (v AND 0x7F) :: u8) AND 0x7F) = v AND 0x7F"
    "ucast (((ucast (v AND 0x7F) :: u8) OR 0x80) AND 0x7F) = v AND 0x7F"
proof -
  show "(ucast (v AND 0x7F) :: u8) AND 0x80 = 0"
    unfolding low7 by (rule bit_word_eqI, unfold bit_and_iff bit7) (simp add: bit_simps)
  have "bit (((ucast (v AND 0x7F) :: u8) OR 0x80) AND 0x80) 7" by (simp add: bit_simps bit7)
  then show "((ucast (v AND 0x7F) :: u8) OR 0x80) AND 0x80 \<noteq> 0" by auto
  show "ucast ((ucast (v AND 0x7F) :: u8) AND 0x7F) = v AND 0x7F"
    unfolding low7 by (rule bit_word_eqI) (auto simp: bit_simps)
  then show "ucast (((ucast (v AND 0x7F) :: u8) OR 0x80) AND 0x7F) = v AND 0x7F"
    by (simp only: bit.conj_disj_distrib2) simp
qed

lemma split7: "push_bit s (v AND 0x7F) OR push_bit (s + 7) (drop_bit 7 v) = push_bit s v" for v :: u64
  unfolding low7
proof (rule bit_word_eqI)
  fix n assume "n < LENGTH(64)"
  moreover have "7 + (n - (s + 7)) = n - s" if "\<not> n - s < 7" using that by simp
  ultimately show "bit (push_bit s (take_bit 7 v) OR push_bit (s + 7) (drop_bit 7 v)) n = bit (push_bit s v) n"
    by (cases "n - s < 7") (auto simp: bit_simps)
qed

lemma decode_encode_loop:
  assumes "s + 7 * length (encode_u64 v) \<le> 76"
  shows "decode_u64_loop (encode_u64 v @ rest) r s i = Some (r OR push_bit s v, i + length (encode_u64 v))"
  using assms
proof (induction v arbitrary: r s i rule: encode_u64.induct)
  case (1 v)
  show ?case
  proof (cases "drop_bit 7 v = 0")
    case True
    then have e: "encode_u64 v = [ucast (v AND 0x7F)]" by (simp add: encode_u64.simps [of v] Let_def)
    have "push_bit s (v AND 0x7F) = push_bit s v" using split7 [of s v] True by simp
    then show ?thesis using "1.prems" by (simp add: e low_byte_bits)
  next
    case False
    then have e: "encode_u64 v = (ucast (v AND 0x7F) OR 0x80) # encode_u64 (drop_bit 7 v)"
      by (simp add: encode_u64.simps [of v] Let_def)
    have "(r OR push_bit s (v AND 0x7F)) OR push_bit (s + 7) (drop_bit 7 v) = r OR push_bit s v"
      by (simp only: or.assoc split7)
    moreover have "decode_u64_loop (encode_u64 (drop_bit 7 v) @ rest) (r OR push_bit s (v AND 0x7F)) (s + 7) (i + 1) =
        Some ((r OR push_bit s (v AND 0x7F)) OR push_bit (s + 7) (drop_bit 7 v),
          i + 1 + length (encode_u64 (drop_bit 7 v)))"
      using "1.prems" False by (intro "1.IH") (simp_all add: e)
    ultimately show ?thesis
      using "1.prems" length_encode_u64(1) [of "drop_bit 7 v"] by (simp add: e low_byte_bits)
  qed
qed

lemma decode_encode_u64: "decode_u64 (encode_u64 v @ rest) = Some (v, length (encode_u64 v))"
  using decode_encode_loop [of 0 v rest 0 0] length_encode_u64(2) [of v] by (simp add: decode_u64_def)

lemma bit_zigzag:
  "bit (zigzag_encode_i64 v) k \<longleftrightarrow> k < 64 \<and> ((1 \<le> k \<and> bit v (k - 1)) \<noteq> bit v 63)"
  unfolding zigzag_encode_i64_def bit_xor_iff bit_push_bit_iff bit_signed_drop_bit_iff
  by (cases k) (auto dest: bit_imp_le_length)

lemma zigzag_roundtrip: "zigzag_decode_i64 (zigzag_encode_i64 v) = v"
proof (rule bit_word_eqI)
  fix n assume n: "n < LENGTH(64)"
  let ?u = "zigzag_encode_i64 v"
  have "- (?u AND 1) = (if bit v 63 then - 1 else 0)"
    using bit_zigzag [of v 0] by (simp add: and_one_eq mod_2_eq_odd bit_0)
  then show "bit (zigzag_decode_i64 ?u) n = bit v n"
    using n unfolding zigzag_decode_i64_def bit_xor_iff bit_drop_bit_eq comp_def bit_zigzag
    by (cases "n = 63") auto
qed

lemma sint_scast64:
  "sint (scast (v :: i32) :: i64) = sint v" "sint (scast (w :: i16) :: i64) = sint w"
  using sint_greater_eq [of v] sint_less [of v] sint_greater_eq [of w] sint_less [of w]
  by (simp_all add: signed_scast_eq signed_take_bit_int_eq_self_iff)

lemma scast_back:
  fixes v :: i32 and w :: i16
  shows "(scast (scast v :: i64) :: i32) = v" "(scast (scast w :: i64) :: i16) = w"
proof -
  show "(scast (scast v :: i64) :: i32) = v"
  proof (rule bit_word_eqI)
    fix n assume "n < LENGTH(32)"
    then show "bit (scast (scast v :: i64) :: i32) n = bit v n"
      by (cases "n = 31") (auto simp: bit_simps min_def)
  qed
  show "(scast (scast w :: i64) :: i16) = w"
  proof (rule bit_word_eqI)
    fix n assume "n < LENGTH(16)"
    then show "bit (scast (scast w :: i64) :: i16) n = bit w n"
      by (cases "n = 15") (auto simp: bit_simps min_def)
  qed
qed

lemma unat_up:
  fixes v :: u32 and w :: u16
  shows "unat (ucast v :: u64) = unat v" "unat (ucast w :: u64) = unat w"
    "(ucast (ucast v :: u64) :: u32) = v" "(ucast (ucast w :: u64) :: u16) = w"
  by (rule bit_eqI, auto simp: bit_simps dest: bit_imp_le_length)+

named_theorems varint_rt \<open>decoding what was encoded\<close>

lemmas [varint_rt] = decode_encode_u64

lemma decode_encode_u32 [varint_rt]:
  "decode_u32 (encode_u32 v @ rest) = Some (v, length (encode_u32 v))"
  using unsigned_less [of v, where 'a = nat]
  by (simp add: decode_u32_def encode_u32_def decode_encode_u64 unat_up)

lemma decode_encode_u16 [varint_rt]:
  "decode_u16 (encode_u16 v @ rest) = Some (v, length (encode_u16 v))"
  using unsigned_less [of v, where 'a = nat]
  by (simp add: decode_u16_def encode_u16_def decode_encode_u64 unat_up)

lemma decode_encode_usize [varint_rt]:
  "n < 2 ^ 64 \<Longrightarrow> decode_usize (encode_usize n @ rest) = Some (n, length (encode_usize n))"
  by (simp add: decode_usize_def encode_usize_def decode_encode_u64 unsigned_of_nat take_bit_nat_def)

lemma decode_encode_i64 [varint_rt]:
  "decode_i64 (encode_i64 v @ rest) = Some (v, length (encode_i64 v))"
  by (simp add: decode_i64_def encode_i64_def decode_encode_u64 zigzag_roundtrip)

lemma decode_encode_i32 [varint_rt]:
  "decode_i32 (encode_i32 v @ rest) = Some (v, length (encode_i32 v))"
  using sint_greater_eq [of v] sint_less [of v]
  by (simp add: decode_i32_def encode_i32_def zigzag_encode_i32_def decode_encode_u64 zigzag_roundtrip
      sint_scast64 scast_back)

lemma decode_encode_i16 [varint_rt]:
  "decode_i16 (encode_i16 v @ rest) = Some (v, length (encode_i16 v))"
  using sint_greater_eq [of v] sint_less [of v]
  by (simp add: decode_i16_def encode_i16_def zigzag_encode_i16_def decode_encode_u64 zigzag_roundtrip
      sint_scast64 scast_back)

text \<open>Decoding never reads past the input, and consumes at least one byte.\<close>

lemma decode_loop_bound:
  "decode_u64_loop bs r s i = Some (v, k) \<Longrightarrow> i < k \<and> k \<le> i + length bs"
  by (induction bs arbitrary: r s i) (fastforce simp: Let_def split: if_splits)+

lemma decode_u64_bound: "decode_u64 bs = Some (v, k) \<Longrightarrow> 0 < k \<and> k \<le> length bs"
  using decode_loop_bound [of bs 0 0 0 v k] by (simp add: decode_u64_def)

end
