(* ===== verification/Wire_Ser.thy ===== *)
theory Wire_Ser
  imports Varint Vt_Utf8
begin

text \<open>
  The serializer of the wire codec, \<^verbatim>\<open>packages/codec/src/serde_adapter/ser.rs\<close>, with the type
  tags, the encoding modes and the errors of the crate.  Each method of the serde trait
  \<^verbatim>\<open>Serializer\<close> is one operation on the serializer state; a nested value is the action that
  serializes it.  Strings are their UTF-8 bytes and floats their IEEE bit patterns.
\<close>

section \<open>Modes, tags and errors\<close>

datatype encoding_mode = Stable | TypedStable | Positional

datatype type_tag =
    TagUnit | TagBool | TagI8 | TagI16 | TagI32 | TagI64 | TagU8 | TagU16 | TagU32 | TagU64
  | TagF32 | TagF64 | TagChar | TagString | TagBytes | TagNone | TagSome | TagSeq | TagMap
  | TagStruct | TagEnum

fun tag_byte :: "type_tag \<Rightarrow> u8" where
  "tag_byte TagUnit = 0" | "tag_byte TagBool = 1" | "tag_byte TagI8 = 2" | "tag_byte TagI16 = 3"
| "tag_byte TagI32 = 4" | "tag_byte TagI64 = 5" | "tag_byte TagU8 = 6" | "tag_byte TagU16 = 7"
| "tag_byte TagU32 = 8" | "tag_byte TagU64 = 9" | "tag_byte TagF32 = 10" | "tag_byte TagF64 = 11"
| "tag_byte TagChar = 12" | "tag_byte TagString = 13" | "tag_byte TagBytes = 14"
| "tag_byte TagNone = 15" | "tag_byte TagSome = 16" | "tag_byte TagSeq = 17" | "tag_byte TagMap = 18"
| "tag_byte TagStruct = 19" | "tag_byte TagEnum = 20"

text \<open>
  The errors the serde adapters return.  A \<^verbatim>\<open>Message\<close> keeps its fixed text and the values
  that its format string interpolates; \<open>RustPanic\<close> stands for a panic of the program.
\<close>

datatype message_arg = TagArg type_tag | CountArg nat

datatype codec_error =
    Message string "message_arg list"
  | UnexpectedEof | TrailingBytes | VarintOverflow | LengthOverflow | InvalidUtf8 | InvalidVariant
  | InvalidBool | InvalidChar | UnsupportedType string
  | RustPanic

section \<open>The serializer\<close>

record serializer =
  ser_output :: bytes
  ser_mode :: encoding_mode

type_synonym ser_action = "serializer \<Rightarrow> codec_error + serializer"

definition serializer_new :: "encoding_mode \<Rightarrow> serializer" where
  "serializer_new mode = \<lparr>ser_output = [], ser_mode = mode\<rparr>"

definition emit :: "bytes \<Rightarrow> serializer \<Rightarrow> serializer" where
  "emit bs s = s\<lparr>ser_output := ser_output s @ bs\<rparr>"

definition write_str :: "bytes \<Rightarrow> serializer \<Rightarrow> serializer" where
  "write_str value s = emit value (emit (encode_usize (length value)) s)"

definition is_stable_named :: "serializer \<Rightarrow> bool" where
  "is_stable_named s = (ser_mode s = Stable \<or> ser_mode s = TypedStable)"

definition write_tag :: "type_tag \<Rightarrow> serializer \<Rightarrow> serializer" where
  "write_tag tag s = (if ser_mode s = TypedStable then emit [tag_byte tag] s else s)"

text \<open>\<^verbatim>\<open>to_le_bytes\<close> of the standard library, on bit patterns.\<close>

definition le_bytes32 :: "u32 \<Rightarrow> bytes" where
  "le_bytes32 v = map (\<lambda>i. ucast (drop_bit (8 * i) v)) [0, 1, 2, 3]"

definition le_bytes64 :: "u64 \<Rightarrow> bytes" where
  "le_bytes64 v = map (\<lambda>i. ucast (drop_bit (8 * i) v)) [0, 1, 2, 3, 4, 5, 6, 7]"

subsection \<open>Scalars\<close>

definition serialize_bool :: "bool \<Rightarrow> ser_action" where
  "serialize_bool v s = Ok (emit [if v then 1 else 0] (write_tag TagBool s))"

definition serialize_i8 :: "u8 \<Rightarrow> ser_action" where
  "serialize_i8 v s = Ok (emit (encode_i16 (scast v)) (write_tag TagI8 s))"

definition serialize_i16 :: "i16 \<Rightarrow> ser_action" where
  "serialize_i16 v s = Ok (emit (encode_i16 v) (write_tag TagI16 s))"

definition serialize_i32 :: "i32 \<Rightarrow> ser_action" where
  "serialize_i32 v s = Ok (emit (encode_i32 v) (write_tag TagI32 s))"

definition serialize_i64 :: "i64 \<Rightarrow> ser_action" where
  "serialize_i64 v s = Ok (emit (encode_i64 v) (write_tag TagI64 s))"

definition serialize_u8 :: "u8 \<Rightarrow> ser_action" where
  "serialize_u8 v s = Ok (emit [v] (write_tag TagU8 s))"

definition serialize_u16 :: "u16 \<Rightarrow> ser_action" where
  "serialize_u16 v s = Ok (emit (encode_u16 v) (write_tag TagU16 s))"

definition serialize_u32 :: "u32 \<Rightarrow> ser_action" where
  "serialize_u32 v s = Ok (emit (encode_u32 v) (write_tag TagU32 s))"

definition serialize_u64 :: "u64 \<Rightarrow> ser_action" where
  "serialize_u64 v s = Ok (emit (encode_u64 v) (write_tag TagU64 s))"

definition serialize_f32 :: "u32 \<Rightarrow> ser_action" where
  "serialize_f32 v s = Ok (emit (le_bytes32 v) (write_tag TagF32 s))"

definition serialize_f64 :: "u64 \<Rightarrow> ser_action" where
  "serialize_f64 v s = Ok (emit (le_bytes64 v) (write_tag TagF64 s))"

definition serialize_char :: "u32 \<Rightarrow> ser_action" where
  "serialize_char v s = Ok (emit (encode_u32 v) (write_tag TagChar s))"

definition serialize_str :: "bytes \<Rightarrow> ser_action" where
  "serialize_str v s = Ok (write_str v (write_tag TagString s))"

definition serialize_bytes :: "bytes \<Rightarrow> ser_action" where
  "serialize_bytes v s = Ok (emit v (emit (encode_usize (length v)) (write_tag TagBytes s)))"

subsection \<open>Options, units and variants\<close>

definition serialize_none :: ser_action where
  "serialize_none s =
     (let s = write_tag TagNone s in
      Ok (if ser_mode s \<noteq> TypedStable then emit [0] s else s))"

definition serialize_some :: "ser_action \<Rightarrow> ser_action" where
  "serialize_some value s =
     (let s = write_tag TagSome s in
      value (if ser_mode s \<noteq> TypedStable then emit [1] s else s))"

definition serialize_unit :: ser_action where
  "serialize_unit s = Ok (write_tag TagUnit s)"

definition serialize_unit_struct :: ser_action where
  "serialize_unit_struct s = Ok (write_tag TagUnit s)"

definition serialize_unit_variant :: "u32 \<Rightarrow> bytes \<Rightarrow> ser_action" where
  "serialize_unit_variant variant_index variant s =
     (let s = write_tag TagEnum s in
      case ser_mode s of
        Positional \<Rightarrow> Ok (emit (encode_u32 variant_index) s)
      | _ \<Rightarrow>
          (let s = write_str variant s in
           Ok (if ser_mode s = TypedStable then emit (encode_usize 0) s else s)))"

definition serialize_newtype_struct :: "ser_action \<Rightarrow> ser_action" where
  "serialize_newtype_struct value s = value s"

definition serialize_newtype_variant :: "u32 \<Rightarrow> bytes \<Rightarrow> ser_action \<Rightarrow> ser_action" where
  "serialize_newtype_variant variant_index variant value s =
     (let s = write_tag TagEnum s;
          s = (case ser_mode s of
                 Positional \<Rightarrow> emit (encode_u32 variant_index) s
               | _ \<Rightarrow>
                   (let s = write_str variant s in
                    if ser_mode s = TypedStable then emit (encode_usize 1) s else s))
      in value s)"

subsection \<open>Containers\<close>

definition serialize_seq :: "nat option \<Rightarrow> ser_action" where
  "serialize_seq len s =
     (case len of
        None \<Rightarrow> Err (Message ''sequence length must be known up front'' [])
      | Some len \<Rightarrow> Ok (emit (encode_usize len) (write_tag TagSeq s)))"

definition serialize_tuple :: "nat \<Rightarrow> ser_action" where
  "serialize_tuple len s =
     (let s = write_tag TagSeq s in
      Ok (if ser_mode s = TypedStable then emit (encode_usize len) s else s))"

definition serialize_tuple_struct :: "nat \<Rightarrow> ser_action" where
  "serialize_tuple_struct len s =
     (let s = write_tag TagSeq s in
      Ok (if ser_mode s = TypedStable then emit (encode_usize len) s else s))"

definition serialize_tuple_variant :: "u32 \<Rightarrow> bytes \<Rightarrow> nat \<Rightarrow> ser_action" where
  "serialize_tuple_variant variant_index variant len s =
     (let s = write_tag TagEnum s in
      case ser_mode s of
        Positional \<Rightarrow> Ok (emit (encode_u32 variant_index) s)
      | _ \<Rightarrow>
          (let s = write_str variant s in
           Ok (if ser_mode s = TypedStable then emit (encode_usize len) s else s)))"

definition serialize_map :: "nat option \<Rightarrow> ser_action" where
  "serialize_map len s =
     (case len of
        None \<Rightarrow> Err (Message ''map length must be known up front'' [])
      | Some len \<Rightarrow> Ok (emit (encode_usize len) (write_tag TagMap s)))"

definition serialize_struct :: "nat \<Rightarrow> ser_action" where
  "serialize_struct len s =
     (let s = write_tag TagStruct s in
      Ok (if is_stable_named s then emit (encode_usize len) s else s))"

definition serialize_struct_variant :: "u32 \<Rightarrow> bytes \<Rightarrow> nat \<Rightarrow> ser_action" where
  "serialize_struct_variant variant_index variant len s =
     (let s = write_tag TagEnum s in
      case ser_mode s of
        Positional \<Rightarrow> Ok (emit (encode_u32 variant_index) s)
      | _ \<Rightarrow> Ok (emit (encode_usize len) (write_str variant s)))"

text \<open>
  The element and entry methods of \<^verbatim>\<open>SerializeSeq\<close>, \<^verbatim>\<open>SerializeTuple\<close>,
  \<^verbatim>\<open>SerializeTupleStruct\<close> and \<^verbatim>\<open>SerializeTupleVariant\<close> are the same function, as are
  the key and value methods of \<^verbatim>\<open>SerializeMap\<close>; both struct traits write the field name in
  the named modes.  The \<^verbatim>\<open>end\<close> methods return \<^verbatim>\<open>Ok(())\<close>.
\<close>

definition serialize_element :: "ser_action \<Rightarrow> ser_action" where
  "serialize_element value s = value s"

definition serialize_key :: "ser_action \<Rightarrow> ser_action" where
  "serialize_key key s = key s"

definition serialize_value :: "ser_action \<Rightarrow> ser_action" where
  "serialize_value value s = value s"

definition serialize_field :: "bytes \<Rightarrow> ser_action \<Rightarrow> ser_action" where
  "serialize_field key value s = value (if is_stable_named s then write_str key s else s)"

definition serialize_variant_field :: "bytes \<Rightarrow> ser_action \<Rightarrow> ser_action" where
  "serialize_variant_field key value s = value (if is_stable_named s then write_str key s else s)"

definition to_vec_with_mode :: "ser_action \<Rightarrow> encoding_mode \<Rightarrow> codec_error + bytes" where
  "to_vec_with_mode value mode =
     rbind (value (serializer_new mode)) (\<lambda>serializer. Ok (ser_output serializer))"

end
