(* ===== verification/Wire_De.thy ===== *)
theory Wire_De
  imports Wire_Ser
begin

text \<open>
  The deserializer of the wire codec, \<^verbatim>\<open>packages/codec/src/serde_adapter/de.rs\<close>.  A method is
  an action on the deserializer state that fails with an error or returns a value and the new
  state.  A serde \<^verbatim>\<open>Visitor\<close> is a record of callbacks; a visitor that receives a deserializer
  is itself an action.  Slicing past the input, an empty index and \<^verbatim>\<open>unreachable!()\<close> are the
  error \<^const>\<open>RustPanic\<close>.
\<close>

section \<open>State and primitive reads\<close>

record decode_limits =
  max_input_bytes :: nat
  max_blob_bytes :: nat
  max_container_entries :: nat
  max_total_entries :: nat

record deserializer =
  de_input :: bytes
  de_pos :: nat
  de_mode :: encoding_mode
  tagged_identifier :: bool
  de_limits :: "decode_limits option"
  remaining_entries :: nat

type_synonym 'a de_action = "deserializer \<Rightarrow> codec_error + 'a \<times> deserializer"

definition usize_max :: nat where
  "usize_max = 2 ^ 64 - 1"

definition dret :: "'a \<Rightarrow> 'a de_action" where
  "dret x d = Ok (x, d)"

definition derr :: "codec_error \<Rightarrow> 'a de_action" where
  "derr e d = Err e"

definition dlift :: "codec_error + 'a \<Rightarrow> 'a de_action" where
  "dlift r d = rbind r (\<lambda>x. Ok (x, d))"

definition dbind :: "'a de_action \<Rightarrow> ('a \<Rightarrow> 'b de_action) \<Rightarrow> 'b de_action" where
  "dbind m f d = rbind (m d) (\<lambda>(x, d). f x d)"

definition deserializer_new :: "bytes \<Rightarrow> encoding_mode \<Rightarrow> deserializer" where
  "deserializer_new input mode =
     \<lparr>de_input = input, de_pos = 0, de_mode = mode, tagged_identifier = False, de_limits = None,
      remaining_entries = usize_max\<rparr>"

definition remaining :: "bytes de_action" where
  "remaining d =
     (if de_pos d \<le> length (de_input d) then Ok (drop (de_pos d) (de_input d), d)
      else Err RustPanic)"

definition consume :: "nat \<Rightarrow> bytes de_action" where
  "consume n d =
     (let e = de_pos d + n in
      if e > usize_max then Err UnexpectedEof
      else if e > length (de_input d) then Err UnexpectedEof
      else case arr_slice (de_input d) (de_pos d) e of
        None \<Rightarrow> Err RustPanic
      | Some sl \<Rightarrow> Ok (sl, d\<lparr>de_pos := e\<rparr>))"

definition read_u8 :: "u8 de_action" where
  "read_u8 =
     dbind (consume 1) (\<lambda>bs. case arr_get bs 0 of None \<Rightarrow> derr RustPanic | Some b \<Rightarrow> dret b)"

definition tag_of_byte :: "u8 \<Rightarrow> type_tag option" where
  "tag_of_byte = map_of
     [(0, TagUnit), (1, TagBool), (2, TagI8), (3, TagI16), (4, TagI32), (5, TagI64), (6, TagU8),
      (7, TagU16), (8, TagU32), (9, TagU64), (10, TagF32), (11, TagF64), (12, TagChar),
      (13, TagString), (14, TagBytes), (15, TagNone), (16, TagSome), (17, TagSeq), (18, TagMap),
      (19, TagStruct), (20, TagEnum)]"

definition read_tag :: "type_tag option de_action" where
  "read_tag d =
     (if de_mode d \<noteq> TypedStable then Ok (None, d)
      else dbind read_u8 (\<lambda>b.
        case tag_of_byte b of
          None \<Rightarrow> derr (Message ''invalid type tag'' [])
        | Some tag \<Rightarrow> dret (Some tag)) d)"

definition expect_tag :: "type_tag \<Rightarrow> unit de_action" where
  "expect_tag expected =
     dbind read_tag (\<lambda>t.
       case t of
         None \<Rightarrow> dret ()
       | Some actual \<Rightarrow>
           if actual \<noteq> expected
           then derr (Message ''unexpected type tag'' [TagArg expected, TagArg actual])
           else dret ())"

text \<open>The seven variable-length reads share their first three lines.\<close>

definition read_varint :: "(bytes \<Rightarrow> ('a \<times> nat) option) \<Rightarrow> 'a de_action" where
  "read_varint decode =
     dbind remaining (\<lambda>bs.
       case decode bs of
         None \<Rightarrow> derr UnexpectedEof
       | Some (v, consumed) \<Rightarrow> (\<lambda>d. Ok (v, d\<lparr>de_pos := de_pos d + consumed\<rparr>)))"

definition read_varint_u64 :: "u64 de_action" where
  "read_varint_u64 = read_varint decode_u64"

definition read_varint_u32 :: "u32 de_action" where
  "read_varint_u32 = read_varint decode_u32"

definition read_varint_u16 :: "u16 de_action" where
  "read_varint_u16 = read_varint decode_u16"

definition read_varint_usize :: "nat de_action" where
  "read_varint_usize =
     dbind (read_varint decode_usize) (\<lambda>v d.
       case de_limits d of
         None \<Rightarrow> Ok (v, d)
       | Some limits \<Rightarrow>
           if v > max_container_entries limits \<or> v > remaining_entries d
           then Err (Message ''container entry budget exceeded'' [])
           else Ok (v, d\<lparr>remaining_entries := remaining_entries d - v\<rparr>))"

definition read_varint_i16 :: "i16 de_action" where
  "read_varint_i16 = read_varint decode_i16"

definition read_varint_i32 :: "i32 de_action" where
  "read_varint_i32 = read_varint decode_i32"

definition read_varint_i64 :: "i64 de_action" where
  "read_varint_i64 = read_varint decode_i64"

definition read_bytes :: "bytes de_action" where
  "read_bytes =
     dbind (read_varint decode_usize) (\<lambda>len d.
       if (case de_limits d of None \<Rightarrow> False | Some limits \<Rightarrow> len > max_blob_bytes limits)
       then Err (Message ''blob byte budget exceeded'' [])
       else consume len d)"

definition read_str :: "bytes de_action" where
  "read_str =
     dbind read_bytes (\<lambda>bs. if from_utf8 bs = Utf8Ok then dret bs else derr InvalidUtf8)"

section \<open>Visitors, seeds and accesses\<close>

text \<open>
  A seed reads a value from the deserializer, or from a string that the codec has already read
  (serde's \<^verbatim>\<open>StrDeserializer\<close>).  \<open>counted_access\<close> and \<open>enum_access\<close> are the two access
  structs without the reference to the deserializer, which is the state of the action.
\<close>

record 'a seed =
  seed_de :: "'a de_action"
  seed_str :: "bytes \<Rightarrow> codec_error + 'a"

record counted_access =
  acc_remaining :: nat
  acc_raw_keys :: bool

datatype enum_access = DirectAccess | InternallyTaggedEnum bytes nat

record 'a visitor =
  visit_unit :: "codec_error + 'a"
  visit_bool :: "bool \<Rightarrow> codec_error + 'a"
  visit_i8 :: "u8 \<Rightarrow> codec_error + 'a"
  visit_i16 :: "i16 \<Rightarrow> codec_error + 'a"
  visit_i32 :: "i32 \<Rightarrow> codec_error + 'a"
  visit_i64 :: "i64 \<Rightarrow> codec_error + 'a"
  visit_u8 :: "u8 \<Rightarrow> codec_error + 'a"
  visit_u16 :: "u16 \<Rightarrow> codec_error + 'a"
  visit_u32 :: "u32 \<Rightarrow> codec_error + 'a"
  visit_u64 :: "u64 \<Rightarrow> codec_error + 'a"
  visit_f32 :: "u32 \<Rightarrow> codec_error + 'a"
  visit_f64 :: "u64 \<Rightarrow> codec_error + 'a"
  visit_char :: "u32 \<Rightarrow> codec_error + 'a"
  visit_str :: "bytes \<Rightarrow> codec_error + 'a"
  visit_bytes :: "bytes \<Rightarrow> codec_error + 'a"
  visit_none :: "codec_error + 'a"
  visit_some :: "'a de_action"
  visit_newtype_struct :: "'a de_action"
  visit_seq :: "counted_access \<Rightarrow> 'a de_action"
  visit_map :: "counted_access \<Rightarrow> 'a de_action"
  visit_enum :: "enum_access \<Rightarrow> 'a de_action"

definition next_element_seed ::
    "'a de_action \<Rightarrow> counted_access \<Rightarrow> ('a option \<times> counted_access) de_action" where
  "next_element_seed seed acc =
     (if acc_remaining acc = 0 then dret (None, acc)
      else let acc = acc\<lparr>acc_remaining := acc_remaining acc - 1\<rparr> in
        dbind seed (\<lambda>x. dret (Some x, acc)))"

text \<open>Runs an action with the identifier flag changed, and puts the old flag back.\<close>

definition with_identifier :: "bool \<Rightarrow> 'a de_action \<Rightarrow> 'a de_action" where
  "with_identifier flag act d =
     (let previous = tagged_identifier d in
      rbind (act (d\<lparr>tagged_identifier := flag\<rparr>))
        (\<lambda>(x, d). Ok (x, d\<lparr>tagged_identifier := previous\<rparr>)))"

definition next_key_seed ::
    "'a seed \<Rightarrow> counted_access \<Rightarrow> ('a option \<times> counted_access) de_action" where
  "next_key_seed seed acc =
     (if acc_remaining acc = 0 then dret (None, acc)
      else let acc = acc\<lparr>acc_remaining := acc_remaining acc - 1\<rparr> in
        if acc_raw_keys acc
        then dbind read_str (\<lambda>key. dbind (dlift (seed_str seed key)) (\<lambda>k. dret (Some k, acc)))
        else dbind (with_identifier True (seed_de seed)) (\<lambda>k. dret (Some k, acc)))"

definition next_value_seed :: "'a de_action \<Rightarrow> counted_access \<Rightarrow> 'a de_action" where
  "next_value_seed seed acc =
     (if acc_raw_keys acc
      then dbind remaining (\<lambda>bs d.
        with_identifier
          (if bs \<noteq> [] \<and> hd bs = tag_byte TagString then True else tagged_identifier d) seed d)
      else (\<lambda>d. with_identifier (tagged_identifier d) seed d))"

section \<open>The deserializer methods\<close>

definition deserialize_bool :: "'a visitor \<Rightarrow> 'a de_action" where
  "deserialize_bool v =
     dbind (expect_tag TagBool) (\<lambda>_. dbind read_u8 (\<lambda>b.
       if b = 0 then dlift (visit_bool v False)
       else if b = 1 then dlift (visit_bool v True)
       else derr InvalidBool))"

text \<open>\<^verbatim>\<open>i8::try_from\<close> of the sign-extended value.\<close>

definition i8_of_i16 :: "i16 \<Rightarrow> codec_error + u8" where
  "i8_of_i16 v =
     (if - 128 \<le> sint v \<and> sint v \<le> 127 then Ok (scast v) else Err (Message ''i8 overflow'' []))"

definition deserialize_i8 :: "'a visitor \<Rightarrow> 'a de_action" where
  "deserialize_i8 v =
     dbind (expect_tag TagI8) (\<lambda>_. dbind read_varint_i16 (\<lambda>x.
       dlift (rbind (i8_of_i16 x) (visit_i8 v))))"

definition deserialize_i16 :: "'a visitor \<Rightarrow> 'a de_action" where
  "deserialize_i16 v =
     dbind (expect_tag TagI16) (\<lambda>_. dbind read_varint_i16 (\<lambda>x. dlift (visit_i16 v x)))"

definition deserialize_i32 :: "'a visitor \<Rightarrow> 'a de_action" where
  "deserialize_i32 v =
     dbind (expect_tag TagI32) (\<lambda>_. dbind read_varint_i32 (\<lambda>x. dlift (visit_i32 v x)))"

definition deserialize_i64 :: "'a visitor \<Rightarrow> 'a de_action" where
  "deserialize_i64 v =
     dbind (expect_tag TagI64) (\<lambda>_. dbind read_varint_i64 (\<lambda>x. dlift (visit_i64 v x)))"

definition deserialize_u8 :: "'a visitor \<Rightarrow> 'a de_action" where
  "deserialize_u8 v = dbind (expect_tag TagU8) (\<lambda>_. dbind read_u8 (\<lambda>x. dlift (visit_u8 v x)))"

definition deserialize_u16 :: "'a visitor \<Rightarrow> 'a de_action" where
  "deserialize_u16 v =
     dbind (expect_tag TagU16) (\<lambda>_. dbind read_varint_u16 (\<lambda>x. dlift (visit_u16 v x)))"

definition deserialize_u32 :: "'a visitor \<Rightarrow> 'a de_action" where
  "deserialize_u32 v =
     dbind (expect_tag TagU32) (\<lambda>_. dbind read_varint_u32 (\<lambda>x. dlift (visit_u32 v x)))"

definition deserialize_u64 :: "'a visitor \<Rightarrow> 'a de_action" where
  "deserialize_u64 v =
     dbind (expect_tag TagU64) (\<lambda>_. dbind read_varint_u64 (\<lambda>x. dlift (visit_u64 v x)))"

text \<open>\<^verbatim>\<open>from_le_bytes\<close> on the bytes at the indices the code reads; \<^term>\<open>None\<close> if one is missing.\<close>

definition from_le_bytes :: "nat \<Rightarrow> bytes \<Rightarrow> 'a::len word option" where
  "from_le_bytes n bs =
     (if n \<le> length bs
      then Some (foldr (\<lambda>b w. ucast b OR push_bit 8 w) (take n bs) 0) else None)"

definition deserialize_f32 :: "'a visitor \<Rightarrow> 'a de_action" where
  "deserialize_f32 v =
     dbind (expect_tag TagF32) (\<lambda>_. dbind (consume 4) (\<lambda>bs.
       case from_le_bytes 4 bs of None \<Rightarrow> derr RustPanic | Some x \<Rightarrow> dlift (visit_f32 v x)))"

definition deserialize_f64 :: "'a visitor \<Rightarrow> 'a de_action" where
  "deserialize_f64 v =
     dbind (expect_tag TagF64) (\<lambda>_. dbind (consume 8) (\<lambda>bs.
       case from_le_bytes 8 bs of None \<Rightarrow> derr RustPanic | Some x \<Rightarrow> dlift (visit_f64 v x)))"

text \<open>\<^verbatim>\<open>char::from_u32\<close>: a scalar value is at most 10FFFF and no surrogate.\<close>

definition char_from_u32 :: "u32 \<Rightarrow> u32 option" where
  "char_from_u32 x = (if x \<le> 0x10FFFF \<and> \<not> between 0xD800 0xDFFF x then Some x else None)"

definition deserialize_char :: "'a visitor \<Rightarrow> 'a de_action" where
  "deserialize_char v =
     dbind (expect_tag TagChar) (\<lambda>_. dbind read_varint_u32 (\<lambda>x.
       case char_from_u32 x of None \<Rightarrow> derr InvalidChar | Some c \<Rightarrow> dlift (visit_char v c)))"

definition deserialize_str :: "'a visitor \<Rightarrow> 'a de_action" where
  "deserialize_str v =
     dbind (expect_tag TagString) (\<lambda>_. dbind read_str (\<lambda>x. dlift (visit_str v x)))"

definition deserialize_string :: "'a visitor \<Rightarrow> 'a de_action" where
  "deserialize_string v =
     dbind (expect_tag TagString) (\<lambda>_. dbind read_str (\<lambda>x. dlift (visit_str v x)))"

definition deserialize_bytes :: "'a visitor \<Rightarrow> 'a de_action" where
  "deserialize_bytes v =
     dbind (expect_tag TagBytes) (\<lambda>_. dbind read_bytes (\<lambda>x. dlift (visit_bytes v x)))"

definition deserialize_byte_buf :: "'a visitor \<Rightarrow> 'a de_action" where
  "deserialize_byte_buf v =
     dbind (expect_tag TagBytes) (\<lambda>_. dbind read_bytes (\<lambda>x. dlift (visit_bytes v x)))"

definition deserialize_option :: "'a visitor \<Rightarrow> 'a de_action" where
  "deserialize_option v d =
     (if de_mode d = TypedStable
      then dbind read_tag (\<lambda>t.
        case t of
          Some TagNone \<Rightarrow> dlift (visit_none v)
        | Some TagSome \<Rightarrow> visit_some v
        | Some actual \<Rightarrow> derr (Message ''unexpected option type tag'' [TagArg actual])
        | None \<Rightarrow> derr RustPanic) d
      else dbind read_u8 (\<lambda>b.
        if b = 0 then dlift (visit_none v) else if b = 1 then visit_some v else derr InvalidBool) d)"

definition deserialize_unit :: "'a visitor \<Rightarrow> 'a de_action" where
  "deserialize_unit v = dbind (expect_tag TagUnit) (\<lambda>_. dlift (visit_unit v))"

definition deserialize_unit_struct :: "'a visitor \<Rightarrow> 'a de_action" where
  "deserialize_unit_struct v = dbind (expect_tag TagUnit) (\<lambda>_. dlift (visit_unit v))"

definition deserialize_newtype_struct :: "'a visitor \<Rightarrow> 'a de_action" where
  "deserialize_newtype_struct v = visit_newtype_struct v"

definition deserialize_seq :: "'a visitor \<Rightarrow> 'a de_action" where
  "deserialize_seq v =
     dbind (expect_tag TagSeq) (\<lambda>_. dbind read_varint_usize (\<lambda>len.
       visit_seq v \<lparr>acc_remaining = len, acc_raw_keys = False\<rparr>))"

definition typed_or :: "nat \<Rightarrow> nat de_action" where
  "typed_or len d = (if de_mode d = TypedStable then read_varint_usize d else dret len d)"

definition deserialize_tuple :: "nat \<Rightarrow> 'a visitor \<Rightarrow> 'a de_action" where
  "deserialize_tuple len v =
     dbind (expect_tag TagSeq) (\<lambda>_. dbind (typed_or len) (\<lambda>n.
       visit_seq v \<lparr>acc_remaining = n, acc_raw_keys = False\<rparr>))"

definition deserialize_tuple_struct :: "nat \<Rightarrow> 'a visitor \<Rightarrow> 'a de_action" where
  "deserialize_tuple_struct len v =
     dbind (expect_tag TagSeq) (\<lambda>_. dbind (typed_or len) (\<lambda>n.
       visit_seq v \<lparr>acc_remaining = n, acc_raw_keys = False\<rparr>))"

definition deserialize_map :: "'a visitor \<Rightarrow> 'a de_action" where
  "deserialize_map v =
     dbind (expect_tag TagMap) (\<lambda>_. dbind read_varint_usize (\<lambda>len.
       visit_map v \<lparr>acc_remaining = len, acc_raw_keys = False\<rparr>))"

definition deserialize_struct :: "bytes list \<Rightarrow> 'a visitor \<Rightarrow> 'a de_action" where
  "deserialize_struct fs v =
     dbind (expect_tag TagStruct) (\<lambda>_ d.
       case de_mode d of
         Positional \<Rightarrow> visit_seq v \<lparr>acc_remaining = length fs, acc_raw_keys = False\<rparr> d
       | _ \<Rightarrow> dbind read_varint_usize (\<lambda>len.
           visit_map v \<lparr>acc_remaining = len, acc_raw_keys = True\<rparr>) d)"

definition deserialize_enum :: "'a visitor \<Rightarrow> 'a de_action" where
  "deserialize_enum v =
     dbind (expect_tag TagEnum) (\<lambda>_. with_identifier False (visit_enum v DirectAccess))"

definition deserialize_identifier :: "'a visitor \<Rightarrow> 'a de_action" where
  "deserialize_identifier v d =
     (case de_mode d of
        Stable \<Rightarrow> dbind read_str (\<lambda>x. dlift (visit_str v x)) d
      | TypedStable \<Rightarrow>
          dbind (if tagged_identifier d then expect_tag TagString else dret ())
            (\<lambda>_. dbind read_str (\<lambda>x. dlift (visit_str v x))) d
      | Positional \<Rightarrow> dbind read_varint_u32 (\<lambda>x. dlift (visit_u32 v x)) d)"

definition deserialize_ignored_any :: "'a visitor \<Rightarrow> 'a de_action" where
  "deserialize_ignored_any v = dlift (visit_unit v)"

subsection \<open>Enum and variant access\<close>

definition variant_seed :: "'a seed \<Rightarrow> enum_access \<Rightarrow> ('a \<times> enum_access) de_action" where
  "variant_seed seed ea =
     (case ea of
        DirectAccess \<Rightarrow> dbind (seed_de seed) (\<lambda>x. dret (x, ea))
      | InternallyTaggedEnum variant rem \<Rightarrow>
          dbind (dlift (seed_str seed variant)) (\<lambda>x. dret (x, ea)))"

definition unit_variant :: "enum_access \<Rightarrow> unit de_action" where
  "unit_variant ea d =
     (case ea of
        InternallyTaggedEnum variant rem \<Rightarrow> Ok ((), d)
      | DirectAccess \<Rightarrow>
          if de_mode d = TypedStable
          then dbind read_varint_usize (\<lambda>n.
            if n \<noteq> 0 then derr (Message ''unit variant expected 0 fields'' [CountArg n])
            else dret ()) d
          else Ok ((), d))"

definition newtype_variant_seed :: "'a de_action \<Rightarrow> enum_access \<Rightarrow> 'a de_action" where
  "newtype_variant_seed seed ea d =
     (case ea of
        InternallyTaggedEnum variant rem \<Rightarrow> seed d
      | DirectAccess \<Rightarrow>
          if de_mode d = TypedStable
          then dbind read_varint_usize (\<lambda>n.
            if n \<noteq> 1 then derr (Message ''newtype variant expected 1 field'' [CountArg n])
            else seed) d
          else seed d)"

definition tuple_variant :: "nat \<Rightarrow> 'a visitor \<Rightarrow> enum_access \<Rightarrow> 'a de_action" where
  "tuple_variant len v ea =
     (case ea of
        InternallyTaggedEnum variant rem \<Rightarrow>
          visit_seq v \<lparr>acc_remaining = rem, acc_raw_keys = False\<rparr>
      | DirectAccess \<Rightarrow>
          dbind (typed_or len) (\<lambda>n. visit_seq v \<lparr>acc_remaining = n, acc_raw_keys = False\<rparr>))"

definition struct_variant :: "bytes list \<Rightarrow> 'a visitor \<Rightarrow> enum_access \<Rightarrow> 'a de_action" where
  "struct_variant fs v ea d =
     (case ea of
        InternallyTaggedEnum variant rem \<Rightarrow>
          visit_map v \<lparr>acc_remaining = rem, acc_raw_keys = True\<rparr> d
      | DirectAccess \<Rightarrow>
          (case de_mode d of
             Positional \<Rightarrow> visit_seq v \<lparr>acc_remaining = length fs, acc_raw_keys = False\<rparr> d
           | _ \<Rightarrow> dbind read_varint_usize (\<lambda>len.
               visit_map v \<lparr>acc_remaining = len, acc_raw_keys = True\<rparr>) d))"

subsection \<open>Self-describing reads\<close>

definition deserialize_any :: "'a visitor \<Rightarrow> 'a de_action" where
  "deserialize_any v =
     dbind read_tag (\<lambda>t. case t of
         None \<Rightarrow> derr (UnsupportedType ''deserialize_any (non-self-describing format)'')
       | Some tag \<Rightarrow> (case tag of
           TagUnit \<Rightarrow> dlift (visit_unit v)
         | TagBool \<Rightarrow> dbind read_u8 (\<lambda>b.
             if b = 0 then dlift (visit_bool v False)
             else if b = 1 then dlift (visit_bool v True) else derr InvalidBool)
         | TagI8 \<Rightarrow> dbind read_varint_i16 (\<lambda>x. dlift (rbind (i8_of_i16 x) (visit_i8 v)))
         | TagI16 \<Rightarrow> dbind read_varint_i16 (\<lambda>x. dlift (visit_i16 v x))
         | TagI32 \<Rightarrow> dbind read_varint_i32 (\<lambda>x. dlift (visit_i32 v x))
         | TagI64 \<Rightarrow> dbind read_varint_i64 (\<lambda>x. dlift (visit_i64 v x))
         | TagU8 \<Rightarrow> dbind read_u8 (\<lambda>x. dlift (visit_u8 v x))
         | TagU16 \<Rightarrow> dbind read_varint_u16 (\<lambda>x. dlift (visit_u16 v x))
         | TagU32 \<Rightarrow> dbind read_varint_u32 (\<lambda>x. dlift (visit_u32 v x))
         | TagU64 \<Rightarrow> dbind read_varint_u64 (\<lambda>x. dlift (visit_u64 v x))
         | TagF32 \<Rightarrow> dbind (consume 4) (\<lambda>bs. case from_le_bytes 4 bs of
             None \<Rightarrow> derr RustPanic | Some x \<Rightarrow> dlift (visit_f32 v x))
         | TagF64 \<Rightarrow> dbind (consume 8) (\<lambda>bs. case from_le_bytes 8 bs of
             None \<Rightarrow> derr RustPanic | Some x \<Rightarrow> dlift (visit_f64 v x))
         | TagChar \<Rightarrow> dbind read_varint_u32 (\<lambda>x. case char_from_u32 x of
             None \<Rightarrow> derr InvalidChar | Some c \<Rightarrow> dlift (visit_char v c))
         | TagString \<Rightarrow> dbind read_str (\<lambda>x. dlift (visit_str v x))
         | TagBytes \<Rightarrow> dbind read_bytes (\<lambda>x. dlift (visit_bytes v x))
         | TagNone \<Rightarrow> dlift (visit_none v)
         | TagSome \<Rightarrow> visit_some v
         | TagSeq \<Rightarrow> dbind read_varint_usize (\<lambda>len.
             visit_seq v \<lparr>acc_remaining = len, acc_raw_keys = False\<rparr>)
         | TagMap \<Rightarrow> dbind read_varint_usize (\<lambda>len.
             visit_map v \<lparr>acc_remaining = len, acc_raw_keys = False\<rparr>)
         | TagStruct \<Rightarrow> dbind read_varint_usize (\<lambda>len.
             visit_map v \<lparr>acc_remaining = len, acc_raw_keys = True\<rparr>)
         | TagEnum \<Rightarrow> dbind read_str (\<lambda>variant. dbind read_varint_usize (\<lambda>len.
             if len = 0 then dlift (visit_str v variant)
             else visit_enum v (InternallyTaggedEnum variant len)))))"

section \<open>Entry points\<close>

definition from_bytes_with_mode :: "'a de_action \<Rightarrow> bytes \<Rightarrow> encoding_mode \<Rightarrow> codec_error + 'a" where
  "from_bytes_with_mode value bs mode =
     rbind (value (deserializer_new bs mode)) (\<lambda>(x, d).
       if de_pos d \<noteq> length (de_input d) then Err TrailingBytes else Ok x)"

definition from_bytes_bounded :: "'a de_action \<Rightarrow> bytes \<Rightarrow> decode_limits \<Rightarrow> codec_error + 'a" where
  "from_bytes_bounded value bs limits =
     (if length bs > max_input_bytes limits then Err (Message ''input byte budget exceeded'' [])
      else rbind
        (value ((deserializer_new bs Positional)
           \<lparr>de_limits := Some limits, remaining_entries := max_total_entries limits\<rparr>))
        (\<lambda>(x, d). if de_pos d \<noteq> length (de_input d) then Err TrailingBytes else Ok x))"

end
