(* ===== verification/Wire_Values.thy ===== *)
theory Wire_Values
  imports Wire_De
begin

text \<open>
  The clients of the wire codec.  A \<^verbatim>\<open>Serialize\<close> implementation is, for the codec, the tree of
  serializer calls it makes (\<open>sval\<close>, the serde data model); a \<^verbatim>\<open>Deserialize\<close> implementation is
  the tree of deserializer calls its type asks for (\<open>shape\<close>).  \<open>ser_of\<close> and \<open>de_of\<close> issue these
  calls as the serde documentation prescribes for the standard types and for derived structs and
  enums: a sequence visitor reads until the access is empty, a tuple visitor reads its elements in
  order, a struct visitor accepts its fields in any order, refuses duplicates, skips unknown names,
  and reads a missing optional field as \<^verbatim>\<open>None\<close>.
\<close>

section \<open>Serializing clients\<close>

datatype sval =
    VBool bool | VI8 u8 | VI16 i16 | VI32 i32 | VI64 i64
  | VU8 u8 | VU16 u16 | VU32 u32 | VU64 u64 | VF32 u32 | VF64 u64
  | VChar u32 | VStr bytes | VBytes bytes
  | VNone | VSome sval | VUnit | VUnitStruct | VNewtype sval
  | VSeq "nat option" "sval list" | VTuple "sval list" | VTupleStruct "sval list"
  | VMap "nat option" "(sval \<times> sval) list" | VStruct "(bytes \<times> sval) list"
  | VUnitVariant u32 bytes | VNewtypeVariant u32 bytes sval
  | VTupleVariant u32 bytes "sval list" | VStructVariant u32 bytes "(bytes \<times> sval) list"

primrec ser_all :: "ser_action list \<Rightarrow> ser_action" where
  "ser_all [] s = Ok s"
| "ser_all (a # as) s = rbind (a s) (ser_all as)"

definition ser_elements :: "ser_action list \<Rightarrow> ser_action" where
  "ser_elements as = ser_all (map serialize_element as)"

definition ser_entries :: "(ser_action \<times> ser_action) list \<Rightarrow> ser_action" where
  "ser_entries es = ser_all (concat (map (\<lambda>(k, v). [serialize_key k, serialize_value v]) es))"

definition ser_fields :: "(bytes \<times> ser_action) list \<Rightarrow> ser_action" where
  "ser_fields fs = ser_all (map (\<lambda>(n, a). serialize_field n a) fs)"

definition ser_variant_fields :: "(bytes \<times> ser_action) list \<Rightarrow> ser_action" where
  "ser_variant_fields fs = ser_all (map (\<lambda>(n, a). serialize_variant_field n a) fs)"

primrec ser_of :: "sval \<Rightarrow> ser_action" where
  "ser_of (VBool b) = serialize_bool b"
| "ser_of (VI8 x) = serialize_i8 x"
| "ser_of (VI16 x) = serialize_i16 x"
| "ser_of (VI32 x) = serialize_i32 x"
| "ser_of (VI64 x) = serialize_i64 x"
| "ser_of (VU8 x) = serialize_u8 x"
| "ser_of (VU16 x) = serialize_u16 x"
| "ser_of (VU32 x) = serialize_u32 x"
| "ser_of (VU64 x) = serialize_u64 x"
| "ser_of (VF32 x) = serialize_f32 x"
| "ser_of (VF64 x) = serialize_f64 x"
| "ser_of (VChar x) = serialize_char x"
| "ser_of (VStr x) = serialize_str x"
| "ser_of (VBytes x) = serialize_bytes x"
| "ser_of VNone = serialize_none"
| "ser_of (VSome x) = serialize_some (ser_of x)"
| "ser_of VUnit = serialize_unit"
| "ser_of VUnitStruct = serialize_unit_struct"
| "ser_of (VNewtype x) = serialize_newtype_struct (ser_of x)"
| "ser_of (VSeq len xs) = (\<lambda>s. rbind (serialize_seq len s) (ser_elements (map ser_of xs)))"
| "ser_of (VTuple xs) =
     (\<lambda>s. rbind (serialize_tuple (length xs) s) (ser_elements (map ser_of xs)))"
| "ser_of (VTupleStruct xs) =
     (\<lambda>s. rbind (serialize_tuple_struct (length xs) s) (ser_elements (map ser_of xs)))"
| "ser_of (VMap len es) =
     (\<lambda>s. rbind (serialize_map len s) (ser_entries (map (map_prod ser_of ser_of) es)))"
| "ser_of (VStruct fs) =
     (\<lambda>s. rbind (serialize_struct (length fs) s) (ser_fields (map (map_prod id ser_of) fs)))"
| "ser_of (VUnitVariant i n) = serialize_unit_variant i n"
| "ser_of (VNewtypeVariant i n x) = serialize_newtype_variant i n (ser_of x)"
| "ser_of (VTupleVariant i n xs) =
     (\<lambda>s. rbind (serialize_tuple_variant i n (length xs) s) (ser_elements (map ser_of xs)))"
| "ser_of (VStructVariant i n fs) =
     (\<lambda>s. rbind (serialize_struct_variant i n (length fs) s)
        (ser_variant_fields (map (map_prod id ser_of) fs)))"

section \<open>Deserializing clients\<close>

datatype shape =
    ShBool | ShI8 | ShI16 | ShI32 | ShI64 | ShU8 | ShU16 | ShU32 | ShU64 | ShF32 | ShF64
  | ShChar | ShStr | ShBytes | ShOption shape | ShUnit | ShUnitStruct | ShNewtype shape
  | ShSeq shape | ShTuple "shape list" | ShTupleStruct "shape list" | ShMap shape shape
  | ShStruct "(bytes \<times> shape) list" | ShEnum "(bytes \<times> vshape) list"
and vshape = VsUnit | VsNewtype shape | VsTuple "shape list" | VsStruct "(bytes \<times> shape) list"

text \<open>The visitor that expects nothing; every client overrides the callbacks of its type.\<close>

definition no_visitor :: "'a visitor" where
  "no_visitor =
     (let e = Err (Message ''invalid type'' []) in
      \<lparr>visit_unit = e, visit_bool = (\<lambda>_. e), visit_i8 = (\<lambda>_. e), visit_i16 = (\<lambda>_. e),
       visit_i32 = (\<lambda>_. e), visit_i64 = (\<lambda>_. e), visit_u8 = (\<lambda>_. e), visit_u16 = (\<lambda>_. e),
       visit_u32 = (\<lambda>_. e), visit_u64 = (\<lambda>_. e), visit_f32 = (\<lambda>_. e), visit_f64 = (\<lambda>_. e),
       visit_char = (\<lambda>_. e), visit_str = (\<lambda>_. e), visit_bytes = (\<lambda>_. e), visit_none = e,
       visit_some = derr (Message ''invalid type'' []),
       visit_newtype_struct = derr (Message ''invalid type'' []),
       visit_seq = (\<lambda>_. derr (Message ''invalid type'' [])),
       visit_map = (\<lambda>_. derr (Message ''invalid type'' [])),
       visit_enum = (\<lambda>_. derr (Message ''invalid type'' []))\<rparr>)"

lemma next_element_seed_less:
  "next_element_seed seed acc d = Ok ((Some x, acc'), d') \<Longrightarrow> acc_remaining acc' < acc_remaining acc"
  by (auto simp: next_element_seed_def dbind_def dret_def Let_def rbind_Ok_iff split: if_splits)

lemma next_key_seed_less:
  "next_key_seed seed acc d = Ok ((Some x, acc'), d') \<Longrightarrow> acc_remaining acc' < acc_remaining acc"
  by (auto simp: next_key_seed_def dbind_def dret_def Let_def rbind_Ok_iff split: if_splits)

function seq_loop :: "'a de_action \<Rightarrow> counted_access \<Rightarrow> 'a list de_action" where
  "seq_loop seed acc d =
     (case next_element_seed seed acc d of
        Inl e \<Rightarrow> Err e
      | Inr ((None, acc'), d') \<Rightarrow> Ok ([], d')
      | Inr ((Some x, acc'), d') \<Rightarrow>
          rbind (seq_loop seed acc' d') (\<lambda>(xs, d''). Ok (x # xs, d'')))"
  by pat_completeness auto
termination
  by (relation "measure (\<lambda>(_, acc, _). acc_remaining acc)") (auto dest: next_element_seed_less)

primrec tuple_loop :: "'a de_action list \<Rightarrow> counted_access \<Rightarrow> 'a list de_action" where
  "tuple_loop [] acc = dret []"
| "tuple_loop (seed # seeds) acc =
     dbind (next_element_seed seed acc) (\<lambda>(x, acc).
       case x of
         None \<Rightarrow> derr (Message ''invalid length'' [])
       | Some x \<Rightarrow> dbind (tuple_loop seeds acc) (\<lambda>xs. dret (x # xs)))"

definition value_seed :: "'a de_action \<Rightarrow> 'a seed" where
  "value_seed act = \<lparr>seed_de = act, seed_str = (\<lambda>_. Err (Message ''invalid type'' []))\<rparr>"

function map_loop :: "'a de_action \<Rightarrow> 'b de_action \<Rightarrow> counted_access \<Rightarrow> ('a \<times> 'b) list de_action" where
  "map_loop kseed vseed acc d =
     (case next_key_seed (value_seed kseed) acc d of
        Inl e \<Rightarrow> Err e
      | Inr ((None, acc'), d') \<Rightarrow> Ok ([], d')
      | Inr ((Some k, acc'), d') \<Rightarrow>
          rbind (next_value_seed vseed acc' d') (\<lambda>(v, d'').
            rbind (map_loop kseed vseed acc' d'') (\<lambda>(es, d''). Ok ((k, v) # es, d''))))"
  by pat_completeness auto
termination
  by (relation "measure (\<lambda>(_, _, acc, _). acc_remaining acc)") (auto dest: next_key_seed_less)

primrec index_of :: "'a \<Rightarrow> 'a list \<Rightarrow> nat option" where
  "index_of x [] = None"
| "index_of x (y # ys) = (if x = y then Some 0 else map_option Suc (index_of x ys))"

text \<open>The identifier visitor of an enum: a name it knows, or the index of a variant.\<close>

definition variant_ident :: "bytes list \<Rightarrow> nat visitor" where
  "variant_ident names = no_visitor
     \<lparr>visit_str := (\<lambda>s. case index_of s names of
         None \<Rightarrow> Err (Message ''unknown variant'' []) | Some i \<Rightarrow> Ok i),
      visit_u32 := (\<lambda>x. if unat x < length names then Ok (unat x)
         else Err (Message ''invalid variant index'' []))\<rparr>"

definition variant_ident_seed :: "bytes list \<Rightarrow> nat seed" where
  "variant_ident_seed names =
     \<lparr>seed_de = deserialize_identifier (variant_ident names),
      seed_str = visit_str (variant_ident names)\<rparr>"

text \<open>The identifier visitor of a struct returns no index for a name it does not know.\<close>

definition field_ident_seed :: "bytes list \<Rightarrow> nat option seed" where
  "field_ident_seed names =
     (let v = no_visitor
        \<lparr>visit_str := (\<lambda>s. Ok (index_of s names)),
         visit_u32 := (\<lambda>x. Ok (if unat x < length names then Some (unat x) else None))\<rparr>
      in \<lparr>seed_de = deserialize_identifier v, seed_str = visit_str v\<rparr>)"

definition ignored_any :: "unit de_action" where
  "ignored_any = deserialize_ignored_any (no_visitor\<lparr>visit_unit := Ok ()\<rparr>)"

function field_loop ::
    "bytes list \<Rightarrow> 'a de_action list \<Rightarrow> 'a option list \<Rightarrow> counted_access \<Rightarrow> 'a option list de_action"
where
  "field_loop names seeds slots acc d =
     (case next_key_seed (field_ident_seed names) acc d of
        Inl e \<Rightarrow> Err e
      | Inr ((None, acc'), d') \<Rightarrow> Ok (slots, d')
      | Inr ((Some None, acc'), d') \<Rightarrow>
          rbind (next_value_seed ignored_any acc' d') (\<lambda>(_, d'').
            field_loop names seeds slots acc' d'')
      | Inr ((Some (Some i), acc'), d') \<Rightarrow>
          if slots ! i \<noteq> None then Err (Message ''duplicate field'' [])
          else rbind (next_value_seed (seeds ! i) acc' d') (\<lambda>(v, d'').
            field_loop names seeds (slots[i := Some v]) acc' d''))"
  by pat_completeness auto
termination
  by (relation "measure (\<lambda>(_, _, _, acc, _). acc_remaining acc)") (auto dest: next_key_seed_less)

declare seq_loop.simps [simp del] map_loop.simps [simp del] field_loop.simps [simp del]

fun is_option :: "shape \<Rightarrow> bool" where
  "is_option (ShOption _) = True"
| "is_option _ = False"

primrec fill :: "bool list \<Rightarrow> sval option list \<Rightarrow> codec_error + sval list" where
  "fill opts [] = Ok []"
| "fill opts (x # xs) =
     rbind (case x of
         Some v \<Rightarrow> Ok v
       | None \<Rightarrow> if hd opts then Ok VNone else Err (Message ''missing field'' []))
       (\<lambda>v. rbind (fill (tl opts) xs) (\<lambda>vs. Ok (v # vs)))"

definition fields_visitor ::
    "((bytes \<times> sval) list \<Rightarrow> sval) \<Rightarrow> bool list \<Rightarrow> (bytes \<times> sval de_action) list \<Rightarrow> sval visitor" where
  "fields_visitor mk opts fs = no_visitor
     \<lparr>visit_seq := (\<lambda>acc. dbind (tuple_loop (map snd fs) acc)
         (\<lambda>xs. dret (mk (zip (map fst fs) xs)))),
      visit_map := (\<lambda>acc. dbind (field_loop (map fst fs) (map snd fs) (replicate (length fs) None) acc)
         (\<lambda>slots. dbind (dlift (fill opts slots)) (\<lambda>xs. dret (mk (zip (map fst fs) xs)))))\<rparr>"

definition tuple_visitor :: "(sval list \<Rightarrow> sval) \<Rightarrow> sval de_action list \<Rightarrow> sval visitor" where
  "tuple_visitor mk seeds = no_visitor
     \<lparr>visit_seq := (\<lambda>acc. dbind (tuple_loop seeds acc) (\<lambda>xs. dret (mk xs)))\<rparr>"

primrec de_of :: "shape \<Rightarrow> sval de_action"
  and de_variant :: "vshape \<Rightarrow> u32 \<Rightarrow> bytes \<Rightarrow> enum_access \<Rightarrow> sval de_action" where
  "de_of ShBool = deserialize_bool (no_visitor\<lparr>visit_bool := (\<lambda>x. Ok (VBool x))\<rparr>)"
| "de_of ShI8 = deserialize_i8 (no_visitor\<lparr>visit_i8 := (\<lambda>x. Ok (VI8 x))\<rparr>)"
| "de_of ShI16 = deserialize_i16 (no_visitor\<lparr>visit_i16 := (\<lambda>x. Ok (VI16 x))\<rparr>)"
| "de_of ShI32 = deserialize_i32 (no_visitor\<lparr>visit_i32 := (\<lambda>x. Ok (VI32 x))\<rparr>)"
| "de_of ShI64 = deserialize_i64 (no_visitor\<lparr>visit_i64 := (\<lambda>x. Ok (VI64 x))\<rparr>)"
| "de_of ShU8 = deserialize_u8 (no_visitor\<lparr>visit_u8 := (\<lambda>x. Ok (VU8 x))\<rparr>)"
| "de_of ShU16 = deserialize_u16 (no_visitor\<lparr>visit_u16 := (\<lambda>x. Ok (VU16 x))\<rparr>)"
| "de_of ShU32 = deserialize_u32 (no_visitor\<lparr>visit_u32 := (\<lambda>x. Ok (VU32 x))\<rparr>)"
| "de_of ShU64 = deserialize_u64 (no_visitor\<lparr>visit_u64 := (\<lambda>x. Ok (VU64 x))\<rparr>)"
| "de_of ShF32 = deserialize_f32 (no_visitor\<lparr>visit_f32 := (\<lambda>x. Ok (VF32 x))\<rparr>)"
| "de_of ShF64 = deserialize_f64 (no_visitor\<lparr>visit_f64 := (\<lambda>x. Ok (VF64 x))\<rparr>)"
| "de_of ShChar = deserialize_char (no_visitor\<lparr>visit_char := (\<lambda>x. Ok (VChar x))\<rparr>)"
| "de_of ShStr = deserialize_string (no_visitor\<lparr>visit_str := (\<lambda>x. Ok (VStr x))\<rparr>)"
| "de_of ShBytes = deserialize_byte_buf (no_visitor\<lparr>visit_bytes := (\<lambda>x. Ok (VBytes x))\<rparr>)"
| "de_of (ShOption sh) = deserialize_option (no_visitor
     \<lparr>visit_none := Ok VNone, visit_some := dbind (de_of sh) (\<lambda>x. dret (VSome x))\<rparr>)"
| "de_of ShUnit = deserialize_unit (no_visitor\<lparr>visit_unit := Ok VUnit\<rparr>)"
| "de_of ShUnitStruct = deserialize_unit_struct (no_visitor\<lparr>visit_unit := Ok VUnitStruct\<rparr>)"
| "de_of (ShNewtype sh) = deserialize_newtype_struct (no_visitor
     \<lparr>visit_newtype_struct := dbind (de_of sh) (\<lambda>x. dret (VNewtype x))\<rparr>)"
| "de_of (ShSeq sh) = deserialize_seq (no_visitor
     \<lparr>visit_seq := (\<lambda>acc. dbind (seq_loop (de_of sh) acc)
        (\<lambda>xs. dret (VSeq (Some (length xs)) xs)))\<rparr>)"
| "de_of (ShTuple shs) = deserialize_tuple (length shs) (tuple_visitor VTuple (map de_of shs))"
| "de_of (ShTupleStruct shs) =
     deserialize_tuple_struct (length shs) (tuple_visitor VTupleStruct (map de_of shs))"
| "de_of (ShMap k v) = deserialize_map (no_visitor
     \<lparr>visit_map := (\<lambda>acc. dbind (map_loop (de_of k) (de_of v) acc)
        (\<lambda>es. dret (VMap (Some (length es)) es)))\<rparr>)"
| "de_of (ShStruct fs) = deserialize_struct (map fst fs)
     (fields_visitor VStruct (map (\<lambda>(_, sh). is_option sh) fs) (map (map_prod id de_of) fs))"
| "de_of (ShEnum vs) = deserialize_enum (no_visitor
     \<lparr>visit_enum := (\<lambda>ea. dbind (variant_seed (variant_ident_seed (map fst vs)) ea)
        (\<lambda>(i, ea). case map (map_prod id de_variant) vs ! i of
            (n, body) \<Rightarrow> body (word_of_nat i) n ea))\<rparr>)"
| "de_variant VsUnit = (\<lambda>i n ea. dbind (unit_variant ea) (\<lambda>_. dret (VUnitVariant i n)))"
| "de_variant (VsNewtype sh) = (\<lambda>i n ea.
     dbind (newtype_variant_seed (de_of sh) ea) (\<lambda>x. dret (VNewtypeVariant i n x)))"
| "de_variant (VsTuple shs) = (\<lambda>i n ea.
     tuple_variant (length shs) (tuple_visitor (VTupleVariant i n) (map de_of shs)) ea)"
| "de_variant (VsStruct fs) = (\<lambda>i n ea.
     struct_variant (map fst fs)
       (fields_visitor (VStructVariant i n) (map (\<lambda>(_, sh). is_option sh) fs)
          (map (map_prod id de_of) fs)) ea)"

end
