(* ===== verification/Wire_Format.thy ===== *)
theory Wire_Format
  imports Wire_Values
begin

text \<open>
  The wire format of the three modes as a function of the value, with no
  serializer state.  The serializer methods, called in the order of the serde data model, append
  exactly these bytes.
\<close>

section \<open>The format\<close>

definition tag_wire :: "encoding_mode \<Rightarrow> type_tag \<Rightarrow> bytes" where
  "tag_wire m t = (if m = TypedStable then [tag_byte t] else [])"

definition str_wire :: "bytes \<Rightarrow> bytes" where
  "str_wire b = encode_usize (length b) @ b"

text \<open>Counts that only the typed mode writes, and counts and names that positional mode omits.\<close>

definition typed_count :: "encoding_mode \<Rightarrow> nat \<Rightarrow> bytes" where
  "typed_count m n = (if m = TypedStable then encode_usize n else [])"

definition named_count :: "encoding_mode \<Rightarrow> nat \<Rightarrow> bytes" where
  "named_count m n = (if m = Positional then [] else encode_usize n)"

definition name_wire :: "encoding_mode \<Rightarrow> bytes \<Rightarrow> bytes" where
  "name_wire m n = (if m = Positional then [] else str_wire n)"

definition variant_wire :: "encoding_mode \<Rightarrow> u32 \<Rightarrow> bytes \<Rightarrow> bytes" where
  "variant_wire m i n = tag_wire m TagEnum @ (if m = Positional then encode_u32 i else str_wire n)"

definition fields_wire :: "encoding_mode \<Rightarrow> (bytes \<times> bytes) list \<Rightarrow> bytes" where
  "fields_wire m fs = concat (map (\<lambda>(n, w). name_wire m n @ w) fs)"

definition entries_wire :: "(bytes \<times> bytes) list \<Rightarrow> bytes" where
  "entries_wire es = concat (map (\<lambda>(k, v). k @ v) es)"

primrec wire :: "encoding_mode \<Rightarrow> sval \<Rightarrow> bytes" where
  "wire m (VBool b) = tag_wire m TagBool @ [if b then 1 else 0]"
| "wire m (VI8 x) = tag_wire m TagI8 @ encode_i16 (scast x)"
| "wire m (VI16 x) = tag_wire m TagI16 @ encode_i16 x"
| "wire m (VI32 x) = tag_wire m TagI32 @ encode_i32 x"
| "wire m (VI64 x) = tag_wire m TagI64 @ encode_i64 x"
| "wire m (VU8 x) = tag_wire m TagU8 @ [x]"
| "wire m (VU16 x) = tag_wire m TagU16 @ encode_u16 x"
| "wire m (VU32 x) = tag_wire m TagU32 @ encode_u32 x"
| "wire m (VU64 x) = tag_wire m TagU64 @ encode_u64 x"
| "wire m (VF32 x) = tag_wire m TagF32 @ le_bytes32 x"
| "wire m (VF64 x) = tag_wire m TagF64 @ le_bytes64 x"
| "wire m (VChar x) = tag_wire m TagChar @ encode_u32 x"
| "wire m (VStr x) = tag_wire m TagString @ str_wire x"
| "wire m (VBytes x) = tag_wire m TagBytes @ str_wire x"
| "wire m VNone = (if m = TypedStable then [tag_byte TagNone] else [0])"
| "wire m (VSome x) = (if m = TypedStable then [tag_byte TagSome] else [1]) @ wire m x"
| "wire m VUnit = tag_wire m TagUnit"
| "wire m VUnitStruct = tag_wire m TagUnit"
| "wire m (VNewtype x) = wire m x"
| "wire m (VSeq len xs) = tag_wire m TagSeq @ encode_usize (length xs) @ concat (map (wire m) xs)"
| "wire m (VTuple xs) = tag_wire m TagSeq @ typed_count m (length xs) @ concat (map (wire m) xs)"
| "wire m (VTupleStruct xs) =
     tag_wire m TagSeq @ typed_count m (length xs) @ concat (map (wire m) xs)"
| "wire m (VMap len es) =
     tag_wire m TagMap @ encode_usize (length es) @
     entries_wire (map (map_prod (wire m) (wire m)) es)"
| "wire m (VStruct fs) =
     tag_wire m TagStruct @ named_count m (length fs) @
     fields_wire m (map (map_prod id (wire m)) fs)"
| "wire m (VUnitVariant i n) = variant_wire m i n @ typed_count m 0"
| "wire m (VNewtypeVariant i n x) = variant_wire m i n @ typed_count m 1 @ wire m x"
| "wire m (VTupleVariant i n xs) =
     variant_wire m i n @ typed_count m (length xs) @ concat (map (wire m) xs)"
| "wire m (VStructVariant i n fs) =
     variant_wire m i n @ named_count m (length fs) @
     fields_wire m (map (map_prod id (wire m)) fs)"

text \<open>A client announces the length of every sequence and map, and announces the right one.\<close>

primrec sized :: "sval \<Rightarrow> bool" where
  "sized (VBool b) = True" | "sized (VI8 x) = True" | "sized (VI16 x) = True"
| "sized (VI32 x) = True" | "sized (VI64 x) = True" | "sized (VU8 x) = True"
| "sized (VU16 x) = True" | "sized (VU32 x) = True" | "sized (VU64 x) = True"
| "sized (VF32 x) = True" | "sized (VF64 x) = True" | "sized (VChar x) = True"
| "sized (VStr x) = True" | "sized (VBytes x) = True" | "sized VNone = True"
| "sized (VSome x) = sized x" | "sized VUnit = True" | "sized VUnitStruct = True"
| "sized (VNewtype x) = sized x"
| "sized (VSeq len xs) = (len = Some (length xs) \<and> list_all id (map sized xs))"
| "sized (VTuple xs) = list_all id (map sized xs)"
| "sized (VTupleStruct xs) = list_all id (map sized xs)"
| "sized (VMap len es) =
     (len = Some (length es) \<and> list_all (\<lambda>(a, b). a \<and> b) (map (map_prod sized sized) es))"
| "sized (VStruct fs) = list_all snd (map (map_prod id sized) fs)"
| "sized (VUnitVariant i n) = True"
| "sized (VNewtypeVariant i n x) = sized x"
| "sized (VTupleVariant i n xs) = list_all id (map sized xs)"
| "sized (VStructVariant i n fs) = list_all snd (map (map_prod id sized) fs)"

section \<open>The serializer writes the format\<close>

lemma emit_simps [simp]:
  "ser_mode (emit b s) = ser_mode s" "emit c (emit b s) = emit (b @ c) s" "emit [] s = s"
  "ser_output (emit b s) = ser_output s @ b"
  by (simp_all add: emit_def)

lemma write_simps [simp]:
  "write_str b s = emit (str_wire b) s"
  "write_tag t s = emit (tag_wire (ser_mode s) t) s"
  "is_stable_named s \<longleftrightarrow> ser_mode s \<noteq> Positional"
  by (cases "ser_mode s"; simp add: write_str_def str_wire_def write_tag_def tag_wire_def is_stable_named_def)+

abbreviation writes :: "ser_action \<Rightarrow> (encoding_mode \<Rightarrow> bytes) \<Rightarrow> bool" where
  "writes a w \<equiv> \<forall>s. a s = Ok (emit (w (ser_mode s)) s)"

lemma ser_elements_writes:
  "\<forall>x\<in>set xs. writes (ser_of x) (\<lambda>m. wire m x) \<Longrightarrow>
   ser_elements (map ser_of xs) s = Ok (emit (concat (map (wire (ser_mode s)) xs)) s)"
  by (induction xs arbitrary: s) (simp_all add: ser_elements_def serialize_element_def)

lemma ser_entries_writes:
  "\<forall>(k, v)\<in>set es. writes (ser_of k) (\<lambda>m. wire m k) \<and> writes (ser_of v) (\<lambda>m. wire m v) \<Longrightarrow>
   ser_entries (map (map_prod ser_of ser_of) es) s =
     Ok (emit (entries_wire (map (map_prod (wire (ser_mode s)) (wire (ser_mode s))) es)) s)"
  by (induction es arbitrary: s)
    (auto simp: ser_entries_def serialize_key_def serialize_value_def entries_wire_def)

lemma ser_fields_writes:
  "\<forall>(n, v)\<in>set fs. writes (ser_of v) (\<lambda>m. wire m v) \<Longrightarrow>
   ser_fields (map (map_prod id ser_of) fs) s =
     Ok (emit (fields_wire (ser_mode s) (map (map_prod id (wire (ser_mode s))) fs)) s)"
  by (induction fs arbitrary: s)
    (auto simp: ser_fields_def serialize_field_def fields_wire_def name_wire_def)

lemma ser_variant_fields_writes:
  "\<forall>(n, v)\<in>set fs. writes (ser_of v) (\<lambda>m. wire m v) \<Longrightarrow>
   ser_variant_fields (map (map_prod id ser_of) fs) s =
     Ok (emit (fields_wire (ser_mode s) (map (map_prod id (wire (ser_mode s))) fs)) s)"
  by (induction fs arbitrary: s)
    (auto simp: ser_variant_fields_def serialize_variant_field_def fields_wire_def name_wire_def)

lemmas serialize_defs =
  serialize_bool_def serialize_i8_def serialize_i16_def serialize_i32_def serialize_i64_def
  serialize_u8_def serialize_u16_def serialize_u32_def serialize_u64_def serialize_f32_def
  serialize_f64_def serialize_char_def serialize_str_def serialize_bytes_def serialize_none_def
  serialize_some_def serialize_unit_def serialize_unit_struct_def serialize_unit_variant_def
  serialize_newtype_struct_def serialize_newtype_variant_def serialize_seq_def serialize_tuple_def
  serialize_tuple_struct_def serialize_tuple_variant_def serialize_map_def serialize_struct_def
  serialize_struct_variant_def

lemmas wire_defs = tag_wire_def str_wire_def typed_count_def named_count_def variant_wire_def

lemma ser_of_writes: "sized v \<Longrightarrow> writes (ser_of v) (\<lambda>m. wire m v)"
proof (induction v)
  case (VSeq len xs)
  then have "\<forall>x\<in>set xs. writes (ser_of x) (\<lambda>m. wire m x)" by (auto simp: list_all_iff)
  with VSeq.prems show ?case by (simp add: serialize_defs ser_elements_writes)
next
  case (VTuple xs)
  then have "\<forall>x\<in>set xs. writes (ser_of x) (\<lambda>m. wire m x)" by (auto simp: list_all_iff)
  then show ?case by (simp add: serialize_defs ser_elements_writes wire_defs)
next
  case (VTupleStruct xs)
  then have "\<forall>x\<in>set xs. writes (ser_of x) (\<lambda>m. wire m x)" by (auto simp: list_all_iff)
  then show ?case by (simp add: serialize_defs ser_elements_writes wire_defs)
next
  case (VMap len es)
  then have "\<forall>(k, v)\<in>set es. writes (ser_of k) (\<lambda>m. wire m k) \<and> writes (ser_of v) (\<lambda>m. wire m v)"
    by (fastforce simp: list_all_iff)
  with VMap.prems show ?case by (simp add: serialize_defs ser_entries_writes)
next
  case (VStruct fs)
  then have "\<forall>(n, v)\<in>set fs. writes (ser_of v) (\<lambda>m. wire m v)" by (fastforce simp: list_all_iff)
  then show ?case by (simp add: serialize_defs ser_fields_writes wire_defs)
next
  case (VTupleVariant i n xs)
  then have "\<forall>x\<in>set xs. writes (ser_of x) (\<lambda>m. wire m x)" by (auto simp: list_all_iff)
  then show ?case
    by (auto simp: serialize_defs ser_elements_writes wire_defs split: encoding_mode.split)
next
  case (VStructVariant i n fs)
  then have "\<forall>(n, v)\<in>set fs. writes (ser_of v) (\<lambda>m. wire m v)" by (fastforce simp: list_all_iff)
  then show ?case
    by (auto simp: serialize_defs ser_variant_fields_writes wire_defs split: encoding_mode.split)
qed (auto simp: serialize_defs wire_defs split: encoding_mode.split)

end
