(* ===== verification/Wire_Reads.thy ===== *)
theory Wire_Reads
  imports Wire_Format
begin

text \<open>
  The deserializer reads back the wire format.  \<open>reads T m act x bs\<close>: at any position of any input
  where the bytes \<open>bs\<close> come next, \<open>act\<close> returns \<open>x\<close> and stops right after them, in mode \<open>m\<close>, with no
  limits, whenever the identifier flag satisfies \<open>T\<close>.  Each method of the deserializer has a rule.
\<close>

definition reads ::
    "(bool \<Rightarrow> bool) \<Rightarrow> encoding_mode \<Rightarrow> 'a de_action \<Rightarrow> 'a \<Rightarrow> bytes \<Rightarrow> bool" where
  "reads T m act x bs \<longleftrightarrow>
     (\<forall>d rest. de_mode d = m \<longrightarrow> de_limits d = None \<longrightarrow> T (tagged_identifier d) \<longrightarrow>
        length (de_input d) \<le> usize_max \<longrightarrow> de_pos d \<le> length (de_input d) \<longrightarrow>
        drop (de_pos d) (de_input d) = bs @ rest \<longrightarrow>
        act d = Ok (x, d\<lparr>de_pos := de_pos d + length bs\<rparr>))"

abbreviation any_flag :: "bool \<Rightarrow> bool" where
  "any_flag \<equiv> \<lambda>_. True"

lemma readsI:
  assumes "\<And>d rest. de_mode d = m \<Longrightarrow> de_limits d = None \<Longrightarrow> T (tagged_identifier d) \<Longrightarrow>
    length (de_input d) \<le> usize_max \<Longrightarrow> de_pos d + length bs \<le> length (de_input d) \<Longrightarrow>
    drop (de_pos d) (de_input d) = bs @ rest \<Longrightarrow>
    act d = Ok (x, d\<lparr>de_pos := de_pos d + length bs\<rparr>)"
  shows "reads T m act x bs"
  unfolding reads_def
proof (intro allI impI)
  fix d :: deserializer and rest
  assume a: "de_mode d = m" "de_limits d = None" "T (tagged_identifier d)"
    "length (de_input d) \<le> usize_max" "de_pos d \<le> length (de_input d)"
    and e: "drop (de_pos d) (de_input d) = bs @ rest"
  from arg_cong [OF e, of length] a(5) have "de_pos d + length bs \<le> length (de_input d)" by simp
  with a e show "act d = Ok (x, d\<lparr>de_pos := de_pos d + length bs\<rparr>)" by (intro assms)
qed

lemma readsD:
  assumes "reads T m act x bs" "de_mode d = m" "de_limits d = None" "T (tagged_identifier d)"
    "length (de_input d) \<le> usize_max" "de_pos d \<le> length (de_input d)"
    "drop (de_pos d) (de_input d) = bs @ rest"
  shows "act d = Ok (x, d\<lparr>de_pos := de_pos d + length bs\<rparr>)"
  using assms unfolding reads_def by blast

lemma reads_weaken: "reads any_flag m act x bs \<Longrightarrow> reads T m act x bs"
  unfolding reads_def by blast

lemma reads_cong:
  assumes "reads T m act' x bs" "\<And>d. de_mode d = m \<Longrightarrow> de_limits d = None \<Longrightarrow> act d = act' d"
  shows "reads T m act x bs"
  using assms unfolding reads_def by simp

lemma reads_ret [intro]: "reads T m (dret x) x []"
  by (rule readsI) (simp add: dret_def)

lemma reads_lift: "r = Ok x \<Longrightarrow> reads T m (dlift r) x []"
  by (rule readsI) (simp add: dlift_def)

lemma reads_bind:
  assumes a: "reads T m a x bs" and f: "reads T m (f x) y cs"
  shows "reads T m (dbind a f) y (bs @ cs)"
proof (rule readsI)
  fix d :: deserializer and rest
  assume d: "de_mode d = m" "de_limits d = None" "T (tagged_identifier d)"
    "length (de_input d) \<le> usize_max" "de_pos d + length (bs @ cs) \<le> length (de_input d)"
    and e: "drop (de_pos d) (de_input d) = (bs @ cs) @ rest"
  have 1: "a d = Ok (x, d\<lparr>de_pos := de_pos d + length bs\<rparr>)"
    by (rule readsD [OF a]) (use d e in simp_all)
  have "drop (de_pos d + length bs) (de_input d) = drop (length bs) (drop (de_pos d) (de_input d))"
    by (simp add: add.commute)
  then have "drop (de_pos d + length bs) (de_input d) = cs @ rest" by (simp add: e)
  then have "f x (d\<lparr>de_pos := de_pos d + length bs\<rparr>) =
      Ok (y, d\<lparr>de_pos := de_pos d + length bs, de_pos := de_pos d + length bs + length cs\<rparr>)"
    using readsD [OF f, of "d\<lparr>de_pos := de_pos d + length bs\<rparr>" rest] d by simp
  then show "dbind a f d = Ok (y, d\<lparr>de_pos := de_pos d + length (bs @ cs)\<rparr>)"
    by (simp add: dbind_def 1 add.assoc)
qed

lemma reads_bind_last: "reads T m a x bs \<Longrightarrow> reads T m (f x) y [] \<Longrightarrow> reads T m (dbind a f) y bs"
  using reads_bind [of T m a x bs f y "[]"] by simp

lemma reads_bind_first: "reads T m a x [] \<Longrightarrow> reads T m (f x) y bs \<Longrightarrow> reads T m (dbind a f) y bs"
  using reads_bind [of T m a x "[]" f y bs] by simp

lemma reads_with_identifier:
  assumes a: "reads T' m act x bs" and "T' flag"
  shows "reads T m (with_identifier flag act) x bs"
proof (rule readsI)
  fix d :: deserializer and rest
  assume "de_mode d = m" "de_limits d = None" "length (de_input d) \<le> usize_max"
    "de_pos d + length bs \<le> length (de_input d)" "drop (de_pos d) (de_input d) = bs @ rest"
  then show "with_identifier flag act d = Ok (x, d\<lparr>de_pos := de_pos d + length bs\<rparr>)"
    using readsD [OF a, of "d\<lparr>tagged_identifier := flag\<rparr>" rest] assms(2)
    by (simp add: with_identifier_def)
qed

section \<open>Primitive reads\<close>

lemma reads_remaining:
  assumes "\<And>rest. reads T m (f (bs @ rest)) x bs"
  shows "reads T m (dbind remaining f) x bs"
  by (rule readsI) (use readsD [OF assms] in \<open>simp add: dbind_def remaining_def\<close>)

lemma reads_consume: "reads T m (consume (length bs)) bs bs"
  by (rule readsI) (simp add: consume_def Let_def)

lemma reads_u8: "reads T m read_u8 b [b]"
  unfolding read_u8_def
  by (rule reads_bind_last [where x = "[b]"]) (use reads_consume [where bs = "[b]"] in auto)

lemma tag_of_tag_byte [simp]: "tag_of_byte (tag_byte t) = Some t"
  by (cases t) (simp_all add: tag_of_byte_def)

lemma reads_tag:
  "reads T m read_tag (if m = TypedStable then Some t else None) (tag_wire m t)"
proof (cases "m = TypedStable")
  case True
  show ?thesis
    by (rule reads_cong [where act' = "dbind read_u8 (\<lambda>b. case tag_of_byte b of
          None \<Rightarrow> derr (Message ''invalid type tag'' []) | Some tag \<Rightarrow> dret (Some tag))"])
      (use True in \<open>auto simp: read_tag_def tag_wire_def intro!: reads_bind_last reads_u8\<close>)
next
  case False
  then show ?thesis by (intro readsI) (simp add: read_tag_def tag_wire_def)
qed

lemma reads_expect_tag: "reads T m (expect_tag t) () (tag_wire m t)"
  unfolding expect_tag_def by (rule reads_bind_last [OF reads_tag]) auto

lemma reads_after_tag:
  "reads T m (f ()) x bs \<Longrightarrow> reads T m (dbind (expect_tag t) f) x (tag_wire m t @ bs)"
  by (rule reads_bind [OF reads_expect_tag])

lemma reads_varint:
  assumes "\<And>rest. decode (bs @ rest) = Some (x, length bs)"
  shows "reads T m (read_varint decode) x bs"
  unfolding read_varint_def by (rule readsI) (simp add: assms dbind_def remaining_def)

lemma reads_usize: "n \<le> usize_max \<Longrightarrow> reads T m read_varint_usize n (encode_usize n)"
  unfolding read_varint_usize_def
  by (rule reads_bind_last [OF reads_varint])
    (auto simp: decode_encode_usize usize_max_def intro!: readsI)

lemma reads_typed_or:
  "n \<le> usize_max \<Longrightarrow> reads T m (typed_or n) n (typed_count m n)"
  by (rule reads_cong [where act' = "if m = TypedStable then read_varint_usize else dret n"])
    (auto simp: typed_or_def typed_count_def reads_usize)

lemma reads_bytes:
  assumes "length b \<le> usize_max"
  shows "reads T m read_bytes b (str_wire b)"
proof -
  have "reads T m (\<lambda>d. if (case de_limits d of None \<Rightarrow> False | Some limits \<Rightarrow> length b > max_blob_bytes limits)
       then Err (Message ''blob byte budget exceeded'' []) else consume (length b) d) b b"
    by (rule reads_cong [OF reads_consume]) simp
  then show ?thesis
    unfolding read_bytes_def str_wire_def
    by (intro reads_bind reads_varint) (use assms in \<open>simp_all add: decode_encode_usize usize_max_def\<close>)
qed

lemma reads_str:
  "length b \<le> usize_max \<Longrightarrow> from_utf8 b = Utf8Ok \<Longrightarrow> reads T m read_str b (str_wire b)"
  unfolding read_str_def by (rule reads_bind_last [OF reads_bytes]) auto

section \<open>Accesses\<close>

lemma reads_next_element:
  "reads T m seed x bs \<Longrightarrow> acc_remaining acc = Suc n \<Longrightarrow>
   reads T m (next_element_seed seed acc) (Some x, acc\<lparr>acc_remaining := n\<rparr>) bs"
  by (auto simp: next_element_seed_def Let_def intro!: reads_bind_last)

lemma reads_next_value:
  assumes "reads any_flag m seed x bs"
  shows "reads T m (next_value_seed seed acc) x bs"
proof (cases "acc_raw_keys acc")
  case True
  show ?thesis
    unfolding next_value_seed_def if_P [OF True]
    by (rule reads_remaining, rule readsI, rule readsD [OF reads_with_identifier [OF assms]]) auto
next
  case False
  show ?thesis
    unfolding next_value_seed_def if_not_P [OF False]
    by (rule readsI, rule readsD [OF reads_with_identifier [OF assms]]) auto
qed

lemma reads_next_key_raw:
  assumes "acc_raw_keys acc" "acc_remaining acc = Suc n" "length b \<le> usize_max"
    "from_utf8 b = Utf8Ok" "seed_str seed b = Ok k"
  shows "reads T m (next_key_seed seed acc) (Some k, acc\<lparr>acc_remaining := n\<rparr>) (str_wire b)"
  using assms
  by (simp add: next_key_seed_def Let_def,
      intro reads_bind_last [OF reads_str] reads_bind_last [OF reads_lift]) auto

lemma reads_next_key_value:
  assumes "\<not> acc_raw_keys acc" "acc_remaining acc = Suc n" "reads any_flag m (seed_de seed) k bs"
  shows "reads T m (next_key_seed seed acc) (Some k, acc\<lparr>acc_remaining := n\<rparr>) bs"
  using assms
  by (auto simp: next_key_seed_def Let_def intro!: reads_bind_last reads_with_identifier)

section \<open>Visitor loops\<close>

lemma seq_loop_unfold:
  "seq_loop seed acc = dbind (next_element_seed seed acc) (\<lambda>(x, acc).
     case x of None \<Rightarrow> dret [] | Some x \<Rightarrow> dbind (seq_loop seed acc) (\<lambda>xs. dret (x # xs)))"
  by (rule ext) (auto simp: seq_loop.simps [of seed acc] dbind_def dret_def rbind_def
      split: sum.split option.split)

lemma map_loop_unfold:
  "map_loop ks vs acc = dbind (next_key_seed (value_seed ks) acc) (\<lambda>(k, acc).
     case k of
       None \<Rightarrow> dret []
     | Some k \<Rightarrow> dbind (next_value_seed vs acc) (\<lambda>v.
         dbind (map_loop ks vs acc) (\<lambda>es. dret ((k, v) # es))))"
  by (rule ext) (auto simp: map_loop.simps [of ks vs acc] dbind_def dret_def rbind_def
      split: sum.split option.split)

lemma field_loop_unfold:
  "field_loop names seeds slots acc = dbind (next_key_seed (field_ident_seed names) acc) (\<lambda>(k, acc).
     case k of
       None \<Rightarrow> dret slots
     | Some None \<Rightarrow> dbind (next_value_seed ignored_any acc) (\<lambda>_. field_loop names seeds slots acc)
     | Some (Some i) \<Rightarrow>
         if slots ! i \<noteq> None then derr (Message ''duplicate field'' [])
         else dbind (next_value_seed (seeds ! i) acc) (\<lambda>v.
           field_loop names seeds (slots[i := Some v]) acc))"
  by (rule ext) (auto simp: field_loop.simps [of names seeds slots acc] dbind_def dret_def derr_def
      rbind_def split: sum.split option.split)

lemma next_seed_empty:
  "acc_remaining acc = 0 \<Longrightarrow> next_element_seed seed acc = dret (None, acc)"
  "acc_remaining acc = 0 \<Longrightarrow> next_key_seed kseed acc = dret (None, acc)"
  by (simp_all add: next_element_seed_def next_key_seed_def)

lemma reads_seq_loop:
  assumes "list_all2 (\<lambda>x w. reads T m seed x w) xs ws" "acc_remaining acc = length xs"
  shows "reads T m (seq_loop seed acc) xs (concat ws)"
  using assms
proof (induction xs ws arbitrary: acc rule: list_all2_induct)
  case Nil
  then show ?case by (subst seq_loop_unfold) (auto simp: next_seed_empty intro!: reads_bind_last)
next
  case (Cons x xs w ws)
  then show ?case
    by (subst seq_loop_unfold, simp)
      (rule reads_bind [OF reads_next_element], auto intro!: reads_bind_last)
qed

lemma reads_tuple_loop:
  assumes "list_all2 (\<lambda>(seed, x) w. reads T m seed x w) (zip seeds xs) ws"
    "length seeds = length xs" "acc_remaining acc = length xs"
  shows "reads T m (tuple_loop seeds acc) xs (concat ws)"
  using assms(2,1,3)
proof (induction seeds xs arbitrary: acc ws rule: list_induct2)
  case (Cons seed seeds x xs)
  then obtain w ws' where "ws = w # ws'" "reads T m seed x w"
    "list_all2 (\<lambda>(seed, x) w. reads T m seed x w) (zip seeds xs) ws'"
    by (auto simp: list_all2_Cons1)
  with Cons show ?case
    by simp (rule reads_bind [OF reads_next_element], auto intro!: reads_bind_last)
qed auto

lemma reads_map_loop:
  assumes "list_all2 (\<lambda>(k, v) (kw, vw). reads any_flag m ks k kw \<and> reads any_flag m vs v vw) es ws"
    "acc_remaining acc = length es" "\<not> acc_raw_keys acc"
  shows "reads T m (map_loop ks vs acc) es (entries_wire ws)"
  using assms
proof (induction es ws arbitrary: acc rule: list_all2_induct)
  case Nil
  then show ?case
    by (subst map_loop_unfold) (auto simp: next_seed_empty entries_wire_def intro!: reads_bind_last)
next
  case (Cons e es w ws)
  obtain k v kw vw where e: "e = (k, v)" "w = (kw, vw)" by (cases e, cases w) auto
  have "reads T m (dbind (map_loop ks vs (acc\<lparr>acc_remaining := length es\<rparr>))
      (\<lambda>es. dret ((k, v) # es))) ((k, v) # es) (entries_wire ws)"
    using Cons by (auto intro!: reads_bind_last)
  then have "reads T m (map_loop ks vs acc) (e # es) (kw @ vw @ entries_wire ws)"
    using Cons e
    by (subst map_loop_unfold)
      (auto intro!: reads_bind [OF reads_next_key_value [where n = "length es"]]
        reads_bind [OF reads_next_value] simp: value_seed_def)
  then show ?case by (simp add: entries_wire_def e)
qed

text \<open>
  The struct loop.  The slots are a function of the field names, so reading the fields in any order
  adds the association list of what was read.
\<close>

lemma index_of_Some:
  "index_of x ys = Some i \<Longrightarrow> i < length ys \<and> ys ! i = x"
  by (induction ys arbitrary: i) (auto split: if_splits)

lemma index_of_nth: "distinct ys \<Longrightarrow> i < length ys \<Longrightarrow> index_of (ys ! i) ys = Some i"
  by (induction ys arbitrary: i) (auto simp: nth_Cons split: nat.split)

lemma index_of_mem: "x \<in> set ys \<Longrightarrow> \<exists>i. index_of x ys = Some i"
  by (induction ys) auto

lemma update_slots:
  assumes "distinct names" "index_of n names = Some i"
  shows "(map f names)[i := Some v] = map (f(n \<mapsto> v)) names"
proof (rule nth_equalityI)
  fix j assume "j < length ((map f names)[i := Some v])"
  then show "(map f names)[i := Some v] ! j = map (f(n \<mapsto> v)) names ! j"
    using assms index_of_Some [OF assms(2)] by (auto simp: nth_list_update nth_eq_iff_index_eq)
qed simp

lemma reads_field_loop:
  assumes "list_all2 (\<lambda>(n, x) (n', w). n' = n \<and> from_utf8 n = Utf8Ok \<and> length n \<le> usize_max \<and>
      (\<exists>i. index_of n names = Some i \<and> reads any_flag m (seeds ! i) x w)) fs ws"
    "distinct names" "distinct (map fst fs)" "\<forall>n\<in>fst ` set fs. f n = None" "m \<noteq> Positional"
    "acc_remaining acc = length fs" "acc_raw_keys acc"
  shows "reads T m (field_loop names seeds (map f names) acc) (map (f ++ map_of fs) names)
    (fields_wire m ws)"
  using assms
proof (induction fs ws arbitrary: f acc rule: list_all2_induct)
  case Nil
  then show ?case
    by (subst field_loop_unfold) (auto simp: next_seed_empty fields_wire_def intro!: reads_bind_last)
next
  case (Cons e es e' ws)
  obtain n x w where e: "e = (n, x)" "e' = (n, w)" using Cons.hyps by (cases e, cases e') auto
  with Cons.hyps obtain i where i: "index_of n names = Some i" "reads any_flag m (seeds ! i) x w"
    "from_utf8 n = Utf8Ok" "length n \<le> usize_max" by auto
  let ?a = "acc\<lparr>acc_remaining := length es\<rparr>"
  have none: "map f names ! i = None"
    using index_of_Some [OF i(1)] Cons.prems e by simp
  have key: "reads T m (next_key_seed (field_ident_seed names) acc) (Some (Some i), ?a) (str_wire n)"
    using Cons.prems i
    by (intro reads_next_key_raw) (simp_all add: field_ident_seed_def Let_def)
  have "reads T m (field_loop names seeds (map (f(n \<mapsto> x)) names) ?a)
      (map (f(n \<mapsto> x) ++ map_of es) names) (fields_wire m ws)"
    using Cons.prems e by (intro Cons.IH) auto
  moreover have "map_of es n = None"
    using Cons.prems e by (simp add: map_of_eq_None_iff)
  then have "f(n \<mapsto> x) ++ map_of es = f ++ map_of (e # es)"
    by (auto simp: map_add_def e split: option.split)
  ultimately have "reads T m (field_loop names seeds ((map f names)[i := Some x]) ?a)
      (map (f ++ map_of (e # es)) names) (fields_wire m ws)"
    using Cons.prems i by (simp add: update_slots)
  then have "reads T m (field_loop names seeds (map f names) acc) (map (f ++ map_of (e # es)) names)
      (str_wire n @ w @ fields_wire m ws)"
    using none i
    by (subst field_loop_unfold) (auto intro!: reads_bind [OF key] reads_bind [OF reads_next_value])
  moreover have "fields_wire m (e' # ws) = str_wire n @ w @ fields_wire m ws"
    using Cons.prems e by (simp add: fields_wire_def name_wire_def)
  ultimately show ?case by (simp only:)
qed

end
