(* ===== verification/Wire_Roundtrip.thy ===== *)
theory Wire_Roundtrip
  imports Wire_Reads
begin

text \<open>
  Which values a type accepts.  \<open>conforms m sh v w\<close>: the call tree \<open>v\<close> of a writer is read by a type
  of shape \<open>sh\<close> as \<open>w\<close>.  In the named modes a writer may declare the fields of a struct in another
  order and may lack optional fields; in positional mode the fields agree.  The theorem
  \<open>reads_wire\<close> is the decoding half of the codec for all types and all three modes.
\<close>

section \<open>Well-formed types and conforming values\<close>

definition good_name :: "bytes \<Rightarrow> bool" where
  "good_name n \<longleftrightarrow> from_utf8 n = Utf8Ok \<and> length n \<le> usize_max"

definition good_names :: "bytes list \<Rightarrow> bool" where
  "good_names ns \<longleftrightarrow> distinct ns \<and> list_all good_name ns \<and> length ns \<le> usize_max"

primrec wf_shape :: "shape \<Rightarrow> bool" and wf_vshape :: "vshape \<Rightarrow> bool" where
  "wf_shape ShBool = True" | "wf_shape ShI8 = True" | "wf_shape ShI16 = True"
| "wf_shape ShI32 = True" | "wf_shape ShI64 = True" | "wf_shape ShU8 = True"
| "wf_shape ShU16 = True" | "wf_shape ShU32 = True" | "wf_shape ShU64 = True"
| "wf_shape ShF32 = True" | "wf_shape ShF64 = True" | "wf_shape ShChar = True"
| "wf_shape ShStr = True" | "wf_shape ShBytes = True" | "wf_shape (ShOption sh) = wf_shape sh"
| "wf_shape ShUnit = True" | "wf_shape ShUnitStruct = True"
| "wf_shape (ShNewtype sh) = wf_shape sh" | "wf_shape (ShSeq sh) = wf_shape sh"
| "wf_shape (ShTuple shs) = (length shs \<le> usize_max \<and> list_all id (map wf_shape shs))"
| "wf_shape (ShTupleStruct shs) = (length shs \<le> usize_max \<and> list_all id (map wf_shape shs))"
| "wf_shape (ShMap k v) = (wf_shape k \<and> wf_shape v)"
| "wf_shape (ShStruct fs) =
     (good_names (map fst fs) \<and> list_all snd (map (map_prod id wf_shape) fs))"
| "wf_shape (ShEnum vs) =
     (good_names (map fst vs) \<and> length vs \<le> 2 ^ 32 \<and> list_all snd (map (map_prod id wf_vshape) vs))"
| "wf_vshape VsUnit = True" | "wf_vshape (VsNewtype sh) = wf_shape sh"
| "wf_vshape (VsTuple shs) = (length shs \<le> usize_max \<and> list_all id (map wf_shape shs))"
| "wf_vshape (VsStruct fs) =
     (good_names (map fst fs) \<and> list_all snd (map (map_prod id wf_shape) fs))"

definition elems_conform ::
    "(sval \<Rightarrow> sval \<Rightarrow> bool) list \<Rightarrow> sval list \<Rightarrow> sval list \<Rightarrow> bool" where
  "elems_conform ps xs ys \<longleftrightarrow>
     length xs = length ps \<and> length ys = length ps \<and>
     list_all (\<lambda>i. (ps ! i) (xs ! i) (ys ! i)) [0..<length ps]"

definition fields_conform ::
    "encoding_mode \<Rightarrow> bool list \<Rightarrow> (bytes \<times> (sval \<Rightarrow> sval \<Rightarrow> bool)) list \<Rightarrow>
     (bytes \<times> sval) list \<Rightarrow> (bytes \<times> sval) list \<Rightarrow> bool" where
  "fields_conform m opts fs xs ys \<longleftrightarrow>
     map fst ys = map fst fs \<and>
     (if m = Positional
      then map fst xs = map fst fs \<and> elems_conform (map snd fs) (map snd xs) (map snd ys)
      else distinct (map fst xs) \<and> list_all (\<lambda>(n, _). n \<in> set (map fst fs)) xs \<and>
        list_all (\<lambda>i. case map_of xs (fst (fs ! i)) of
            Some x \<Rightarrow> snd (fs ! i) x (snd (ys ! i))
          | None \<Rightarrow> opts ! i \<and> snd (ys ! i) = VNone) [0..<length fs])"

definition variant_head :: "sval \<Rightarrow> (u32 \<times> bytes) option" where
  "variant_head v =
     (case v of
        VUnitVariant i n \<Rightarrow> Some (i, n)
      | VNewtypeVariant i n _ \<Rightarrow> Some (i, n)
      | VTupleVariant i n _ \<Rightarrow> Some (i, n)
      | VStructVariant i n _ \<Rightarrow> Some (i, n)
      | _ \<Rightarrow> None)"

primrec conforms :: "encoding_mode \<Rightarrow> shape \<Rightarrow> sval \<Rightarrow> sval \<Rightarrow> bool"
  and vconforms :: "encoding_mode \<Rightarrow> vshape \<Rightarrow> sval \<Rightarrow> sval \<Rightarrow> bool" where
  "conforms m ShBool v w = (w = v \<and> (case v of VBool _ \<Rightarrow> True | _ \<Rightarrow> False))"
| "conforms m ShI8 v w = (w = v \<and> (case v of VI8 _ \<Rightarrow> True | _ \<Rightarrow> False))"
| "conforms m ShI16 v w = (w = v \<and> (case v of VI16 _ \<Rightarrow> True | _ \<Rightarrow> False))"
| "conforms m ShI32 v w = (w = v \<and> (case v of VI32 _ \<Rightarrow> True | _ \<Rightarrow> False))"
| "conforms m ShI64 v w = (w = v \<and> (case v of VI64 _ \<Rightarrow> True | _ \<Rightarrow> False))"
| "conforms m ShU8 v w = (w = v \<and> (case v of VU8 _ \<Rightarrow> True | _ \<Rightarrow> False))"
| "conforms m ShU16 v w = (w = v \<and> (case v of VU16 _ \<Rightarrow> True | _ \<Rightarrow> False))"
| "conforms m ShU32 v w = (w = v \<and> (case v of VU32 _ \<Rightarrow> True | _ \<Rightarrow> False))"
| "conforms m ShU64 v w = (w = v \<and> (case v of VU64 _ \<Rightarrow> True | _ \<Rightarrow> False))"
| "conforms m ShF32 v w = (w = v \<and> (case v of VF32 _ \<Rightarrow> True | _ \<Rightarrow> False))"
| "conforms m ShF64 v w = (w = v \<and> (case v of VF64 _ \<Rightarrow> True | _ \<Rightarrow> False))"
| "conforms m ShChar v w =
     (w = v \<and> (case v of VChar c \<Rightarrow> char_from_u32 c = Some c | _ \<Rightarrow> False))"
| "conforms m ShStr v w = (w = v \<and> (case v of VStr b \<Rightarrow> good_name b | _ \<Rightarrow> False))"
| "conforms m ShBytes v w = (w = v \<and> (case v of VBytes b \<Rightarrow> length b \<le> usize_max | _ \<Rightarrow> False))"
| "conforms m (ShOption sh) v w =
     (case v of
        VNone \<Rightarrow> w = VNone
      | VSome x \<Rightarrow> (case w of VSome y \<Rightarrow> conforms m sh x y | _ \<Rightarrow> False)
      | _ \<Rightarrow> False)"
| "conforms m ShUnit v w = (w = v \<and> v = VUnit)"
| "conforms m ShUnitStruct v w = (w = v \<and> v = VUnitStruct)"
| "conforms m (ShNewtype sh) v w =
     (case v of
        VNewtype x \<Rightarrow> (case w of VNewtype y \<Rightarrow> conforms m sh x y | _ \<Rightarrow> False)
      | _ \<Rightarrow> False)"
| "conforms m (ShSeq sh) v w =
     (case v of
        VSeq len xs \<Rightarrow>
          (case w of
             VSeq len' ys \<Rightarrow>
               len = Some (length xs) \<and> len' = Some (length ys) \<and> length xs \<le> usize_max \<and>
               list_all2 (conforms m sh) xs ys
           | _ \<Rightarrow> False)
      | _ \<Rightarrow> False)"
| "conforms m (ShTuple shs) v w =
     (case v of
        VTuple xs \<Rightarrow>
          (case w of VTuple ys \<Rightarrow> elems_conform (map (conforms m) shs) xs ys | _ \<Rightarrow> False)
      | _ \<Rightarrow> False)"
| "conforms m (ShTupleStruct shs) v w =
     (case v of
        VTupleStruct xs \<Rightarrow>
          (case w of VTupleStruct ys \<Rightarrow> elems_conform (map (conforms m) shs) xs ys | _ \<Rightarrow> False)
      | _ \<Rightarrow> False)"
| "conforms m (ShMap ks vs) v w =
     (case v of
        VMap len xs \<Rightarrow>
          (case w of
             VMap len' ys \<Rightarrow>
               len = Some (length xs) \<and> len' = Some (length ys) \<and> length xs \<le> usize_max \<and>
               list_all2 (\<lambda>(a, b) (c, d). conforms m ks a c \<and> conforms m vs b d) xs ys
           | _ \<Rightarrow> False)
      | _ \<Rightarrow> False)"
| "conforms m (ShStruct fs) v w =
     (case v of
        VStruct xs \<Rightarrow>
          (case w of
             VStruct ys \<Rightarrow>
               fields_conform m (map (\<lambda>(_, sh). is_option sh) fs)
                 (map (map_prod id (conforms m)) fs) xs ys
           | _ \<Rightarrow> False)
      | _ \<Rightarrow> False)"
| "conforms m (ShEnum vs) v w =
     (case variant_head v of
        Some (i, n) \<Rightarrow>
          variant_head w = Some (i, n) \<and> unat i < length vs \<and> fst (vs ! unat i) = n \<and>
          snd (map (map_prod id (vconforms m)) vs ! unat i) v w
      | None \<Rightarrow> False)"
| "vconforms m VsUnit v w = (w = v \<and> (case v of VUnitVariant i n \<Rightarrow> True | _ \<Rightarrow> False))"
| "vconforms m (VsNewtype sh) v w =
     (case v of
        VNewtypeVariant i n x \<Rightarrow>
          (case w of VNewtypeVariant j k y \<Rightarrow> conforms m sh x y | _ \<Rightarrow> False)
      | _ \<Rightarrow> False)"
| "vconforms m (VsTuple shs) v w =
     (case v of
        VTupleVariant i n xs \<Rightarrow>
          (case w of
             VTupleVariant j k ys \<Rightarrow> elems_conform (map (conforms m) shs) xs ys
           | _ \<Rightarrow> False)
      | _ \<Rightarrow> False)"
| "vconforms m (VsStruct fs) v w =
     (case v of
        VStructVariant i n xs \<Rightarrow>
          (case w of
             VStructVariant j k ys \<Rightarrow>
               fields_conform m (map (\<lambda>(_, sh). is_option sh) fs)
                 (map (map_prod id (conforms m)) fs) xs ys
           | _ \<Rightarrow> False)
      | _ \<Rightarrow> False)"

section \<open>Tuples and fields\<close>

lemma reads_tuple:
  assumes "elems_conform (map (conforms m) shs) xs ys" "acc_remaining acc = length shs"
    "\<And>sh v w. sh \<in> set shs \<Longrightarrow> conforms m sh v w \<Longrightarrow> reads T m (de_of sh) w (wire m v)"
  shows "reads T m (tuple_loop (map de_of shs) acc) ys (concat (map (wire m) xs))"
  using assms
  by (intro reads_tuple_loop) (auto simp: elems_conform_def list_all2_conv_all_nth list_all_iff)

lemma no_visitor_simps [simp]:
  "visit_seq (tuple_visitor mk' seeds) acc = dbind (tuple_loop seeds acc) (\<lambda>xs. dret (mk' xs))"
  "visit_seq (fields_visitor mk opts fs) acc =
     dbind (tuple_loop (map snd fs) acc) (\<lambda>xs. dret (mk (zip (map fst fs) xs)))"
  "visit_map (fields_visitor mk opts fs) acc =
     dbind (field_loop (map fst fs) (map snd fs) (replicate (length fs) None) acc)
       (\<lambda>slots. dbind (dlift (fill opts slots)) (\<lambda>xs. dret (mk (zip (map fst fs) xs))))"
  by (simp_all add: tuple_visitor_def fields_visitor_def)

lemma fill_Ok:
  assumes "length slots = length vs" "length opts = length vs"
    "\<And>i. i < length vs \<Longrightarrow> slots ! i = Some (vs ! i) \<or> slots ! i = None \<and> opts ! i \<and> vs ! i = VNone"
  shows "fill opts slots = Ok vs"
  using assms
proof (induction slots vs arbitrary: opts rule: list_induct2)
  case (Cons s slots v vs)
  then obtain b bs where o: "opts = b # bs" by (cases opts) auto
  have "slots ! i = Some (vs ! i) \<or> slots ! i = None \<and> bs ! i \<and> vs ! i = VNone"
    if "i < length vs" for i using Cons.prems(2) [of "Suc i"] that by (simp add: o)
  then have "fill bs slots = Ok vs" using Cons.prems(1) by (intro Cons.IH) (simp_all add: o)
  moreover have "s = Some v \<or> s = None \<and> b \<and> v = VNone" using Cons.prems(2) [of 0] by (simp add: o)
  ultimately show ?case by (auto simp: o)
qed simp

lemma reads_fields_positional:
  assumes "fields_conform Positional opts (map (map_prod id (conforms Positional)) fs) xs ys"
    "acc_remaining acc = length fs"
    "\<And>n sh v w. (n, sh) \<in> set fs \<Longrightarrow> conforms Positional sh v w \<Longrightarrow>
       reads T Positional (de_of sh) w (wire Positional v)"
  shows "reads T Positional (visit_seq (fields_visitor mk opts (map (map_prod id de_of) fs)) acc)
    (mk ys) (fields_wire Positional (map (map_prod id (wire Positional)) xs))"
proof -
  have wire: "fields_wire Positional (map (map_prod id (wire Positional)) xs) =
      concat (map (wire Positional) (map snd xs))"
    by (simp add: fields_wire_def name_wire_def case_prod_beta comp_def)
  have "elems_conform (map (conforms Positional) (map snd fs)) (map snd xs) (map snd ys)"
    using assms(1) by (simp add: fields_conform_def comp_def)
  then have "reads T Positional (tuple_loop (map de_of (map snd fs)) acc) (map snd ys)
      (concat (map (wire Positional) (map snd xs)))"
    using assms(2,3) by (intro reads_tuple) auto
  moreover have "zip (map fst fs) (map snd ys) = ys"
    using assms(1) by (simp add: fields_conform_def comp_def) (metis zip_map_fst_snd)
  ultimately show ?thesis
    by (auto simp: wire comp_def intro!: reads_bind_last)
qed

lemma reads_fields_named:
  assumes c: "fields_conform m opts (map (map_prod id (conforms m)) fs) xs ys"
    and m: "m \<noteq> Positional" and g: "good_names (map fst fs)" "length opts = length fs"
    and r: "\<And>n sh v w. (n, sh) \<in> set fs \<Longrightarrow> conforms m sh v w \<Longrightarrow> reads any_flag m (de_of sh) w (wire m v)"
  shows "reads T m (visit_map (fields_visitor mk opts (map (map_prod id de_of) fs))
      \<lparr>acc_remaining = length xs, acc_raw_keys = True\<rparr>)
    (mk ys) (fields_wire m (map (map_prod id (wire m)) xs))"
proof -
  let ?names = "map fst fs" and ?seeds = "map (de_of \<circ> snd) fs"
  let ?zs = "map (\<lambda>(n, x). (n, the (map_of ys n))) xs"
  have ys: "map fst ys = ?names" and dx: "distinct (map fst xs)" "\<forall>(n, x)\<in>set xs. n \<in> set ?names"
    and dn: "distinct ?names"
    using c m g by (auto simp: fields_conform_def list_all_iff comp_def good_names_def)
  have each: "case map_of xs (fst (fs ! i)) of
      Some x \<Rightarrow> conforms m (snd (fs ! i)) x (snd (ys ! i))
    | None \<Rightarrow> opts ! i \<and> snd (ys ! i) = VNone" if "i < length fs" for i
    using c m that
    by (auto simp: fields_conform_def list_all_iff dest!: bspec [where x = i] split: option.splits)
  have val: "map_of ys (fst (fs ! i)) = Some (snd (ys ! i))" if "i < length fs" for i
  proof -
    have "length ys = length fs" using arg_cong [OF ys, of length] by simp
    moreover from this have "fst (ys ! i) = fst (fs ! i)"
      using arg_cong [OF ys, of "\<lambda>l. l ! i"] that by simp
    ultimately show ?thesis
      using that dn ys by (metis map_of_eq_Some_iff nth_mem prod.collapse)
  qed
  have elem: "\<exists>i. index_of n ?names = Some i \<and> reads any_flag m (?seeds ! i) (the (map_of ys n)) (wire m x)"
    if nx: "(n, x) \<in> set xs" for n x
  proof -
    from nx dx obtain i where i: "index_of n ?names = Some i" using index_of_mem by fastforce
    with index_of_Some have l: "i < length fs" "n = fst (fs ! i)" by fastforce+
    then have "conforms m (snd (fs ! i)) x (snd (ys ! i))"
      using each [of i] dx(1) nx by simp
    then have "reads any_flag m (de_of (snd (fs ! i))) (snd (ys ! i)) (wire m x)"
      using r l by (metis nth_mem prod.collapse)
    with i l val [of i] show ?thesis by auto
  qed
  have "reads T m (field_loop ?names ?seeds (map (\<lambda>_. None) ?names)
      \<lparr>acc_remaining = length xs, acc_raw_keys = True\<rparr>)
      (map ((\<lambda>_. None) ++ map_of ?zs) ?names) (fields_wire m (map (map_prod id (wire m)) xs))"
  proof (rule reads_field_loop)
    show "list_all2 (\<lambda>(n, x) (n', w). n' = n \<and> from_utf8 n = Utf8Ok \<and> length n \<le> usize_max \<and>
        (\<exists>i. index_of n ?names = Some i \<and> reads any_flag m (?seeds ! i) x w))
        ?zs (map (map_prod id (wire m)) xs)"
      using elem dx g
      by (fastforce simp: list_all2_conv_all_nth good_names_def good_name_def list_all_iff
          split: prod.split dest: nth_mem)
  qed (use dx dn m in \<open>simp_all add: comp_def case_prod_beta\<close>)
  moreover have "fill opts (map ((\<lambda>_. None) ++ map_of ?zs) ?names) = Ok (map snd ys)"
  proof (rule fill_Ok)
    fix i assume "i < length (map snd ys)"
    then have i: "i < length fs" using arg_cong [OF ys, of length] by simp
    have "map_of ?zs n = map_option (\<lambda>_. the (map_of ys n)) (map_of xs n)" for n
      by (induction xs) auto
    then show "map ((\<lambda>_. None) ++ map_of ?zs) ?names ! i = Some (map snd ys ! i) \<or>
        map ((\<lambda>_. None) ++ map_of ?zs) ?names ! i = None \<and> opts ! i \<and> map snd ys ! i = VNone"
      using each [OF i] val [OF i] i arg_cong [OF ys, of length] by (auto split: option.splits)
  qed (use arg_cong [OF ys, of length] g in simp_all)
  moreover have "zip ?names (map snd ys) = ys" by (metis ys zip_map_fst_snd)
  ultimately show ?thesis
    by (auto simp: comp_def map_replicate_const intro!: reads_bind_last reads_lift)
qed

section \<open>Scalars\<close>

lemma split8: "ucast (ucast w :: u8) OR push_bit 8 (drop_bit 8 w) = w" for w :: "'a::len word"
proof (rule bit_word_eqI)
  fix n assume "n < LENGTH('a)"
  then show "bit (ucast (ucast w :: u8) OR push_bit 8 (drop_bit 8 w)) n = bit w n"
    by (cases "n < 8") (auto simp: bit_simps)
qed

lemma drop_all: "drop_bit 32 x = 0" "drop_bit 64 y = 0" for x :: u32 and y :: u64
  by (rule bit_word_eqI, simp add: bit_simps)+

lemma le_bytes_roundtrip:
  "from_le_bytes 4 (le_bytes32 x) = Some x" "from_le_bytes 8 (le_bytes64 y) = Some y"
proof -
  have step: "ucast (ucast (drop_bit k w) :: u8) OR push_bit 8 (drop_bit (k + 8) w) = drop_bit k w"
    for w :: "'a::len word" and k
    using split8 [of "drop_bit k w"] by (simp add: add.commute)
  show "from_le_bytes 4 (le_bytes32 x) = Some x"
    using step [of 0 x] step [of 8 x] step [of 16 x] step [of 24 x]
    by (simp add: from_le_bytes_def le_bytes32_def drop_all)
  show "from_le_bytes 8 (le_bytes64 y) = Some y"
    using step [of 0 y] step [of 8 y] step [of 16 y] step [of 24 y] step [of 32 y] step [of 40 y]
      step [of 48 y] step [of 56 y]
    by (simp add: from_le_bytes_def le_bytes64_def drop_all)
qed

lemma length_le_bytes [simp]: "length (le_bytes32 x) = 4" "length (le_bytes64 y) = 8"
  by (simp_all add: le_bytes32_def le_bytes64_def)

lemma i8_roundtrip: "i8_of_i16 (scast x) = Ok x"
proof -
  have "sint (scast x :: i16) = sint x"
    using sint_greater_eq [of x] sint_less [of x]
    by (simp add: signed_scast_eq signed_take_bit_int_eq_self)
  moreover have "scast (scast x :: i16) = x"
  proof (rule bit_word_eqI)
    fix n assume "n < LENGTH(8)"
    then show "bit (scast (scast x :: i16) :: u8) n = bit x n"
      by (cases "n = 7") (auto simp: bit_simps min_def)
  qed
  ultimately show ?thesis
    using sint_greater_eq [of x] sint_less [of x] by (simp add: i8_of_i16_def)
qed

lemma reads_consumeI: "n = length bs \<Longrightarrow> reads T m (consume n) bs bs"
  by (simp add: reads_consume)

lemmas deserialize_defs =
  deserialize_bool_def deserialize_i8_def deserialize_i16_def deserialize_i32_def
  deserialize_i64_def deserialize_u8_def deserialize_u16_def deserialize_u32_def
  deserialize_u64_def deserialize_f32_def deserialize_f64_def deserialize_char_def
  deserialize_string_def deserialize_byte_buf_def deserialize_unit_def
  deserialize_unit_struct_def deserialize_newtype_struct_def

lemmas varint_readers =
  read_varint_u64_def read_varint_u32_def read_varint_u16_def read_varint_i16_def
  read_varint_i32_def read_varint_i64_def

lemma reads_scalar:
  assumes "conforms m sh v w" "sh \<in> {ShBool, ShI8, ShI16, ShI32, ShI64, ShU8, ShU16, ShU32, ShU64,
    ShF32, ShF64, ShChar, ShStr, ShBytes, ShUnit, ShUnitStruct}"
  shows "reads T m (de_of sh) w (wire m v)"
proof -
  have unit: "reads T m (dbind (expect_tag t) (\<lambda>_. dlift (Ok x))) x (tag_wire m t)" for t and x :: sval
    by (rule reads_bind_last [OF reads_expect_tag]) (simp add: reads_lift)
  show ?thesis
    using assms
    by (auto simp: deserialize_defs varint_readers unit good_name_def le_bytes_roundtrip i8_roundtrip
        varint_rt
        split: sval.splits
        intro!: reads_after_tag reads_bind_last [OF reads_u8] reads_bind_last [OF reads_varint]
        reads_bind_last [OF reads_consumeI] reads_bind_last [OF reads_str]
        reads_bind_last [OF reads_bytes] reads_lift)
qed

section \<open>Compound values\<close>

lemma reads_if_mode:
  "(m = c \<Longrightarrow> reads T m a x bs) \<Longrightarrow> (m \<noteq> c \<Longrightarrow> reads T m b x bs) \<Longrightarrow>
   reads T m (\<lambda>d. if de_mode d = c then a d else b d) x bs"
  unfolding reads_def by (cases "m = c") auto

lemma reads_option_none:
  "visit_none V = Ok x \<Longrightarrow> reads T m (deserialize_option V) x (wire m VNone)"
  unfolding deserialize_option_def [abs_def]
proof (rule reads_if_mode, goal_cases)
  case 1
  then have "reads T m read_tag (Some TagNone) (wire m VNone)"
    using reads_tag [where T = T and m = m and t = TagNone] by (simp add: tag_wire_def)
  from this show ?case by (rule reads_bind_last) (use 1 in \<open>simp add: reads_lift\<close>)
next
  case 2
  then have "reads T m read_u8 0 (wire m VNone)" by (simp add: reads_u8)
  from this show ?case by (rule reads_bind_last) (use 2 in \<open>simp add: reads_lift\<close>)
qed

lemma reads_option_some:
  assumes "reads T m (visit_some V) x bs"
  shows "reads T m (deserialize_option V) x ((if m = TypedStable then [tag_byte TagSome] else [1]) @ bs)"
  unfolding deserialize_option_def [abs_def]
proof (rule reads_if_mode, goal_cases)
  case 1
  then have "reads T m read_tag (Some TagSome) (if m = TypedStable then [tag_byte TagSome] else [1])"
    using reads_tag [where T = T and m = m and t = TagSome] by (simp add: tag_wire_def)
  from this show ?case by (rule reads_bind) (use assms in simp)
next
  case 2
  then have "reads T m read_u8 1 (if m = TypedStable then [tag_byte TagSome] else [1])"
    by (simp add: reads_u8)
  from this show ?case by (rule reads_bind) (use assms in simp)
qed

lemma reads_struct:
  assumes "m = Positional \<Longrightarrow>
      reads T m (visit_seq V \<lparr>acc_remaining = length fs, acc_raw_keys = False\<rparr>) x bs"
    "m \<noteq> Positional \<Longrightarrow> reads T m (visit_map V \<lparr>acc_remaining = n, acc_raw_keys = True\<rparr>) x bs"
    "n \<le> usize_max"
  shows "reads T m (struct_variant fs V DirectAccess) x (named_count m n @ bs)"
    "reads T m (deserialize_struct fs V) x (tag_wire m TagStruct @ named_count m n @ bs)"
proof -
  have eq: "struct_variant fs V DirectAccess = (\<lambda>d. if de_mode d = Positional
      then visit_seq V \<lparr>acc_remaining = length fs, acc_raw_keys = False\<rparr> d
      else dbind read_varint_usize
        (\<lambda>len. visit_map V \<lparr>acc_remaining = len, acc_raw_keys = True\<rparr>) d)"
    by (rule ext) (simp add: struct_variant_def split: encoding_mode.split)
  show 1: "reads T m (struct_variant fs V DirectAccess) x (named_count m n @ bs)"
    unfolding eq
  proof (rule reads_if_mode, goal_cases)
    case 1
    then show ?case using assms(1) by (simp add: named_count_def)
  next
    case 2
    then have "reads T m read_varint_usize n (named_count m n)"
      using assms(3) by (simp add: named_count_def reads_usize)
    from this show ?case by (rule reads_bind) (use 2 assms(2) in simp)
  qed
  have "deserialize_struct fs V =
      dbind (expect_tag TagStruct) (\<lambda>_. struct_variant fs V DirectAccess)"
    by (simp add: deserialize_struct_def struct_variant_def [abs_def])
  with 1 show "reads T m (deserialize_struct fs V) x (tag_wire m TagStruct @ named_count m n @ bs)"
    by (simp add: reads_after_tag)
qed

lemma reads_fields:
  assumes c: "fields_conform m opts (map (map_prod id (conforms m)) fs) xs ys"
    and g: "good_names (map fst fs)" "length opts = length fs"
    and r: "\<And>n sh v w. (n, sh) \<in> set fs \<Longrightarrow> conforms m sh v w \<Longrightarrow> reads any_flag m (de_of sh) w (wire m v)"
  defines "V mk \<equiv> fields_visitor mk opts (map (map_prod id de_of) fs)"
    and "bs \<equiv> named_count m (length xs) @ fields_wire m (map (map_prod id (wire m)) xs)"
  shows "reads T m (struct_variant (map fst fs) (V mk) DirectAccess) (mk ys) bs"
    "reads T m (deserialize_struct (map fst fs) (V mk)) (mk ys) (tag_wire m TagStruct @ bs)"
proof -
  have len: "length xs \<le> usize_max"
  proof (cases "m = Positional")
    case True
    then have "map fst xs = map fst fs" using c by (simp add: fields_conform_def comp_def)
    then have "length xs = length fs" by (metis length_map)
    then show ?thesis using g by (simp add: good_names_def)
  next
    case False
    then have "distinct (map fst xs)" "set (map fst xs) \<subseteq> set (map fst fs)"
      using c by (auto simp: fields_conform_def list_all_iff comp_def)
    then have "length (map fst xs) \<le> length (map fst fs)"
      using card_mono [of "set (map fst fs)" "set (map fst xs)"] g
      by (simp only: good_names_def distinct_card finite_set)
    then show ?thesis using g by (simp add: good_names_def)
  qed
  have seq: "reads T m (visit_seq (V mk) \<lparr>acc_remaining = length (map fst fs), acc_raw_keys = False\<rparr>)
      (mk ys) (fields_wire m (map (map_prod id (wire m)) xs))" if "m = Positional"
    unfolding V_def that
  proof (rule reads_fields_positional)
    fix n sh v w assume "(n, sh) \<in> set fs" "conforms Positional sh v w"
    then have "reads any_flag Positional (de_of sh) w (wire Positional v)" using r that by simp
    then show "reads T Positional (de_of sh) w (wire Positional v)" by (rule reads_weaken)
  qed (use c that in simp_all)
  have map: "reads T m (visit_map (V mk) \<lparr>acc_remaining = length xs, acc_raw_keys = True\<rparr>)
      (mk ys) (fields_wire m (map (map_prod id (wire m)) xs))" if "m \<noteq> Positional"
    unfolding V_def by (rule reads_fields_named [OF c that g]) (rule r)
  show "reads T m (struct_variant (map fst fs) (V mk) DirectAccess) (mk ys) bs"
    unfolding bs_def by (rule reads_struct(1)) (fact seq map len)+
  show "reads T m (deserialize_struct (map fst fs) (V mk)) (mk ys) (tag_wire m TagStruct @ bs)"
    unfolding bs_def by (rule reads_struct(2)) (fact seq map len)+
qed

definition body_wire :: "encoding_mode \<Rightarrow> sval \<Rightarrow> bytes" where
  "body_wire m v =
     (case v of
        VUnitVariant i n \<Rightarrow> typed_count m 0
      | VNewtypeVariant i n x \<Rightarrow> typed_count m 1 @ wire m x
      | VTupleVariant i n xs \<Rightarrow> typed_count m (length xs) @ concat (map (wire m) xs)
      | VStructVariant i n fs \<Rightarrow>
          named_count m (length fs) @ fields_wire m (map (map_prod id (wire m)) fs)
      | _ \<Rightarrow> [])"

lemma wire_variant: "variant_head v = Some (i, n) \<Longrightarrow> wire m v = variant_wire m i n @ body_wire m v"
  by (cases v) (simp_all add: variant_head_def body_wire_def)

lemma reads_variant_seed:
  assumes "good_names names" "unat i < length names"
  shows "reads Not m (variant_seed (variant_ident_seed names) DirectAccess) (unat i, DirectAccess)
    (if m = Positional then encode_u32 i else str_wire (names ! unat i))"
proof -
  let ?n = "names ! unat i" and ?V = "variant_ident names"
  have g: "index_of ?n names = Some (unat i)" "good_name ?n"
    using assms by (auto simp: good_names_def list_all_iff intro: index_of_nth)
  have "reads Not m (deserialize_identifier ?V) (unat i) (if m = Positional then encode_u32 i else str_wire ?n)"
  proof (cases "m = Positional")
    case True
    have "reads Not m (dbind read_varint_u32 (\<lambda>x. dlift (visit_u32 ?V x))) (unat i) (encode_u32 i)"
      unfolding read_varint_u32_def
      by (rule reads_bind_last [OF reads_varint])
        (use assms in \<open>auto simp: varint_rt variant_ident_def intro!: reads_lift\<close>)
    with True show ?thesis
      using reads_cong [of Not m "dbind read_varint_u32 (\<lambda>x. dlift (visit_u32 ?V x))"]
      by (simp add: deserialize_identifier_def)
  next
    case False
    have str: "reads Not m (dbind read_str (\<lambda>x. dlift (visit_str ?V x))) (unat i) (str_wire ?n)"
      using g by (auto simp: good_name_def variant_ident_def intro!: reads_bind_last [OF reads_str] reads_lift)
    have "deserialize_identifier ?V d = dbind read_str (\<lambda>x. dlift (visit_str ?V x)) d"
      if "de_mode d = m" "\<not> tagged_identifier d" for d
      using that False by (cases m) (simp_all add: deserialize_identifier_def dbind_def dret_def)
    with str False show ?thesis unfolding reads_def by simp
  qed
  then show ?thesis by (auto simp: variant_seed_def variant_ident_seed_def intro!: reads_bind_last)
qed

lemma reads_variant_counts:
  "reads T m (unit_variant DirectAccess) () (typed_count m 0)"
  "reads T m seed x bs \<Longrightarrow> reads T m (newtype_variant_seed seed DirectAccess) x (typed_count m 1 @ bs)"
proof -
  have eq: "unit_variant DirectAccess = (\<lambda>d. if de_mode d = TypedStable
      then dbind read_varint_usize (\<lambda>n. if n \<noteq> 0
        then derr (Message ''unit variant expected 0 fields'' [CountArg n]) else dret ()) d
      else dret () d)"
    by (rule ext) (simp add: unit_variant_def dret_def)
  show "reads T m (unit_variant DirectAccess) () (typed_count m 0)"
    unfolding eq
    by (rule reads_if_mode)
      (auto simp: typed_count_def usize_max_def intro!: reads_bind_last [OF reads_usize])
  show "reads T m (newtype_variant_seed seed DirectAccess) x (typed_count m 1 @ bs)"
    if "reads T m seed x bs"
    unfolding newtype_variant_seed_def [abs_def] enum_access.case
    by (rule reads_if_mode)
      (use that in \<open>auto simp: typed_count_def usize_max_def intro!: reads_bind [OF reads_usize]\<close>)
qed

section \<open>All types\<close>

theorem reads_wire:
  "wf_shape sh \<Longrightarrow> conforms m sh v w \<Longrightarrow> reads any_flag m (de_of sh) w (wire m v)"
  and reads_body:
  "wf_vshape vs \<Longrightarrow> vconforms m vs v w \<Longrightarrow> variant_head v = Some (i, n) \<Longrightarrow>
   variant_head w = Some (i, n) \<Longrightarrow>
   reads any_flag m (de_variant vs i n DirectAccess) w (body_wire m v)"
proof (induction sh and vs arbitrary: v w and v w i n)
  case (ShOption sh)
  then consider "v = VNone" "w = VNone" | x y where "v = VSome x" "w = VSome y" "conforms m sh x y"
    by (auto split: sval.splits)
  then show ?case
  proof cases
    case 1
    then show ?thesis by (simp only: de_of.simps) (rule reads_option_none, simp)
  next
    case 2
    with ShOption show ?thesis
      by (simp only: de_of.simps wire.simps)
        (rule reads_option_some, auto intro!: reads_bind_last)
  qed
next
  case (ShNewtype sh)
  then show ?case
    by (auto simp: deserialize_newtype_struct_def split: sval.splits intro!: reads_bind_last)
next
  case (ShSeq sh)
  then obtain xs ys where v: "v = VSeq (Some (length xs)) xs" "w = VSeq (Some (length ys)) ys"
    "length xs \<le> usize_max" and c: "list_all2 (conforms m sh) xs ys"
    by (auto split: sval.splits)
  have len: "length ys = length xs" using c by (auto dest: list_all2_lengthD)
  have "list_all2 (\<lambda>y b. reads any_flag m (de_of sh) y b) ys (map (wire m) xs)"
    using c ShSeq by (auto simp: list_all2_conv_all_nth)
  then show ?case
    using v len
    by (auto simp: deserialize_seq_def intro!: reads_after_tag reads_bind [OF reads_usize]
        reads_bind_last [OF reads_seq_loop])
next
  case (ShTuple shs)
  then show ?case
    by (auto simp: deserialize_tuple_def list_all_iff elems_conform_def split: sval.splits
        intro!: reads_after_tag reads_bind [OF reads_typed_or] reads_bind_last [OF reads_tuple])
next
  case (ShTupleStruct shs)
  then show ?case
    by (auto simp: deserialize_tuple_struct_def list_all_iff elems_conform_def split: sval.splits
        intro!: reads_after_tag reads_bind [OF reads_typed_or] reads_bind_last [OF reads_tuple])
next
  case (ShMap ks vs)
  then obtain xs ys where v: "v = VMap (Some (length xs)) xs" "w = VMap (Some (length ys)) ys"
    "length xs \<le> usize_max"
    and c: "list_all2 (\<lambda>(a, b) (c, d). conforms m ks a c \<and> conforms m vs b d) xs ys"
    by (auto split: sval.splits)
  have len: "length ys = length xs" using c by (auto dest: list_all2_lengthD)
  have "list_all2 (\<lambda>(k, y) (kw, yw). reads any_flag m (de_of ks) k kw \<and> reads any_flag m (de_of vs) y yw)
      ys (map (map_prod (wire m) (wire m)) xs)"
  proof (rule list_all2_all_nthI)
    fix j assume j: "j < length ys"
    obtain a b where xj: "xs ! j = (a, b)" by (cases "xs ! j")
    obtain a' b' where yj: "ys ! j = (a', b')" by (cases "ys ! j")
    have "conforms m ks a a'" "conforms m vs b b'"
      using list_all2_nthD2 [OF c j] by (simp_all add: xj yj)
    then show "(\<lambda>(k, y) (kw, yw). reads any_flag m (de_of ks) k kw \<and> reads any_flag m (de_of vs) y yw)
        (ys ! j) (map (map_prod (wire m) (wire m)) xs ! j)"
      using ShMap.IH ShMap.prems(1) j len by (simp add: xj yj)
  qed (simp add: len)
  then show ?case
    using v len
    by (auto simp: deserialize_map_def intro!: reads_after_tag reads_bind [OF reads_usize]
        reads_bind_last [OF reads_map_loop])
next
  case (ShStruct fs)
  then obtain xs ys where v: "v = VStruct xs" "w = VStruct ys"
    and c: "fields_conform m (map (\<lambda>(_, sh). is_option sh) fs) (map (map_prod id (conforms m)) fs) xs ys"
    by (auto split: sval.splits)
  have "reads any_flag m (de_of sh) w' (wire m v')"
    if "(n, sh) \<in> set fs" "conforms m sh v' w'" for n sh v' w'
    using ShStruct that by (force simp: list_all_iff)
  then show ?case
    unfolding v de_of.simps wire.simps
    by (intro reads_fields(2) [OF c]) (use ShStruct.prems in simp_all)
next
  case (ShEnum vs)
  then obtain i n where h: "variant_head v = Some (i, n)" "variant_head w = Some (i, n)"
    and i: "unat i < length vs" "fst (vs ! unat i) = n"
    and c: "vconforms m (snd (vs ! unat i)) v w"
    by (auto split: option.splits)
  have wf: "good_names (map fst vs)" "wf_vshape (snd (vs ! unat i))"
    using ShEnum.prems i by (auto simp: list_all_iff)
  have body: "reads any_flag m (de_variant (snd (vs ! unat i)) i n DirectAccess) w (body_wire m v)"
    by (rule ShEnum.IH [OF nth_mem [OF i(1)] _ wf(2) c h]) (cases "vs ! unat i", simp)
  have seed: "reads Not m (variant_seed (variant_ident_seed (map fst vs)) DirectAccess)
      (unat i, DirectAccess) (if m = Positional then encode_u32 i else str_wire n)"
    using reads_variant_seed [OF wf(1), of i m] i by (simp only: length_map nth_map)
  have "reads Not m (dbind (variant_seed (variant_ident_seed (map fst vs)) DirectAccess)
      (\<lambda>(k, ea). case map (map_prod id de_variant) vs ! k of (n, body) \<Rightarrow> body (word_of_nat k) n ea))
      w ((if m = Positional then encode_u32 i else str_wire n) @ body_wire m v)"
    by (rule reads_bind [OF seed]) (use i reads_weaken [OF body, of Not] in \<open>simp add: case_prod_beta\<close>)
  from reads_with_identifier [OF this, of False] show ?case
    by (auto simp: deserialize_enum_def wire_variant [OF h(1)] variant_wire_def
        intro!: reads_after_tag)
next
  case VsUnit
  then show ?case
    by (auto simp: variant_head_def body_wire_def split: sval.splits
        intro!: reads_bind_last [OF reads_variant_counts(1)])
next
  case (VsNewtype sh)
  then show ?case
    by (auto simp: variant_head_def body_wire_def simp del: One_nat_def split: sval.splits
        intro!: reads_bind_last [OF reads_variant_counts(2)])
next
  case (VsTuple shs)
  then show ?case
    by (auto simp: variant_head_def body_wire_def tuple_variant_def list_all_iff elems_conform_def
        split: sval.splits intro!: reads_bind [OF reads_typed_or] reads_bind_last [OF reads_tuple])
next
  case (VsStruct fs)
  then obtain xs ys where v: "v = VStructVariant i n xs" "w = VStructVariant i n ys"
    and c: "fields_conform m (map (\<lambda>(_, sh). is_option sh) fs) (map (map_prod id (conforms m)) fs) xs ys"
    by (auto simp: variant_head_def split: sval.splits)
  have "reads any_flag m (de_of sh) w' (wire m v')"
    if "(n, sh) \<in> set fs" "conforms m sh v' w'" for n sh v' w'
    using VsStruct that by (force simp: list_all_iff)
  then show ?case
    unfolding v de_variant.simps body_wire_def sval.case
    by (intro reads_fields(1) [OF c]) (use VsStruct.prems in simp_all)
qed (rule reads_scalar, assumption, simp)+

end
