(* ===== verification/Wire_Safe.thy ===== *)
theory Wire_Safe
  imports Wire_Roundtrip
begin

text \<open>
  What every deserializer action guarantees on arbitrary input: it does not panic, it stays inside
  the input, and what it returns was paid for out of the entry budget.  \<open>contract l c k W act\<close>:
  started inside its input under the limits \<open>l\<close>, \<open>act\<close> fails with an error that is not a panic, or
  returns a value \<open>x\<close> with \<open>W x\<close> whose cost \<open>k x\<close> is covered by the budget it used and the credit \<open>c\<close>.
\<close>

definition contract ::
    "decode_limits option \<Rightarrow> nat \<Rightarrow> ('a \<Rightarrow> nat) \<Rightarrow> ('a \<Rightarrow> bool) \<Rightarrow> 'a de_action \<Rightarrow> bool" where
  "contract l c k W act \<longleftrightarrow>
     (\<forall>d. de_pos d \<le> length (de_input d) \<longrightarrow> de_limits d = l \<longrightarrow>
        (case act d of
           Inl e \<Rightarrow> e \<noteq> RustPanic
         | Inr (x, d') \<Rightarrow>
             de_pos d' \<le> length (de_input d') \<and> de_limits d' = l \<and> W x \<and>
             (l \<noteq> None \<longrightarrow> remaining_entries d' + k x \<le> remaining_entries d + c)))"

abbreviation safe :: "decode_limits option \<Rightarrow> 'a de_action \<Rightarrow> bool" where
  "safe l act \<equiv> contract l 0 (\<lambda>_. 0) (\<lambda>_. True) act"

lemma contractI:
  assumes "\<And>d. de_pos d \<le> length (de_input d) \<Longrightarrow> de_limits d = l \<Longrightarrow>
    case act d of
      Inl e \<Rightarrow> e \<noteq> RustPanic
    | Inr (x, d') \<Rightarrow> de_pos d' \<le> length (de_input d') \<and> de_limits d' = l \<and> W x \<and>
        (l \<noteq> None \<longrightarrow> remaining_entries d' + k x \<le> remaining_entries d + c)"
  shows "contract l c k W act"
  using assms unfolding contract_def by blast

lemma contractD:
  assumes "contract l c k W act" "de_pos d \<le> length (de_input d)" "de_limits d = l"
  shows "case act d of
      Inl e \<Rightarrow> e \<noteq> RustPanic
    | Inr (x, d') \<Rightarrow> de_pos d' \<le> length (de_input d') \<and> de_limits d' = l \<and> W x \<and>
        (l \<noteq> None \<longrightarrow> remaining_entries d' + k x \<le> remaining_entries d + c)"
  using assms unfolding contract_def by blast

lemma contract_bind:
  assumes a: "contract l c k W a" and f: "\<And>x. W x \<Longrightarrow> contract l (k x) k' W' (f x)"
  shows "contract l c k' W' (dbind a f)"
proof (rule contractI)
  fix d :: deserializer
  assume d: "de_pos d \<le> length (de_input d)" "de_limits d = l"
  show "case dbind a f d of
      Inl e \<Rightarrow> e \<noteq> RustPanic
    | Inr (x, d') \<Rightarrow> de_pos d' \<le> length (de_input d') \<and> de_limits d' = l \<and> W' x \<and>
        (l \<noteq> None \<longrightarrow> remaining_entries d' + k' x \<le> remaining_entries d + c)"
  proof (cases "a d")
    case (Inl e)
    then show ?thesis using contractD [OF a d] by (simp add: dbind_def)
  next
    case (Inr p)
    obtain x d' where p: "p = (x, d')" by (cases p)
    with Inr contractD [OF a d] have "de_pos d' \<le> length (de_input d')" "de_limits d' = l" "W x"
      "l \<noteq> None \<longrightarrow> remaining_entries d' + k x \<le> remaining_entries d + c" by simp_all
    with contractD [OF f, of x d'] show ?thesis
      by (auto simp: dbind_def Inr p split: sum.splits)
  qed
qed

lemma contract_weaken:
  assumes "contract l c k W act" "\<And>x. W x \<Longrightarrow> W' x \<and> k' x + c \<le> k x + c'"
  shows "contract l c' k' W' act"
proof (rule contractI)
  fix d :: deserializer
  assume d: "de_pos d \<le> length (de_input d)" "de_limits d = l"
  show "case act d of
      Inl e \<Rightarrow> e \<noteq> RustPanic
    | Inr (x, d') \<Rightarrow> de_pos d' \<le> length (de_input d') \<and> de_limits d' = l \<and> W' x \<and>
        (l \<noteq> None \<longrightarrow> remaining_entries d' + k' x \<le> remaining_entries d + c')"
    using contractD [OF assms(1) d] assms(2) by (fastforce split: sum.splits)
qed

lemma contract_ret: "W x \<Longrightarrow> k x \<le> c \<Longrightarrow> contract l c k W (dret x)"
  by (rule contractI) (simp add: dret_def)

lemma contract_err: "e \<noteq> RustPanic \<Longrightarrow> contract l c k W (derr e)"
  by (rule contractI) (simp add: derr_def)

lemma contract_lift:
  "(case r of Inl e \<Rightarrow> e \<noteq> RustPanic | Inr x \<Rightarrow> W x \<and> k x \<le> c) \<Longrightarrow> contract l c k W (dlift r)"
  by (rule contractI) (cases r; simp add: dlift_def)

lemma contract_lift0:
  "(case r of Inl e \<Rightarrow> e \<noteq> RustPanic | Inr x \<Rightarrow> W x) \<Longrightarrow> contract l c (\<lambda>_. 0) W (dlift r)"
  by (rule contract_lift) (auto split: sum.splits)

lemma contract_if:
  "contract l c k W a \<Longrightarrow> contract l c k W b \<Longrightarrow> contract l c k W (\<lambda>d. if P d then a d else b d)"
  unfolding contract_def by simp

lemma contract_case_mode:
  "contract l c k W a \<Longrightarrow> contract l c k W b \<Longrightarrow> contract l c k W e \<Longrightarrow>
   contract l c k W (\<lambda>d. case de_mode d of Stable \<Rightarrow> a d | TypedStable \<Rightarrow> b d | Positional \<Rightarrow> e d)"
  unfolding contract_def by (simp split: encoding_mode.split)

lemma contract_Ok: "W x \<Longrightarrow> k x \<le> c \<Longrightarrow> contract l c k W (\<lambda>d. Ok (x, d))"
  by (rule contractI) simp

lemma contract_identifier:
  assumes "contract l c k W act"
  shows "contract l c k W (with_identifier flag act)"
proof (rule contractI)
  fix d :: deserializer
  assume d: "de_pos d \<le> length (de_input d)" "de_limits d = l"
  then show "case with_identifier flag act d of
      Inl e \<Rightarrow> e \<noteq> RustPanic
    | Inr (x, d') \<Rightarrow> de_pos d' \<le> length (de_input d') \<and> de_limits d' = l \<and> W x \<and>
        (l \<noteq> None \<longrightarrow> remaining_entries d' + k x \<le> remaining_entries d + c)"
    using contractD [OF assms, of "d\<lparr>tagged_identifier := flag\<rparr>"]
    by (auto simp: with_identifier_def split: sum.splits)
qed

section \<open>Primitive reads\<close>

lemma safe_consume: "contract l 0 (\<lambda>_. 0) (\<lambda>bs. length bs = n) (consume n)"
  by (rule contractI) (auto simp: consume_def Let_def)

lemma safe_u8: "safe l read_u8"
  unfolding read_u8_def
  by (rule contract_bind [OF safe_consume]) (simp add: contract_ret)

lemma contract_tag:
  "contract l 0 (\<lambda>_. 0) (\<lambda>_. True) read_tag"
  unfolding read_tag_def [abs_def]
  by (rule contract_if)
    (auto intro!: contract_Ok contract_ret contract_bind [OF safe_u8] contract_err split: option.split)

lemma safe_expect_tag: "safe l (expect_tag t)"
  unfolding expect_tag_def
  by (rule contract_bind [OF contract_tag])
    (auto intro!: contract_ret contract_err split: option.split)

definition in_bounds :: "(bytes \<Rightarrow> ('a \<times> nat) option) \<Rightarrow> bool" where
  "in_bounds decode \<longleftrightarrow> (\<forall>bs v n. decode bs = Some (v, n) \<longrightarrow> n \<le> length bs)"

lemma decoders_in_bounds [simp]:
  "in_bounds decode_u64" "in_bounds decode_u32" "in_bounds decode_u16" "in_bounds decode_usize"
  "in_bounds decode_i64" "in_bounds decode_i32" "in_bounds decode_i16"
  using decode_u64_bound
  by (fastforce simp: in_bounds_def decode_u32_def decode_u16_def decode_usize_def decode_i64_def
      decode_i32_def decode_i16_def Let_def bind_eq_Some_conv split: if_splits)+

lemma safe_varint: "in_bounds decode \<Longrightarrow> safe l (read_varint decode)"
  unfolding read_varint_def
  by (rule contractI)
    (fastforce simp: dbind_def remaining_def derr_def in_bounds_def split: option.split)

definition within_limit :: "decode_limits option \<Rightarrow> (decode_limits \<Rightarrow> nat) \<Rightarrow> nat \<Rightarrow> bool" where
  "within_limit l sel n \<longleftrightarrow> (case l of None \<Rightarrow> True | Some lim \<Rightarrow> n \<le> sel lim)"

lemma contract_usize:
  "contract l 0 id (within_limit l max_container_entries) read_varint_usize"
  unfolding read_varint_usize_def
  by (rule contract_bind [OF safe_varint])
    (auto simp: within_limit_def intro!: contractI split: option.splits)

lemma contract_bytes: "contract l 0 (\<lambda>_. 0) (\<lambda>bs. within_limit l max_blob_bytes (length bs)) read_bytes"
  unfolding read_bytes_def
proof (rule contract_bind [OF safe_varint])
  fix n :: nat
  show "contract l 0 (\<lambda>_. 0) (\<lambda>bs. within_limit l max_blob_bytes (length bs))
     (\<lambda>d. if (case de_limits d of None \<Rightarrow> False | Some limits \<Rightarrow> n > max_blob_bytes limits)
          then Err (Message ''blob byte budget exceeded'' []) else consume n d)"
    by (rule contractI) (auto simp: within_limit_def consume_def Let_def split: option.splits)
qed simp

lemma contract_str: "contract l 0 (\<lambda>_. 0) (\<lambda>bs. within_limit l max_blob_bytes (length bs)) read_str"
  unfolding read_str_def
  by (rule contract_bind [OF contract_bytes]) (auto intro!: contract_ret contract_err)

section \<open>Accesses\<close>

lemma contract_next_element:
  assumes "contract l 0 k W seed"
  shows "contract l c
    (\<lambda>(x, acc'). case x of None \<Rightarrow> c | Some y \<Rightarrow> k y + c)
    (\<lambda>(x, acc'). case x of
        None \<Rightarrow> acc_remaining acc = 0
      | Some y \<Rightarrow> W y \<and> acc_remaining acc = Suc (acc_remaining acc') \<and> acc_raw_keys acc' = acc_raw_keys acc)
    (next_element_seed seed acc)"
proof -
  have seed: "contract l c (\<lambda>y. k y + c) W seed" by (rule contract_weaken [OF assms]) simp
  show ?thesis
    by (auto simp: next_element_seed_def Let_def intro!: contract_ret contract_bind [OF seed])
qed

lemma contract_next_value:
  assumes "contract l c k W seed"
  shows "contract l c k W (next_value_seed seed acc)"
proof (rule contractI)
  fix d :: deserializer
  assume d: "de_pos d \<le> length (de_input d)" "de_limits d = l"
  have "\<exists>flag. next_value_seed seed acc d = with_identifier flag seed d"
    using d by (auto simp: next_value_seed_def dbind_def remaining_def)
  then show "case next_value_seed seed acc d of
      Inl e \<Rightarrow> e \<noteq> RustPanic
    | Inr (x, d') \<Rightarrow> de_pos d' \<le> length (de_input d') \<and> de_limits d' = l \<and> W x \<and>
        (l \<noteq> None \<longrightarrow> remaining_entries d' + k x \<le> remaining_entries d + c)"
    using contractD [OF contract_identifier [OF assms] d] by auto
qed

lemma contract_next_key:
  assumes "contract l 0 k W (seed_de seed)"
    "\<And>s. case seed_str seed s of Inl e \<Rightarrow> e \<noteq> RustPanic | Inr y \<Rightarrow> W y \<and> k y = 0"
  shows "contract l c
    (\<lambda>(x, acc'). case x of None \<Rightarrow> c | Some y \<Rightarrow> k y + c)
    (\<lambda>(x, acc'). case x of
        None \<Rightarrow> acc_remaining acc = 0
      | Some y \<Rightarrow> W y \<and> acc_remaining acc = Suc (acc_remaining acc') \<and> acc_raw_keys acc' = acc_raw_keys acc)
    (next_key_seed seed acc)"
proof -
  have str: "contract l c (\<lambda>_. c) (\<lambda>_. True) read_str" by (rule contract_weaken [OF contract_str]) simp
  have de: "contract l c (\<lambda>y. k y + c) W (with_identifier True (seed_de seed))"
    by (rule contract_weaken [OF contract_identifier [OF assms(1)]]) simp
  have lift: "contract l c (\<lambda>y. k y + c) W (dlift (seed_str seed s))" for s
    by (rule contract_lift) (use assms(2) [of s] in \<open>auto split: sum.splits\<close>)
  show ?thesis
    by (auto simp: next_key_seed_def Let_def
        intro!: contract_ret contract_bind [OF str] contract_bind [OF lift] contract_bind [OF de])
qed

section \<open>Visitor loops\<close>

text \<open>A loop that started with the declared count as credit ends with every element paid for.\<close>

lemma contract_seq_loop:
  assumes "contract l 0 k W seed"
  shows "contract l (acc_remaining acc) (\<lambda>xs. length xs + sum_list (map k xs))
    (\<lambda>xs. length xs = acc_remaining acc \<and> list_all W xs) (seq_loop seed acc)"
proof (induction "acc_remaining acc" arbitrary: acc)
  case 0
  then show ?case by (subst seq_loop_unfold) (auto simp: next_seed_empty dbind_def dret_def intro!: contractI)
next
  case (Suc n)
  have tail: "contract l c (\<lambda>xs. length xs + sum_list (map k xs))
      (\<lambda>xs. length xs = Suc (acc_remaining b) \<and> list_all W xs)
      (dbind (seq_loop seed b) (\<lambda>xs. dret (y # xs)))"
    if "n = acc_remaining b" "W y" "c = k y + Suc (acc_remaining b)" for b y c
  proof (rule contract_bind)
    show "contract l c (\<lambda>xs. length xs + sum_list (map k xs) + Suc (k y))
        (\<lambda>xs. length xs = n \<and> list_all W xs) (seq_loop seed b)"
      by (rule contract_weaken [OF Suc(1) [of b]]) (use that in auto)
  qed (use that in \<open>auto intro!: contract_ret\<close>)
  show ?case
    unfolding Suc(2) [symmetric]
    by (subst seq_loop_unfold, rule contract_bind [OF contract_next_element [OF assms]])
      (use Suc(2) in \<open>auto intro!: tail split: option.splits\<close>)
qed

lemma contract_map_loop:
  assumes "contract l 0 kk KW ks" "contract l 0 kv VW vs"
  shows "contract l (acc_remaining acc) (\<lambda>es. length es + sum_list (map (\<lambda>(a, b). kk a + kv b) es))
    (\<lambda>es. length es = acc_remaining acc \<and> list_all (\<lambda>(a, b). KW a \<and> VW b) es) (map_loop ks vs acc)"
proof (induction "acc_remaining acc" arbitrary: acc)
  case 0
  then show ?case by (subst map_loop_unfold) (auto simp: next_seed_empty dbind_def dret_def intro!: contractI)
next
  case (Suc n)
  let ?k = "\<lambda>es. length es + sum_list (map (\<lambda>(a, b). kk a + kv b) es)"
  let ?W = "\<lambda>es. list_all (\<lambda>(a, b). KW a \<and> VW b) es"
  have tail: "contract l c ?k (\<lambda>es. length es = Suc n \<and> ?W es)
      (dbind (map_loop ks vs b) (\<lambda>es. dret ((x, y) # es)))"
    if "acc_remaining b = n" "KW x" "VW y" "c = kk x + kv y + Suc n" for b x y c
  proof (rule contract_bind)
    show "contract l c (\<lambda>es. ?k es + Suc (kk x + kv y)) (\<lambda>es. length es = n \<and> ?W es) (map_loop ks vs b)"
      by (rule contract_weaken [OF Suc(1) [of b]]) (use that in auto)
  qed (use that in \<open>auto intro!: contract_ret\<close>)
  have val: "contract l c ?k (\<lambda>es. length es = Suc (acc_remaining b) \<and> ?W es)
      (dbind (next_value_seed vs b) (\<lambda>y. dbind (map_loop ks vs b) (\<lambda>es. dret ((x, y) # es))))"
    if "n = acc_remaining b" "KW x" "c = kk x + Suc (acc_remaining b)" for b x c
  proof (rule contract_bind)
    show "contract l c (\<lambda>y. kk x + kv y + Suc n) VW (next_value_seed vs b)"
      by (rule contract_weaken [OF contract_next_value [OF assms(2)]]) (use that in auto)
  qed (use that tail in auto)
  have key: "contract l c
    (\<lambda>(x, acc'). case x of None \<Rightarrow> c | Some y \<Rightarrow> kk y + c)
    (\<lambda>(x, acc'). case x of
        None \<Rightarrow> acc_remaining acc = 0
      | Some y \<Rightarrow> KW y \<and> acc_remaining acc = Suc (acc_remaining acc') \<and> acc_raw_keys acc' = acc_raw_keys acc)
    (next_key_seed (value_seed ks) acc)" for c
    by (rule contract_next_key) (simp_all add: value_seed_def assms(1))
  show ?case
    unfolding Suc(2) [symmetric]
    by (subst map_loop_unfold, rule contract_bind [OF key])
      (use Suc(2) in \<open>auto intro!: val split: option.splits\<close>)
qed

lemma contract_tuple_loop:
  assumes "\<forall>seed\<in>set seeds. contract l 0 k W seed"
  shows "contract l 0 (\<lambda>xs. sum_list (map k xs)) (\<lambda>xs. length xs = length seeds \<and> list_all W xs)
    (tuple_loop seeds acc)"
  using assms
proof (induction seeds arbitrary: acc)
  case Nil
  then show ?case by (simp add: contract_ret)
next
  case (Cons seed seeds)
  let ?W = "\<lambda>n xs. length xs = n \<and> list_all W xs"
  have tail: "contract l (k y) (\<lambda>xs. sum_list (map k xs)) (?W (Suc (length seeds)))
      (dbind (tuple_loop seeds b) (\<lambda>xs. dret (y # xs)))" if "W y" for b y
  proof (rule contract_bind)
    show "contract l (k y) (\<lambda>xs. sum_list (map k xs) + k y) (?W (length seeds)) (tuple_loop seeds b)"
      by (rule contract_weaken [OF Cons.IH [of b]]) (use Cons in auto)
  qed (use that in \<open>auto intro!: contract_ret\<close>)
  have seed: "contract l 0 k W seed" using Cons by simp
  show ?case
    by (simp, rule contract_bind [OF contract_next_element [OF seed, where c = 0]])
      (auto intro!: tail contract_err split: option.splits)
qed

lemma contract_read_identifier:
  assumes "\<And>s. case visit_str v s of Inl e \<Rightarrow> e \<noteq> RustPanic | Inr x \<Rightarrow> W x"
    "\<And>n. case visit_u32 v n of Inl e \<Rightarrow> e \<noteq> RustPanic | Inr x \<Rightarrow> W x"
  shows "contract l 0 (\<lambda>_. 0) W (deserialize_identifier v)"
proof -
  have str: "contract l 0 (\<lambda>_. 0) W (dbind read_str (\<lambda>x. dlift (visit_str v x)))"
    by (rule contract_bind [OF contract_str], rule contract_lift0, rule assms(1))
  have num: "contract l 0 (\<lambda>_. 0) W (dbind read_varint_u32 (\<lambda>x. dlift (visit_u32 v x)))"
    unfolding read_varint_u32_def
    by (rule contract_bind [OF safe_varint], simp, rule contract_lift0, rule assms(2))
  have eq: "deserialize_identifier v = (\<lambda>d. case de_mode d of
      Stable \<Rightarrow> dbind read_str (\<lambda>x. dlift (visit_str v x)) d
    | TypedStable \<Rightarrow> (if tagged_identifier d
        then dbind (expect_tag TagString) (\<lambda>_. dbind read_str (\<lambda>x. dlift (visit_str v x))) d
        else dbind read_str (\<lambda>x. dlift (visit_str v x)) d)
    | Positional \<Rightarrow> dbind read_varint_u32 (\<lambda>x. dlift (visit_u32 v x)) d)"
    by (rule ext) (simp add: deserialize_identifier_def dbind_def dret_def split: encoding_mode.split)
  show ?thesis
    unfolding eq
    by (intro contract_case_mode contract_if contract_bind [OF safe_expect_tag] str num)
qed

lemma slot_update:
  assumes "i < length slots" "slots ! i = None"
  shows "sum_list (map (case_option 0 k) (slots[i := Some v])) =
      sum_list (map (case_option 0 k) slots) + (k v :: nat)"
  using assms by (induction slots arbitrary: i) (auto simp: nth_Cons split: nat.splits)

lemma contract_field_loop:
  assumes seeds: "\<forall>seed\<in>set seeds. contract l 0 k W seed" "length seeds = length names"
    and "length slots = length names" "list_all (case_option True W) slots"
  shows "contract l (sum_list (map (case_option 0 k) slots)) (\<lambda>xs. sum_list (map (case_option 0 k) xs))
    (\<lambda>xs. length xs = length names \<and> list_all (case_option True W) xs)
    (field_loop names seeds slots acc)"
  using assms(3,4)
proof (induction "acc_remaining acc" arbitrary: acc slots)
  case 0
  then show ?case
    by (subst field_loop_unfold) (auto simp: next_seed_empty dbind_def dret_def intro!: contractI)
next
  case (Suc n)
  let ?c = "\<lambda>slots. sum_list (map (case_option 0 k) slots)"
  let ?W = "\<lambda>xs. length xs = length names \<and> list_all (case_option True W) xs"
  let ?F = "field_loop names seeds"
  have key: "contract l c
    (\<lambda>(x, acc'). case x of None \<Rightarrow> c | Some y \<Rightarrow> 0 + c)
    (\<lambda>(x, acc'). case x of
        None \<Rightarrow> acc_remaining acc = 0
      | Some y \<Rightarrow> (case y of None \<Rightarrow> True | Some i \<Rightarrow> i < length names) \<and>
          acc_remaining acc = Suc (acc_remaining acc') \<and> acc_raw_keys acc' = acc_raw_keys acc)
    (next_key_seed (field_ident_seed names) acc)" for c
    by (rule contract_next_key)
      (auto simp: field_ident_seed_def Let_def dest: index_of_Some split: option.split
        intro!: contract_read_identifier)
  have skip: "contract l (?c slots) ?c ?W (dbind (next_value_seed ignored_any b) (\<lambda>_. ?F slots b))"
    if "n = acc_remaining b" for b
  proof (rule contract_bind)
    show "contract l (?c slots) (\<lambda>_. ?c slots) (\<lambda>_. True) (next_value_seed ignored_any b)"
      by (rule contract_next_value)
        (simp add: ignored_any_def deserialize_ignored_any_def contract_lift)
  qed (use Suc that in auto)
  have field: "contract l (?c slots) ?c ?W
      (dbind (next_value_seed (seeds ! i) b) (\<lambda>v. ?F (slots[i := Some v]) b))"
    if "n = acc_remaining b" "i < length names" "slots ! i = None" for b i
  proof (rule contract_bind)
    have "contract l 0 k W (seeds ! i)" using seeds that by simp
    then show "contract l (?c slots) (\<lambda>v. ?c (slots[i := Some v])) W (next_value_seed (seeds ! i) b)"
      by (intro contract_next_value, elim contract_weaken)
        (use that Suc.prems in \<open>simp add: slot_update\<close>)
  next
    fix v assume "W v"
    then have "list_all (case_option True W) (slots[i := Some v])"
      using Suc.prems set_update_subset_insert [of slots i "Some v"] by (auto simp: list_all_iff)
    then show "contract l (?c (slots[i := Some v])) ?c ?W (?F (slots[i := Some v]) b)"
      using Suc.prems that by (intro Suc(1)) simp_all
  qed
  show ?case
    by (subst field_loop_unfold, rule contract_bind [OF key])
      (use Suc(2) in \<open>auto intro!: skip field contract_err split: option.splits\<close>)
qed

section \<open>Budgets of decoded values\<close>

text \<open>The declared entries of a value, and the limits on its parts.\<close>

primrec entries :: "sval \<Rightarrow> nat" where
  "entries (VBool b) = 0" | "entries (VI8 x) = 0" | "entries (VI16 x) = 0"
| "entries (VI32 x) = 0" | "entries (VI64 x) = 0" | "entries (VU8 x) = 0"
| "entries (VU16 x) = 0" | "entries (VU32 x) = 0" | "entries (VU64 x) = 0"
| "entries (VF32 x) = 0" | "entries (VF64 x) = 0" | "entries (VChar x) = 0"
| "entries (VStr x) = 0" | "entries (VBytes x) = 0" | "entries VNone = 0"
| "entries (VSome x) = entries x" | "entries VUnit = 0" | "entries VUnitStruct = 0"
| "entries (VNewtype x) = entries x"
| "entries (VSeq len xs) = length xs + sum_list (map entries xs)"
| "entries (VTuple xs) = sum_list (map entries xs)"
| "entries (VTupleStruct xs) = sum_list (map entries xs)"
| "entries (VMap len es) =
     length es + sum_list (map (\<lambda>(a, b). a + b) (map (map_prod entries entries) es))"
| "entries (VStruct fs) = sum_list (map snd (map (map_prod id entries) fs))"
| "entries (VUnitVariant i n) = 0"
| "entries (VNewtypeVariant i n x) = entries x"
| "entries (VTupleVariant i n xs) = sum_list (map entries xs)"
| "entries (VStructVariant i n fs) = sum_list (map snd (map (map_prod id entries) fs))"

primrec within :: "decode_limits option \<Rightarrow> sval \<Rightarrow> bool" where
  "within l (VBool b) = True" | "within l (VI8 x) = True" | "within l (VI16 x) = True"
| "within l (VI32 x) = True" | "within l (VI64 x) = True" | "within l (VU8 x) = True"
| "within l (VU16 x) = True" | "within l (VU32 x) = True" | "within l (VU64 x) = True"
| "within l (VF32 x) = True" | "within l (VF64 x) = True" | "within l (VChar x) = True"
| "within l (VStr x) = within_limit l max_blob_bytes (length x)"
| "within l (VBytes x) = within_limit l max_blob_bytes (length x)"
| "within l VNone = True" | "within l (VSome x) = within l x" | "within l VUnit = True"
| "within l VUnitStruct = True" | "within l (VNewtype x) = within l x"
| "within l (VSeq len xs) =
     (within_limit l max_container_entries (length xs) \<and> list_all id (map (within l) xs))"
| "within l (VTuple xs) = list_all id (map (within l) xs)"
| "within l (VTupleStruct xs) = list_all id (map (within l) xs)"
| "within l (VMap len es) =
     (within_limit l max_container_entries (length es) \<and>
      list_all (\<lambda>(a, b). a \<and> b) (map (map_prod (within l) (within l)) es))"
| "within l (VStruct fs) = list_all snd (map (map_prod id (within l)) fs)"
| "within l (VUnitVariant i n) = True"
| "within l (VNewtypeVariant i n x) = within l x"
| "within l (VTupleVariant i n xs) = list_all id (map (within l) xs)"
| "within l (VStructVariant i n fs) = list_all snd (map (map_prod id (within l)) fs)"

abbreviation reads_within :: "decode_limits option \<Rightarrow> sval de_action \<Rightarrow> bool" where
  "reads_within l act \<equiv> contract l 0 entries (within l) act"

lemma contract_scalar:
  assumes "sh \<in> {ShBool, ShI8, ShI16, ShI32, ShI64, ShU8, ShU16, ShU32, ShU64,
    ShF32, ShF64, ShChar, ShStr, ShBytes, ShUnit, ShUnitStruct}"
  shows "reads_within l (de_of sh)"
proof -
  have le: "from_le_bytes n bs = (None :: 'a::len word option) \<longleftrightarrow> length bs < n" for n bs
    by (simp add: from_le_bytes_def)
  show ?thesis
    using assms
    by (auto simp: deserialize_defs varint_readers i8_of_i16_def le
        intro!: contract_bind [OF safe_expect_tag] contract_bind [OF safe_u8]
        contract_bind [OF safe_varint] contract_bind [OF safe_consume] contract_bind [OF contract_str]
        contract_bind [OF contract_bytes] contract_lift contract_err
        split: option.split)
qed

lemma contract_tuple_visitor:
  assumes "\<forall>sh\<in>set shs. reads_within l (de_of sh)"
    "\<And>xs. list_all (within l) xs \<Longrightarrow> within l (mk xs) \<and> entries (mk xs) = sum_list (map entries xs)"
  shows "contract l c entries (within l) (visit_seq (tuple_visitor mk (map de_of shs)) acc)"
proof -
  have "contract l c (\<lambda>xs. sum_list (map entries xs))
      (\<lambda>xs. length xs = length (map de_of shs) \<and> list_all (within l) xs) (tuple_loop (map de_of shs) acc)"
    by (rule contract_weaken [OF contract_tuple_loop]) (use assms(1) in auto)
  then show ?thesis by (auto intro!: contract_bind contract_ret simp: assms(2))
qed

lemma fill_within:
  "fill opts slots = Ok vs \<Longrightarrow> list_all (case_option True (within l)) slots \<Longrightarrow>
   list_all (within l) vs \<and> length vs = length slots \<and>
   sum_list (map entries vs) = sum_list (map (case_option 0 entries) slots)"
  by (induction slots arbitrary: opts vs)
    (fastforce simp: rbind_Ok_iff split: option.splits if_splits)+

lemma fill_no_panic: "fill opts slots \<noteq> Err RustPanic"
  by (induction slots arbitrary: opts) (auto simp: rbind_Err_iff split: option.splits)

lemma contract_fields_visitor:
  assumes "\<forall>(n, sh)\<in>set fs. reads_within l (de_of sh)"
    "\<And>ys. list_all (within l) (map snd ys) \<Longrightarrow>
       within l (mk ys) \<and> entries (mk ys) = sum_list (map entries (map snd ys))"
  shows "contract l c entries (within l)
      (visit_seq (fields_visitor mk opts (map (map_prod id de_of) fs)) acc)" (is ?seq)
    "contract l c entries (within l)
      (visit_map (fields_visitor mk opts (map (map_prod id de_of) fs)) acc)" (is ?map)
proof -
  have seeds: "\<forall>seed\<in>set (map (de_of \<circ> snd) fs). reads_within l seed" using assms(1) by auto
  have "contract l c (\<lambda>xs. sum_list (map entries xs))
      (\<lambda>xs. length xs = length fs \<and> list_all (within l) xs) (tuple_loop (map (de_of \<circ> snd) fs) acc)"
    by (rule contract_weaken [OF contract_tuple_loop [OF seeds]]) auto
  then show ?seq
    by (auto simp: comp_def assms(2) intro!: contract_bind contract_ret)
  let ?S = "\<lambda>xs. sum_list (map (case_option 0 entries) xs)"
  have fields: "contract l c ?S
      (\<lambda>xs. length xs = length fs \<and> list_all (case_option True (within l)) xs)
      (field_loop (map fst fs) (map (de_of \<circ> snd) fs) (replicate (length fs) None) acc)"
    by (rule contract_weaken [OF contract_field_loop [OF seeds]])
      (auto simp: list_all_iff map_replicate_const sum_list_replicate)
  have filled: "contract l (?S slots) (\<lambda>xs. sum_list (map entries xs))
      (\<lambda>xs. length xs = length fs \<and> list_all (within l) xs) (dlift (fill opts slots))"
    if "length slots = length fs \<and> list_all (case_option True (within l)) slots" for slots
    by (rule contract_lift)
      (use that fill_within [of opts slots _ l] fill_no_panic [of opts slots] in \<open>auto split: sum.split\<close>)
  have eqs: "map fst (map (map_prod id de_of) fs) = map fst fs"
    "map snd (map (map_prod id de_of) fs) = map (de_of \<circ> snd) fs"
    "length (map (map_prod id de_of) fs) = length fs" by auto
  show ?map
    unfolding no_visitor_simps eqs
    by (rule contract_bind [OF fields], rule contract_bind [OF filled], assumption, rule contract_ret)
      (auto simp: assms(2))
qed

lemma contract_option:
  assumes "contract l 0 k W (dlift (visit_none v))" "contract l 0 k W (visit_some v)"
  shows "contract l 0 k W (deserialize_option v)"
proof -
  let ?tag = "dbind read_u8 (\<lambda>b. case tag_of_byte b of
      None \<Rightarrow> derr (Message ''invalid type tag'' []) | Some tag \<Rightarrow> dret (Some tag))"
  have tag: "contract l 0 (\<lambda>_. 0) (\<lambda>t. t \<noteq> None) ?tag"
    by (rule contract_bind [OF safe_u8]) (auto intro!: contract_err contract_ret split: option.split)
  have typed: "contract l 0 k W (dbind ?tag
      (\<lambda>t. case t of
          Some TagNone \<Rightarrow> dlift (visit_none v)
        | Some TagSome \<Rightarrow> visit_some v
        | Some actual \<Rightarrow> derr (Message ''unexpected option type tag'' [TagArg actual])
        | None \<Rightarrow> derr RustPanic))" (is "contract _ _ _ _ ?typed")
    by (rule contract_bind [OF tag])
      (auto intro!: assms contract_err split: option.split type_tag.split)
  have plain: "contract l 0 k W (dbind read_u8 (\<lambda>b.
        if b = 0 then dlift (visit_none v) else if b = 1 then visit_some v else derr InvalidBool))"
      (is "contract _ _ _ _ ?plain")
    by (rule contract_bind [OF safe_u8]) (auto intro!: assms contract_err)
  have "deserialize_option v = (\<lambda>d. if de_mode d = TypedStable then ?typed d else ?plain d)"
    by (rule ext) (simp add: deserialize_option_def read_tag_def dbind_def)
  with contract_if [OF typed plain] show ?thesis by simp
qed

lemma contract_typed_or: "safe l (typed_or n)"
proof -
  have "safe l read_varint_usize" by (rule contract_weaken [OF contract_usize]) simp
  then show ?thesis
    unfolding typed_or_def [abs_def] by (intro contract_if contract_ret) simp_all
qed

lemma contract_struct_variant:
  assumes "\<And>acc. contract l 0 k W (visit_seq v acc)" "\<And>acc. contract l 0 k W (visit_map v acc)"
  shows "contract l 0 k W (struct_variant fs v ea)" "contract l 0 k W (deserialize_struct fs v)"
proof -
  have us: "safe l read_varint_usize" by (rule contract_weaken [OF contract_usize]) simp
  have named: "contract l 0 k W (dbind read_varint_usize
      (\<lambda>len. visit_map v \<lparr>acc_remaining = len, acc_raw_keys = True\<rparr>))"
    by (rule contract_bind [OF us]) (rule assms)
  show 1: "contract l 0 k W (struct_variant fs v ea)" for ea
    unfolding struct_variant_def [abs_def]
    by (cases ea) (auto intro!: contract_case_mode named assms)
  have "deserialize_struct fs v =
      dbind (expect_tag TagStruct) (\<lambda>_. struct_variant fs v DirectAccess)"
    by (simp add: deserialize_struct_def struct_variant_def [abs_def])
  then show "contract l 0 k W (deserialize_struct fs v)"
    by (simp add: contract_bind [OF safe_expect_tag] 1)
qed

lemma contract_tuple_variant:
  assumes "\<And>acc. contract l 0 k W (visit_seq v acc)"
  shows "contract l 0 k W (tuple_variant n v ea)"
    "contract l 0 k W (dbind (expect_tag t) (\<lambda>_. dbind (typed_or n) (\<lambda>r.
       visit_seq v \<lparr>acc_remaining = r, acc_raw_keys = False\<rparr>)))"
  by (auto simp: tuple_variant_def intro!: assms contract_bind [OF contract_typed_or]
      contract_bind [OF safe_expect_tag] split: enum_access.split)

theorem contract_de_of: "reads_within l (de_of sh)"
  and contract_de_variant: "reads_within l (de_variant vs i n ea)"
proof (induction sh and vs arbitrary: and i n ea)
  case (ShOption sh)
  then show ?case
    by (auto intro!: contract_option contract_lift contract_bind [OF ShOption] contract_ret)
next
  case (ShNewtype sh)
  then show ?case
    by (auto simp: deserialize_newtype_struct_def intro!: contract_bind [OF ShNewtype] contract_ret)
next
  case (ShSeq sh)
  have loop: "contract l n entries (within l) (dbind (seq_loop (de_of sh) acc)
      (\<lambda>xs. dret (VSeq (Some (length xs)) xs)))"
    if "n = acc_remaining acc" "within_limit l max_container_entries n" for n acc
    unfolding that(1) by (rule contract_bind [OF contract_seq_loop [OF ShSeq]], rule contract_ret)
      (use that in \<open>auto simp: list_all_iff\<close>)
  show ?case
    by (auto simp: deserialize_seq_def intro!: contract_bind [OF safe_expect_tag]
        contract_bind [OF contract_usize] loop)
next
  case (ShTuple shs)
  then show ?case
    by (auto simp: deserialize_tuple_def list_all_iff simp del: no_visitor_simps
        intro!: contract_tuple_variant contract_tuple_visitor)
next
  case (ShTupleStruct shs)
  then show ?case
    by (auto simp: deserialize_tuple_struct_def list_all_iff simp del: no_visitor_simps
        intro!: contract_tuple_variant contract_tuple_visitor)
next
  case (ShMap ks vs)
  have loop: "contract l n entries (within l) (dbind (map_loop (de_of ks) (de_of vs) acc)
      (\<lambda>es. dret (VMap (Some (length es)) es)))"
    if "n = acc_remaining acc" "within_limit l max_container_entries n" for n acc
    unfolding that(1)
  proof (rule contract_bind [OF contract_map_loop [OF ShMap]], rule contract_ret)
    fix es :: "(sval \<times> sval) list"
    have "sum_list (map (\<lambda>(a, b). a + b) (map (map_prod entries entries) es)) =
        (\<Sum>(a, b)\<leftarrow>es. entries a + entries b)" by (induction es) auto
    then show "entries (VMap (Some (length es)) es) \<le> length es + (\<Sum>(a, b)\<leftarrow>es. entries a + entries b)"
      by simp
  qed (use that in \<open>auto simp: list_all_iff\<close>)
  show ?case
    by (auto simp: deserialize_map_def intro!: contract_bind [OF safe_expect_tag]
        contract_bind [OF contract_usize] loop)
next
  case (ShStruct fs)
  have "\<forall>(n, sh)\<in>set fs. reads_within l (de_of sh)" using ShStruct by fastforce
  then show ?case
    by (simp only: de_of.simps) (intro contract_struct_variant(2) contract_fields_visitor,
      auto simp: list_all_iff comp_def)
next
  case (ShEnum vs)
  have seed: "contract l 0 (\<lambda>_. 0) (\<lambda>(i, ea). i < length vs)
      (variant_seed (variant_ident_seed (map fst vs)) ea)" for ea
  proof -
    have str: "case visit_str (variant_ident (map fst vs)) s of
        Inl e \<Rightarrow> e \<noteq> RustPanic | Inr x \<Rightarrow> x < length vs" for s
      by (auto simp: variant_ident_def dest: index_of_Some split: option.split)
    have "contract l 0 (\<lambda>_. 0) (\<lambda>i. i < length vs) (deserialize_identifier (variant_ident (map fst vs)))"
      by (rule contract_read_identifier [OF str]) (simp add: variant_ident_def)
    then show ?thesis
      using str
      by (auto simp: variant_seed_def variant_ident_seed_def split: enum_access.split
          intro!: contract_bind [where k = "\<lambda>_. 0" and W = "\<lambda>i. i < length vs"] contract_lift0 contract_ret)
  qed
  have body: "reads_within l (case map (map_prod id de_variant) vs ! i of (n, body) \<Rightarrow> body (word_of_nat i) n ea)"
    if "i < length vs" for i ea
    using ShEnum [of "vs ! i" "snd (vs ! i)"] nth_mem [OF that] that by (cases "vs ! i") simp
  show ?case
    by (auto simp: deserialize_enum_def intro!: contract_bind [OF safe_expect_tag]
        contract_identifier contract_bind [OF seed] body)
next
  case VsUnit
  have us: "safe l read_varint_usize" by (rule contract_weaken [OF contract_usize]) simp
  have "safe l (unit_variant ea)"
    unfolding unit_variant_def [abs_def]
    by (cases ea) (auto intro!: contract_if contract_Ok contract_bind [OF us] contract_ret contract_err)
  then show ?case
    unfolding de_variant.simps by (rule contract_bind) (simp add: contract_ret)
next
  case (VsNewtype sh)
  have us: "safe l read_varint_usize" by (rule contract_weaken [OF contract_usize]) simp
  have "reads_within l (newtype_variant_seed (de_of sh) ea)"
    unfolding newtype_variant_seed_def [abs_def]
    by (cases ea) (auto intro!: contract_if contract_bind [OF us] contract_err VsNewtype)
  then show ?case
    unfolding de_variant.simps by (rule contract_bind) (simp add: contract_ret)
next
  case (VsTuple shs)
  then show ?case
    by (auto simp: list_all_iff simp del: no_visitor_simps
        intro!: contract_tuple_variant contract_tuple_visitor)
next
  case (VsStruct fs)
  have "\<forall>(n, sh)\<in>set fs. reads_within l (de_of sh)" using VsStruct by fastforce
  then show ?case
    by (simp only: de_variant.simps) (intro contract_struct_variant(1) contract_fields_visitor,
      auto simp: list_all_iff comp_def)
qed (rule contract_scalar, simp)+

end
