(* ===== verification/Wire_Clients.thy ===== *)
theory Wire_Clients
  imports Wire_Safe
begin

text \<open>
  Arbitrary clients of the deserializer.  The shapes of \<^verbatim>\<open>Wire_Values\<close> are the types that serde derives by
  default; self-describing, tagged and hand-written types call other methods and choose their next
  call by what they have read.  A client is such a choice tree: a method with the callbacks of its
  visitor, which refuse or return a value, and for nested values, sequences, maps and enums the calls
  they make on the access they are given.  A size hint is an argument of the callback.  A recursive
  type is represented by its unfoldings; the depth of the call stack is not modelled.
\<close>

section \<open>Clients\<close>

datatype de_method =
    MAny | MBool | MI8 | MI16 | MI32 | MI64 | MU8 | MU16 | MU32 | MU64 | MF32 | MF64 | MChar
  | MStr | MString | MBytes | MByteBuf | MOption | MUnit | MUnitStruct | MNewtypeStruct | MSeq
  | MTuple nat | MTupleStruct nat | MMap | MStruct "bytes list" | MEnum | MIdentifier | MIgnoredAny

datatype scalar =
    ScUnit | ScBool bool | ScI8 u8 | ScI16 i16 | ScI32 i32 | ScI64 i64 | ScU8 u8 | ScU16 u16 | ScU32 u32
  | ScU64 u64 | ScF32 u32 | ScF64 u64 | ScChar u32 | ScStr bytes | ScBytes bytes | ScNone

datatype 'v client = Client de_method "'v visits"
and 'v visits =
  Visits "scalar \<Rightarrow> 'v option" "'v nested" "'v nested" "nat \<Rightarrow> 'v seq_client" "nat \<Rightarrow> 'v map_client" "'v enum_client"
and 'v nested = Refuse | Nested "'v client" "'v \<Rightarrow> 'v option"
and 'v seq_client = SeqDone "'v option" | SeqNext "'v client" "'v option \<Rightarrow> 'v seq_client"
and 'v map_client =
    MapDone "'v option"
  | MapKey "'v client" "bytes \<Rightarrow> 'v option" "'v option \<Rightarrow> 'v map_client"
  | MapValue "'v client" "'v \<Rightarrow> 'v map_client"
and 'v enum_client = EnumRefuse | EnumRead "'v client" "bytes \<Rightarrow> 'v option" "'v \<Rightarrow> 'v variant_client"
and 'v variant_client =
    VariantUnit "'v option"
  | VariantNewtype "'v client" "'v \<Rightarrow> 'v option"
  | VariantTuple nat "'v visits"
  | VariantStruct "bytes list" "'v visits"

definition reply :: "'v option \<Rightarrow> codec_error + 'v" where
  "reply r = (case r of None \<Rightarrow> Err (Message ''client error'' []) | Some x \<Rightarrow> Ok x)"

primrec call_method :: "de_method \<Rightarrow> 'v visitor \<Rightarrow> 'v de_action" where
  "call_method MAny = deserialize_any"
| "call_method MBool = deserialize_bool"
| "call_method MI8 = deserialize_i8"
| "call_method MI16 = deserialize_i16"
| "call_method MI32 = deserialize_i32"
| "call_method MI64 = deserialize_i64"
| "call_method MU8 = deserialize_u8"
| "call_method MU16 = deserialize_u16"
| "call_method MU32 = deserialize_u32"
| "call_method MU64 = deserialize_u64"
| "call_method MF32 = deserialize_f32"
| "call_method MF64 = deserialize_f64"
| "call_method MChar = deserialize_char"
| "call_method MStr = deserialize_str"
| "call_method MString = deserialize_string"
| "call_method MBytes = deserialize_bytes"
| "call_method MByteBuf = deserialize_byte_buf"
| "call_method MOption = deserialize_option"
| "call_method MUnit = deserialize_unit"
| "call_method MUnitStruct = deserialize_unit_struct"
| "call_method MNewtypeStruct = deserialize_newtype_struct"
| "call_method MSeq = deserialize_seq"
| "call_method (MTuple n) = deserialize_tuple n"
| "call_method (MTupleStruct n) = deserialize_tuple_struct n"
| "call_method MMap = deserialize_map"
| "call_method (MStruct fs) = deserialize_struct fs"
| "call_method MEnum = deserialize_enum"
| "call_method MIdentifier = deserialize_identifier"
| "call_method MIgnoredAny = deserialize_ignored_any"

primrec run_client :: "'v client \<Rightarrow> 'v de_action"
  and run_visits :: "'v visits \<Rightarrow> 'v visitor"
  and run_nested :: "'v nested \<Rightarrow> 'v de_action"
  and run_seq :: "'v seq_client \<Rightarrow> counted_access \<Rightarrow> 'v de_action"
  and run_map :: "'v map_client \<Rightarrow> counted_access \<Rightarrow> 'v de_action"
  and run_enum :: "'v enum_client \<Rightarrow> enum_access \<Rightarrow> 'v de_action"
  and run_variant :: "'v variant_client \<Rightarrow> enum_access \<Rightarrow> 'v de_action" where
  "run_client (Client m v) = call_method m (run_visits v)"
| "run_visits (Visits f some_c newtype_c seq_c map_c enum_c) =
     \<lparr>visit_unit = reply (f ScUnit), visit_bool = (\<lambda>x. reply (f (ScBool x))),
      visit_i8 = (\<lambda>x. reply (f (ScI8 x))), visit_i16 = (\<lambda>x. reply (f (ScI16 x))),
      visit_i32 = (\<lambda>x. reply (f (ScI32 x))), visit_i64 = (\<lambda>x. reply (f (ScI64 x))),
      visit_u8 = (\<lambda>x. reply (f (ScU8 x))), visit_u16 = (\<lambda>x. reply (f (ScU16 x))),
      visit_u32 = (\<lambda>x. reply (f (ScU32 x))), visit_u64 = (\<lambda>x. reply (f (ScU64 x))),
      visit_f32 = (\<lambda>x. reply (f (ScF32 x))), visit_f64 = (\<lambda>x. reply (f (ScF64 x))),
      visit_char = (\<lambda>x. reply (f (ScChar x))), visit_str = (\<lambda>x. reply (f (ScStr x))),
      visit_bytes = (\<lambda>x. reply (f (ScBytes x))), visit_none = reply (f ScNone),
      visit_some = run_nested some_c, visit_newtype_struct = run_nested newtype_c,
      visit_seq = (\<lambda>acc. run_seq (seq_c (acc_remaining acc)) acc),
      visit_map = (\<lambda>acc. run_map (map_c (acc_remaining acc)) acc),
      visit_enum = run_enum enum_c\<rparr>"
| "run_nested Refuse = dlift (reply None)"
| "run_nested (Nested c f) = dbind (run_client c) (\<lambda>x. dlift (reply (f x)))"
| "run_seq (SeqDone r) = (\<lambda>acc. dlift (reply r))"
| "run_seq (SeqNext c k) = (\<lambda>acc. dbind (next_element_seed (run_client c) acc) (\<lambda>(x, acc). run_seq (k x) acc))"
| "run_map (MapDone r) = (\<lambda>acc. dlift (reply r))"
| "run_map (MapKey c f k) =
     (\<lambda>acc. dbind (next_key_seed \<lparr>seed_de = run_client c, seed_str = (\<lambda>s. reply (f s))\<rparr> acc)
        (\<lambda>(x, acc). run_map (k x) acc))"
| "run_map (MapValue c k) = (\<lambda>acc. dbind (next_value_seed (run_client c) acc) (\<lambda>x. run_map (k x) acc))"
| "run_enum EnumRefuse = (\<lambda>ea. dlift (reply None))"
| "run_enum (EnumRead c f k) =
     (\<lambda>ea. dbind (variant_seed \<lparr>seed_de = run_client c, seed_str = (\<lambda>s. reply (f s))\<rparr> ea)
        (\<lambda>(x, ea). run_variant (k x) ea))"
| "run_variant (VariantUnit r) = (\<lambda>ea. dbind (unit_variant ea) (\<lambda>_. dlift (reply r)))"
| "run_variant (VariantNewtype c f) =
     (\<lambda>ea. dbind (newtype_variant_seed (run_client c) ea) (\<lambda>x. dlift (reply (f x))))"
| "run_variant (VariantTuple n v) = tuple_variant n (run_visits v)"
| "run_variant (VariantStruct fs v) = struct_variant fs (run_visits v)"

section \<open>Every method keeps visitors safe\<close>

definition visitor_safe :: "decode_limits option \<Rightarrow> 'v visitor \<Rightarrow> bool" where
  "visitor_safe l v \<longleftrightarrow>
     visit_unit v \<noteq> Err RustPanic \<and> visit_none v \<noteq> Err RustPanic \<and>
     (\<forall>x. visit_bool v x \<noteq> Err RustPanic) \<and> (\<forall>x. visit_i8 v x \<noteq> Err RustPanic) \<and>
     (\<forall>x. visit_i16 v x \<noteq> Err RustPanic) \<and> (\<forall>x. visit_i32 v x \<noteq> Err RustPanic) \<and>
     (\<forall>x. visit_i64 v x \<noteq> Err RustPanic) \<and> (\<forall>x. visit_u8 v x \<noteq> Err RustPanic) \<and>
     (\<forall>x. visit_u16 v x \<noteq> Err RustPanic) \<and> (\<forall>x. visit_u32 v x \<noteq> Err RustPanic) \<and>
     (\<forall>x. visit_u64 v x \<noteq> Err RustPanic) \<and> (\<forall>x. visit_f32 v x \<noteq> Err RustPanic) \<and>
     (\<forall>x. visit_f64 v x \<noteq> Err RustPanic) \<and> (\<forall>x. visit_char v x \<noteq> Err RustPanic) \<and>
     (\<forall>x. visit_str v x \<noteq> Err RustPanic) \<and> (\<forall>x. visit_bytes v x \<noteq> Err RustPanic) \<and>
     safe l (visit_some v) \<and> safe l (visit_newtype_struct v) \<and>
     (\<forall>acc. safe l (visit_seq v acc)) \<and> (\<forall>acc. safe l (visit_map v acc)) \<and> (\<forall>ea. safe l (visit_enum v ea))"

lemma reply_no_panic [simp]: "reply r \<noteq> Err RustPanic"
  by (simp add: reply_def split: option.split)

lemma safe_lift: "r \<noteq> Err RustPanic \<Longrightarrow> safe l (dlift r)"
  by (rule contract_lift0) (auto split: sum.split)

lemma safe_usize: "safe l read_varint_usize"
  by (rule contract_weaken [OF contract_usize]) simp

lemma safe_read_bytes: "safe l read_bytes"
  by (rule contract_weaken [OF contract_bytes]) simp

lemma safe_read_str: "safe l read_str"
  by (rule contract_weaken [OF contract_str]) simp

lemma from_le_bytes_None: "from_le_bytes n bs = (None :: 'a::len word option) \<longleftrightarrow> length bs < n"
  by (simp add: from_le_bytes_def)

lemma safe_bind: "safe l a \<Longrightarrow> (\<And>x. safe l (f x)) \<Longrightarrow> safe l (dbind a f)"
  by (rule contract_bind)

lemma safe_next_element: "safe l seed \<Longrightarrow> safe l (next_element_seed seed acc)"
  by (rule contract_weaken [OF contract_next_element [where c = 0]]) auto

lemma safe_next_key:
  "safe l (seed_de seed) \<Longrightarrow> (\<And>s. seed_str seed s \<noteq> Err RustPanic) \<Longrightarrow> safe l (next_key_seed seed acc)"
  by (rule contract_weaken [OF contract_next_key [where c = 0 and k = "\<lambda>_. 0" and W = "\<lambda>_. True"]])
    (auto split: sum.split)

lemmas safe_reads = safe_expect_tag safe_u8 safe_usize safe_read_bytes safe_read_str contract_typed_or

lemma visitor_safeD:
  assumes "visitor_safe l v"
  shows "safe l (dlift (visit_unit v))" "safe l (dlift (visit_none v))" "safe l (dlift (visit_bool v b))"
    "safe l (dlift (visit_i8 v i8))" "safe l (dlift (visit_i16 v i16))" "safe l (dlift (visit_i32 v i32))"
    "safe l (dlift (visit_i64 v i64))" "safe l (dlift (visit_u8 v u8))" "safe l (dlift (visit_u16 v u16))"
    "safe l (dlift (visit_u32 v u32))" "safe l (dlift (visit_u64 v u64))" "safe l (dlift (visit_f32 v u32))"
    "safe l (dlift (visit_f64 v u64))" "safe l (dlift (visit_char v u32))" "safe l (dlift (visit_str v bs))"
    "safe l (dlift (visit_bytes v bs))" "safe l (dlift (rbind (i8_of_i16 i16) (visit_i8 v)))"
    "safe l (visit_some v)" "safe l (visit_newtype_struct v)"
    "safe l (visit_seq v acc)" "safe l (visit_map v acc)" "safe l (visit_enum v ea)"
  using assms by (simp_all add: visitor_safe_def safe_lift i8_of_i16_def)

lemma safe_float_reads:
  assumes "visitor_safe l v"
  shows "safe l (dbind (consume 4) (\<lambda>bs.
      case from_le_bytes 4 bs of None \<Rightarrow> derr RustPanic | Some x \<Rightarrow> dlift (visit_f32 v x)))"
    and "safe l (dbind (consume 8) (\<lambda>bs.
      case from_le_bytes 8 bs of None \<Rightarrow> derr RustPanic | Some x \<Rightarrow> dlift (visit_f64 v x)))"
  by (rule contract_bind [OF safe_consume],
      auto simp: from_le_bytes_None visitor_safeD [OF assms] split: option.split)+

lemma safe_varints:
  "safe l read_varint_u16" "safe l read_varint_u32" "safe l read_varint_u64"
  "safe l read_varint_i16" "safe l read_varint_i32" "safe l read_varint_i64"
  by (simp_all add: read_varint_u16_def read_varint_u32_def read_varint_u64_def read_varint_i16_def
      read_varint_i32_def read_varint_i64_def safe_varint)

lemmas safe_any = safe_reads safe_varints

lemma safe_scalar_methods:
  assumes "visitor_safe l v"
  shows "safe l (deserialize_bool v)" "safe l (deserialize_i8 v)" "safe l (deserialize_i16 v)"
    "safe l (deserialize_i32 v)" "safe l (deserialize_i64 v)" "safe l (deserialize_u8 v)"
    "safe l (deserialize_u16 v)" "safe l (deserialize_u32 v)" "safe l (deserialize_u64 v)"
    "safe l (deserialize_f32 v)" "safe l (deserialize_f64 v)" "safe l (deserialize_char v)"
    "safe l (deserialize_str v)" "safe l (deserialize_string v)" "safe l (deserialize_bytes v)"
    "safe l (deserialize_byte_buf v)" "safe l (deserialize_unit v)" "safe l (deserialize_unit_struct v)"
    "safe l (deserialize_newtype_struct v)" "safe l (deserialize_ignored_any v)"
  unfolding deserialize_bool_def deserialize_i8_def deserialize_i16_def deserialize_i32_def deserialize_i64_def
    deserialize_u8_def deserialize_u16_def deserialize_u32_def deserialize_u64_def deserialize_f32_def
    deserialize_f64_def deserialize_char_def deserialize_str_def deserialize_string_def deserialize_bytes_def
    deserialize_byte_buf_def deserialize_unit_def deserialize_unit_struct_def deserialize_newtype_struct_def
    deserialize_ignored_any_def
  by (auto intro!: safe_bind [OF safe_expect_tag] safe_bind [OF safe_u8] safe_bind [OF safe_varints(1)]
      safe_bind [OF safe_varints(2)] safe_bind [OF safe_varints(3)] safe_bind [OF safe_varints(4)]
      safe_bind [OF safe_varints(5)] safe_bind [OF safe_varints(6)] safe_bind [OF safe_read_str]
      safe_bind [OF safe_read_bytes] safe_float_reads [OF assms] visitor_safeD [OF assms] contract_err
      split: option.split)

lemma safe_compound_methods:
  assumes "visitor_safe l v"
  shows "safe l (deserialize_option v)" "safe l (deserialize_seq v)" "safe l (deserialize_tuple n v)"
    "safe l (deserialize_tuple_struct n v)" "safe l (deserialize_map v)" "safe l (deserialize_struct fs v)"
    "safe l (deserialize_enum v)" "safe l (deserialize_identifier v)"
    "safe l (tuple_variant n v ea)" "safe l (struct_variant fs v ea)"
proof -
  note v = visitor_safeD [OF assms]
  show "safe l (deserialize_option v)" by (rule contract_option) (rule v)+
  show "safe l (deserialize_seq v)" "safe l (deserialize_tuple n v)" "safe l (deserialize_tuple_struct n v)"
    "safe l (deserialize_map v)" "safe l (deserialize_enum v)"
    unfolding deserialize_seq_def deserialize_tuple_def deserialize_tuple_struct_def deserialize_map_def deserialize_enum_def
    by (intro safe_bind [OF safe_expect_tag] safe_bind [OF safe_usize] safe_bind [OF contract_typed_or]
        contract_identifier v)+
  show "safe l (deserialize_struct fs v)" "safe l (struct_variant fs v ea)"
    by (rule contract_struct_variant; rule v)+
  show "safe l (tuple_variant n v ea)" by (rule contract_tuple_variant) (rule v)
  show "safe l (deserialize_identifier v)"
    by (rule contract_read_identifier) (use assms in \<open>auto simp: visitor_safe_def split: sum.split\<close>)
qed

lemma safe_deserialize_any:
  assumes "visitor_safe l v"
  shows "safe l (deserialize_any v)"
proof -
  note v = visitor_safeD [OF assms]
  show ?thesis
    unfolding deserialize_any_def
    by (intro safe_bind [OF contract_tag])
      (auto intro!: v contract_err safe_bind [OF safe_u8] safe_bind [OF safe_varints(1)]
      safe_bind [OF safe_varints(2)] safe_bind [OF safe_varints(3)] safe_bind [OF safe_varints(4)]
      safe_bind [OF safe_varints(5)] safe_bind [OF safe_varints(6)] safe_bind [OF safe_read_str]
      safe_bind [OF safe_read_bytes] safe_bind [OF safe_usize] safe_float_reads [OF assms]
      split: option.split type_tag.split)
qed

lemma safe_call_method: "visitor_safe l v \<Longrightarrow> safe l (call_method m v)"
  by (cases m) (simp_all add: safe_scalar_methods safe_compound_methods safe_deserialize_any)

lemma safe_variant_access:
  "safe l (unit_variant ea)" "safe l seed \<Longrightarrow> safe l (newtype_variant_seed seed ea)"
  "safe l (seed_de s) \<Longrightarrow> (\<And>bs. seed_str s bs \<noteq> Err RustPanic) \<Longrightarrow> safe l (variant_seed s ea)"
proof -
  show "safe l (unit_variant ea)"
    by (cases ea) (auto simp: unit_variant_def [abs_def]
        intro!: contract_if contract_Ok safe_bind [OF safe_usize] contract_err contract_ret)
  show "safe l seed \<Longrightarrow> safe l (newtype_variant_seed seed ea)"
    by (cases ea) (auto simp: newtype_variant_seed_def [abs_def]
        intro!: contract_if safe_bind [OF safe_usize] contract_err)
  show "safe l (seed_de s) \<Longrightarrow> (\<And>bs. seed_str s bs \<noteq> Err RustPanic) \<Longrightarrow> safe l (variant_seed s ea)"
    by (cases ea) (auto simp: variant_seed_def intro!: safe_bind safe_lift contract_ret)
qed

lemma safe_run:
  fixes c :: "'v client" and v :: "'v visits" and n :: "'v nested" and sq :: "'v seq_client"
    and mp :: "'v map_client" and en :: "'v enum_client" and va :: "'v variant_client"
  shows safe_run_client: "safe l (run_client c)"
  and safe_run_visits: "visitor_safe l (run_visits v)"
  and safe_run_nested: "safe l (run_nested n)"
  and safe_run_seq: "safe l (run_seq sq acc)"
  and safe_run_map: "safe l (run_map mp acc)"
  and safe_run_enum: "safe l (run_enum en ea)"
  and safe_run_variant: "safe l (run_variant va ea)"
proof (induction c and v and n and sq and mp and en and va
    arbitrary: and and and acc and acc and ea and ea)
  case (Client m v)
  then show ?case by (simp add: safe_call_method)
next
  case (Visits f so nt sq mp en)
  then show ?case by (simp add: visitor_safe_def)
next
  case (SeqNext c k)
  then show ?case by (auto intro!: safe_bind [OF safe_next_element] split: prod.split)
next
  case (MapKey c f k)
  then show ?case by (auto intro!: safe_bind [OF safe_next_key] split: prod.split)
next
  case (MapValue c k)
  then show ?case by (auto intro!: safe_bind [OF contract_next_value])
next
  case (EnumRead c f k)
  then show ?case by (auto intro!: safe_bind [OF safe_variant_access(3)] split: prod.split)
next
  case (VariantUnit r)
  then show ?case by (auto intro!: safe_bind [OF safe_variant_access(1)] safe_lift)
next
  case (VariantNewtype c f)
  then show ?case by (auto intro!: safe_bind [OF safe_variant_access(2)] safe_lift)
qed (auto intro!: safe_bind safe_lift safe_compound_methods)

end
