(* ===== verification/Wire_Correct.thy ===== *)
theory Wire_Correct
  imports Wire_Clients
begin

text \<open>
  The properties of the wire codec: what the serializer writes is the format of \<^verbatim>\<open>Wire_Format\<close>, every type
  reads back what was written, also after its fields were reordered or an optional field was left
  out, decoding arbitrary bytes never panics, and bounded decoding admits nothing over its budgets.
\<close>

section \<open>Conforming values\<close>

lemma sized_list: "elems_conform (map (conforms m) shs) xs ys \<Longrightarrow>
  (\<And>sh v w. sh \<in> set shs \<Longrightarrow> conforms m sh v w \<Longrightarrow> sized v) \<Longrightarrow> list_all id (map sized xs)"
  by (auto simp: elems_conform_def list_all_length) (metis nth_mem)

lemma sized_fields:
  assumes c: "fields_conform m opts (map (map_prod id (conforms m)) fs) xs ys"
    and r: "\<And>n sh v w. (n, sh) \<in> set fs \<Longrightarrow> conforms m sh v w \<Longrightarrow> sized v"
  shows "list_all snd (map (map_prod id sized) xs)"
proof (cases "m = Positional")
  case True
  then have "elems_conform (map (conforms m) (map snd fs)) (map snd xs) (map snd ys)"
    using c by (simp add: fields_conform_def comp_def)
  then have "list_all id (map sized (map snd xs))" by (rule sized_list) (use r in auto)
  then show ?thesis by (auto simp: list_all_iff)
next
  case False
  have "sized x" if nx: "(n, x) \<in> set xs" for n x
  proof -
    have "n \<in> set (map fst fs)" using c False nx by (auto simp: fields_conform_def list_all_iff comp_def)
    then obtain i where i: "i < length fs" "fst (fs ! i) = n" by (auto simp: in_set_conv_nth)
    have "map_of xs n = Some x" using c False nx by (simp add: fields_conform_def)
    then have "conforms m (snd (fs ! i)) x (snd (ys ! i))"
      using c False i by (auto simp: fields_conform_def list_all_iff dest!: bspec [where x = i])
    then show ?thesis using r i(1) by (metis nth_mem prod.collapse)
  qed
  then show ?thesis by (auto simp: list_all_iff)
qed

lemma conforms_sized: "conforms m sh v w \<Longrightarrow> sized v"
  and vconforms_sized: "vconforms m vs v w \<Longrightarrow> sized v"
proof (induction sh and vs arbitrary: v w and v w)
  case (ShSeq sh)
  then show ?case
    by (auto simp: list_all_length list_all2_conv_all_nth split: sval.splits)
next
  case (ShTuple shs)
  then obtain xs ys where v: "v = VTuple xs" and c: "elems_conform (map (conforms m) shs) xs ys"
    by (auto split: sval.splits)
  show ?case unfolding v sized.simps by (rule sized_list [OF c]) (rule ShTuple.IH)
next
  case (ShTupleStruct shs)
  then obtain xs ys where v: "v = VTupleStruct xs" and c: "elems_conform (map (conforms m) shs) xs ys"
    by (auto split: sval.splits)
  show ?case unfolding v sized.simps by (rule sized_list [OF c]) (rule ShTupleStruct.IH)
next
  case (ShMap ks vs)
  then show ?case
    by (auto simp: list_all_length list_all2_conv_all_nth case_prod_beta split: sval.splits)
next
  case (ShStruct fs)
  then obtain xs ys where v: "v = VStruct xs"
    and c: "fields_conform m (map (\<lambda>(_, sh). is_option sh) fs) (map (map_prod id (conforms m)) fs) xs ys"
    by (auto split: sval.splits)
  show ?case unfolding v sized.simps by (rule sized_fields [OF c]) (use ShStruct in fastforce)
next
  case (ShEnum vs)
  then obtain i :: u32 where i: "unat i < length vs" "vconforms m (snd (vs ! unat i)) v w"
    by (auto split: option.splits)
  show ?case using ShEnum.IH [OF nth_mem [OF i(1)] _ i(2)] by (cases "vs ! unat i") simp
next
  case (VsTuple shs)
  then obtain xs ys i n where v: "v = VTupleVariant i n xs" and c: "elems_conform (map (conforms m) shs) xs ys"
    by (auto split: sval.splits)
  show ?case unfolding v sized.simps by (rule sized_list [OF c]) (rule VsTuple.IH)
next
  case (VsStruct fs)
  then obtain xs ys i n where v: "v = VStructVariant i n xs"
    and c: "fields_conform m (map (\<lambda>(_, sh). is_option sh) fs) (map (map_prod id (conforms m)) fs) xs ys"
    by (auto split: sval.splits)
  show ?case unfolding v sized.simps by (rule sized_fields [OF c]) (use VsStruct in fastforce)
qed (auto split: sval.splits)

text \<open>A value of a type is read as itself, in every mode.\<close>

definition has_shape :: "shape \<Rightarrow> sval \<Rightarrow> bool" where
  "has_shape sh v \<longleftrightarrow> conforms Positional sh v v"

lemma elems_conform_same:
  "elems_conform (map (conforms Positional) shs) xs xs \<Longrightarrow>
   (\<And>sh v. sh \<in> set shs \<Longrightarrow> conforms Positional sh v v \<Longrightarrow> conforms m sh v v) \<Longrightarrow>
   elems_conform (map (conforms m) shs) xs xs"
  by (auto simp: elems_conform_def list_all_length)

lemma fields_conform_same:
  assumes c: "fields_conform Positional opts (map (map_prod id (conforms Positional)) fs) xs xs"
    and g: "good_names (map fst fs)"
    and r: "\<And>n sh v. (n, sh) \<in> set fs \<Longrightarrow> conforms Positional sh v v \<Longrightarrow> conforms m sh v v"
  shows "fields_conform m opts (map (map_prod id (conforms m)) fs) xs xs"
proof -
  have names: "map fst xs = map fst fs" and len: "length xs = length fs"
    using c by (auto simp: fields_conform_def comp_def dest: arg_cong [of _ _ length])
  have e: "elems_conform (map (conforms m) (map snd fs)) (map snd xs) (map snd xs)"
    by (rule elems_conform_same) (use c r in \<open>auto simp: fields_conform_def comp_def\<close>)
  have look: "map_of xs (fst (fs ! i)) = Some (snd (xs ! i))" if "i < length fs" for i
  proof -
    have "fst (fs ! i) = fst (xs ! i)" using names that len by (metis nth_map)
    then show ?thesis
      using names g that len by (simp add: good_names_def map_of_eq_Some_iff)
  qed
  have mem: "\<forall>(n, x)\<in>set xs. n \<in> set (map fst fs)" unfolding names [symmetric] by force
  have each: "\<forall>i\<in>{0..<length fs}. case map_of xs (fst (fs ! i)) of
      None \<Rightarrow> opts ! i \<and> snd (xs ! i) = VNone
    | Some x \<Rightarrow> snd (map (map_prod id (conforms m)) fs ! i) x (snd (xs ! i))"
    using e len by (auto simp: look elems_conform_def list_all_iff)
  have "distinct (map fst xs)" using names g by (simp add: good_names_def)
  then show ?thesis
    using names mem each e
    by (cases "m = Positional") (simp_all add: fields_conform_def list_all_iff comp_def)
qed

lemma conforms_mode: "wf_shape sh \<Longrightarrow> conforms Positional sh v v \<Longrightarrow> conforms m sh v v"
  and vconforms_mode: "wf_vshape vs \<Longrightarrow> vconforms Positional vs v v \<Longrightarrow> vconforms m vs v v"
proof (induction sh and vs arbitrary: v and v)
  case (ShSeq sh)
  then show ?case by (auto simp: list_all2_same split: sval.splits)
next
  case (ShTuple shs)
  then show ?case by (auto simp: list_all_iff split: sval.splits intro!: elems_conform_same)
next
  case (ShTupleStruct shs)
  then show ?case by (auto simp: list_all_iff split: sval.splits intro!: elems_conform_same)
next
  case (ShMap ks vs)
  then show ?case by (auto simp: list_all2_same split: sval.splits)
next
  case (ShStruct fs)
  then show ?case
    by (auto simp: list_all_iff split: sval.splits intro!: fields_conform_same)
next
  case (ShEnum vs)
  then show ?case
    by (auto simp: list_all_iff split: option.splits)
      (metis ShEnum.IH nth_mem prod.collapse snds.intros)
next
  case (VsTuple shs)
  then show ?case by (auto simp: list_all_iff split: sval.splits intro!: elems_conform_same)
next
  case (VsStruct fs)
  then show ?case
    by (auto simp: list_all_iff split: sval.splits intro!: fields_conform_same)
qed (auto split: sval.splits)

section \<open>Encoding and decoding whole messages\<close>

lemma to_vec_wire: "sized v \<Longrightarrow> to_vec_with_mode (ser_of v) m = Ok (wire m v)"
  using ser_of_writes [of v]
  by (simp add: to_vec_with_mode_def serializer_new_def emit_def)

lemma from_bytes_wire:
  assumes "wf_shape sh" "conforms m sh v w" "length (wire m v) \<le> usize_max"
  shows "from_bytes_with_mode (de_of sh) (wire m v) m = Ok w"
proof -
  have "de_of sh (deserializer_new (wire m v) m) =
      Ok (w, (deserializer_new (wire m v) m)\<lparr>de_pos := 0 + length (wire m v)\<rparr>)"
    using readsD [OF reads_wire [OF assms(1,2)], of "deserializer_new (wire m v) m" "[]"] assms(3)
    by (simp add: deserializer_new_def)
  then show ?thesis by (simp add: from_bytes_with_mode_def deserializer_new_def)
qed

lemma entry_no_panic:
  assumes "\<And>l. safe l act"
  shows "from_bytes_with_mode act bs m \<noteq> Err RustPanic" "from_bytes_bounded act bs limits \<noteq> Err RustPanic"
proof -
  let ?d = "deserializer_new bs m"
  show "from_bytes_with_mode act bs m \<noteq> Err RustPanic"
    using contractD [OF assms [of None], of ?d]
    by (auto simp: from_bytes_with_mode_def deserializer_new_def rbind_Err_iff split: sum.splits if_splits)
  let ?e = "(deserializer_new bs Positional)
    \<lparr>de_limits := Some limits, remaining_entries := max_total_entries limits\<rparr>"
  show "from_bytes_bounded act bs limits \<noteq> Err RustPanic"
    using contractD [OF assms [of "Some limits"], of ?e]
    by (auto simp: from_bytes_bounded_def deserializer_new_def rbind_Err_iff split: sum.splits if_splits)
qed

lemma safe_de_of: "safe l (de_of sh)"
  by (rule contract_weaken [OF contract_de_of]) simp

section \<open>Properties\<close>

text \<open>
  C10.  Decoding what a writer of a compatible type encoded.  Serializing any call tree that a type
  accepts writes its wire format in the mode, and deserializing those bytes in the same mode gives the
  value of the reading type: the same value if the types agree, and in the named modes also when
  the writer declares its struct fields in another order or lacks fields that are optional for the
  reader.
\<close>

theorem codec_decodes_conforming:
  assumes "wf_shape sh" "conforms m sh v w" "length (wire m v) \<le> usize_max"
  shows "to_vec_with_mode (ser_of v) m = Ok (wire m v) \<and>
    from_bytes_with_mode (de_of sh) (wire m v) m = Ok w"
  using to_vec_wire [OF conforms_sized [OF assms(2)]] from_bytes_wire [OF assms] by simp

definition demo_shape :: shape where
  "demo_shape = ShStruct [([97], ShOption ShBool), ([98], ShSeq ShU8)]"

lemma demo_evaluations:
  "wf_shape demo_shape"
  "conforms Stable demo_shape (VStruct [([98], VSeq (Some 2) [VU8 7, VU8 9])])
     (VStruct [([97], VNone), ([98], VSeq (Some 2) [VU8 7, VU8 9])])"
  "has_shape demo_shape (VStruct [([97], VSome (VBool True)), ([98], VSeq (Some 1) [VU8 7])])"
  "from_utf8 [97] = Utf8Ok" "from_utf8 [98] = Utf8Ok"
proof -
  show u: "from_utf8 [97] = Utf8Ok" "from_utf8 [98] = Utf8Ok"
    by (rule from_utf8_whole, simp add: utf8_head_def utf8_width_def)+
  show "wf_shape demo_shape"
    by (simp add: demo_shape_def good_names_def good_name_def u usize_max_def)
  show "conforms Stable demo_shape (VStruct [([98], VSeq (Some 2) [VU8 7, VU8 9])])
     (VStruct [([97], VNone), ([98], VSeq (Some 2) [VU8 7, VU8 9])])"
    by (simp add: demo_shape_def fields_conform_def usize_max_def)
  show "has_shape demo_shape (VStruct [([97], VSome (VBool True)), ([98], VSeq (Some 1) [VU8 7])])"
    by (simp add: has_shape_def demo_shape_def fields_conform_def elems_conform_def usize_max_def)
qed

theorem codec_decodes_conforming_witness:
  "from_bytes_with_mode (de_of demo_shape)
     (wire Stable (VStruct [([98], VSeq (Some 2) [VU8 7, VU8 9])])) Stable =
   Ok (VStruct [([97], VNone), ([98], VSeq (Some 2) [VU8 7, VU8 9])])"
proof -
  let ?v = "VStruct [([98], VSeq (Some 2) [VU8 7, VU8 9])]"
  have "length (wire Stable ?v) \<le> usize_max"
    by (simp add: usize_max_def tag_wire_def named_count_def fields_wire_def name_wire_def
        str_wire_def encode_usize_def encode_u64.simps)
  from codec_decodes_conforming [OF demo_evaluations(1,2) this] show ?thesis by simp
qed

text \<open>
  C11.  Round trip.  Every value of a type, in each of the three modes, serializes without an error
  and the bytes decode to the value, provided they fit in memory (at most \<^verbatim>\<open>usize::MAX\<close>).
\<close>

theorem codec_roundtrip:
  assumes "wf_shape sh" "has_shape sh v"
  shows "\<exists>bs. to_vec_with_mode (ser_of v) m = Ok bs \<and>
    (length bs \<le> usize_max \<longrightarrow> from_bytes_with_mode (de_of sh) bs m = Ok v)"
proof -
  have c: "conforms m sh v v" using conforms_mode [OF assms(1)] assms(2) by (simp add: has_shape_def)
  show ?thesis
    using to_vec_wire [OF conforms_sized [OF c]] from_bytes_wire [OF assms(1) c] by auto
qed

theorem codec_roundtrip_witness:
  "\<exists>bs. to_vec_with_mode (ser_of (VStruct [([97], VSome (VBool True)), ([98], VSeq (Some 1) [VU8 7])]))
      TypedStable = Ok bs \<and>
    (length bs \<le> usize_max \<longrightarrow> from_bytes_with_mode (de_of demo_shape) bs TypedStable =
       Ok (VStruct [([97], VSome (VBool True)), ([98], VSeq (Some 1) [VU8 7])]))"
  by (rule codec_roundtrip [OF demo_evaluations(1,3)])

text \<open>
  C12.  Decoding never panics.  Whatever the bytes, the mode and the limits, both entry points return a
  value or an error that is not a panic, for every type of a shape and for every client that itself
  refuses values without a panic: any tree of calls of the 29 deserializer methods and of the sequence,
  map and enum accesses, self-describing reads included.
\<close>

theorem codec_never_panics:
  "from_bytes_with_mode (run_client c) bs m \<noteq> Err RustPanic \<and>
   from_bytes_bounded (run_client c) bs limits \<noteq> Err RustPanic \<and>
   from_bytes_with_mode (de_of sh) bs m \<noteq> Err RustPanic \<and>
   from_bytes_bounded (de_of sh) bs limits \<noteq> Err RustPanic"
  using entry_no_panic [OF safe_run_client, of c] entry_no_panic [OF safe_de_of, of sh] by blast

text \<open>
  C13.  Admission of untrusted messages: a value that bounded decoding accepts came from no more
  than the permitted number of bytes, each of its strings and byte buffers and each of its
  sequences and maps is within its limit, and all declared entries together, at every nesting
  depth, are within the total budget.
\<close>

theorem bounded_decode_within_limits:
  assumes "from_bytes_bounded (de_of sh) bs limits = Ok v"
  shows "length bs \<le> max_input_bytes limits \<and> within (Some limits) v \<and>
    entries v \<le> max_total_entries limits"
proof -
  define e where "e = (deserializer_new bs Positional)
    \<lparr>de_limits := Some limits, remaining_entries := max_total_entries limits\<rparr>"
  have e: "de_pos e = 0" "de_limits e = Some limits" "remaining_entries e = max_total_entries limits"
    by (simp_all add: e_def deserializer_new_def)
  obtain d where d: "de_of sh e = Ok (v, d)" and len: "length bs \<le> max_input_bytes limits"
    using assms by (auto simp: from_bytes_bounded_def rbind_Ok_iff e_def split: if_splits)
  show ?thesis
    using contractD [OF contract_de_of [of "Some limits" sh], of e] len by (auto simp: d e)
qed

definition demo_limits :: decode_limits where
  "demo_limits = \<lparr>max_input_bytes = 3, max_blob_bytes = 1, max_container_entries = 2, max_total_entries = 2\<rparr>"

theorem bounded_decode_within_limits_witness:
  "from_bytes_bounded (de_of (ShSeq ShU8)) [2, 7, 9] demo_limits = Ok (VSeq (Some 2) [VU8 7, VU8 9]) \<and>
   entries (VSeq (Some 2) [VU8 7, VU8 9]) \<le> max_total_entries demo_limits"
proof -
  have ok: "from_bytes_bounded (de_of (ShSeq ShU8)) [2, 7, 9] demo_limits =
      Ok (VSeq (Some 2) [VU8 7, VU8 9])"
    by (simp add: from_bytes_bounded_def demo_limits_def deserializer_new_def deserialize_seq_def
        dbind_def expect_tag_def read_tag_def dret_def dlift_def read_varint_usize_def read_varint_def
        remaining_def decode_usize_def decode_u64_def seq_loop.simps next_element_seed_def
        deserialize_u8_def read_u8_def consume_def usize_max_def Let_def)
  from bounded_decode_within_limits [OF this] ok show ?thesis by simp
qed

text \<open>
  C14.  Variable-length integers.  Each of the seven encoders is inverted by its decoder, whatever
  bytes follow, the decoder consumes exactly what the encoder wrote, and no encoding is longer than
  ten bytes.
\<close>

theorem varint_roundtrip:
  "decode_u64 (encode_u64 a @ rest) = Some (a, length (encode_u64 a)) \<and>
   decode_u32 (encode_u32 b @ rest) = Some (b, length (encode_u32 b)) \<and>
   decode_u16 (encode_u16 c @ rest) = Some (c, length (encode_u16 c)) \<and>
   decode_usize (encode_usize (unat a) @ rest) = Some (unat a, length (encode_usize (unat a))) \<and>
   decode_i64 (encode_i64 a @ rest) = Some (a, length (encode_i64 a)) \<and>
   decode_i32 (encode_i32 b @ rest) = Some (b, length (encode_i32 b)) \<and>
   decode_i16 (encode_i16 c @ rest) = Some (c, length (encode_i16 c)) \<and>
   length (encode_u64 a) \<le> 10"
  using unsigned_less [of a, where 'a = nat] by (simp add: varint_rt length_encode_u64)

text \<open>
  C15.  A reader that does not know a field of the writer can decode a wrong value without an error:
  the value of the unknown field is skipped by \<^verbatim>\<open>deserialize_ignored_any\<close>, which consumes no
  bytes, so the bytes of that value are read as the next field name.  Here a writer with the fields
  \<^verbatim>\<open>x: "a"\<close> and \<^verbatim>\<open>y: ()\<close> is read as a struct whose only field is \<^verbatim>\<open>a: "y"\<close>.
\<close>

theorem unknown_field_misread:
  "to_vec_with_mode (ser_of (VStruct [([120], VStr [97]), ([121], VUnit)])) Stable =
     Ok [2, 1, 120, 1, 97, 1, 121] \<and>
   from_bytes_with_mode (de_of (ShStruct [([97], ShStr)])) [2, 1, 120, 1, 97, 1, 121] Stable =
     Ok (VStruct [([97], VStr [121])])"
proof
  show "to_vec_with_mode (ser_of (VStruct [([120], VStr [97]), ([121], VUnit)])) Stable =
     Ok [2, 1, 120, 1, 97, 1, 121]"
    by (subst to_vec_wire) (simp_all add: wire_defs fields_wire_def name_wire_def encode_usize_def encode_u64.simps)
  have u: "from_utf8 [120] = Utf8Ok" "from_utf8 [97] = Utf8Ok" "from_utf8 [121] = Utf8Ok"
    by (rule from_utf8_whole, simp add: utf8_head_def utf8_width_def)+
  show "from_bytes_with_mode (de_of (ShStruct [([97], ShStr)])) [2, 1, 120, 1, 97, 1, 121] Stable =
     Ok (VStruct [([97], VStr [121])])"
    by (simp add: from_bytes_with_mode_def deserializer_new_def deserialize_struct_def
        dbind_def expect_tag_def read_tag_def dret_def dlift_def read_varint_usize_def read_varint_def
        remaining_def decode_usize_def decode_u64_def field_loop.simps next_key_seed_def
        next_value_seed_def with_identifier_def field_ident_seed_def ignored_any_def
        deserialize_ignored_any_def deserialize_string_def read_str_def read_bytes_def u
        consume_def usize_max_def Let_def)
qed

end
