(* ===== verification/Ipc_Frame.thy ===== *)
theory Ipc_Frame
  imports Wire_Correct
begin

text \<open>
  IPC envelopes and frames: \<^verbatim>\<open>packages/ipc/src/frame.rs\<close>, the envelope types and the
  positional \<^verbatim>\<open>encode\<close>/\<^verbatim>\<open>decode\<close> of \<^verbatim>\<open>packages/ipc/src/lib.rs\<close>, the frame readers of
  \<^verbatim>\<open>transport.rs\<close> on a byte stream, and the codec selection of \<^verbatim>\<open>compression.rs\<close>.  The
  zstd and lz4 libraries are the fields of \<open>compression_lib\<close>, together with the two build features.
\<close>

section \<open>Envelopes\<close>

datatype envelope_kind = Request | Response | Event

record envelope =
  env_version :: u16
  env_request_id :: u64
  env_kind :: envelope_kind
  env_payload :: bytes

definition CURRENT_PROTOCOL_VERSION :: u16 where
  "CURRENT_PROTOCOL_VERSION = 4"

definition envelope_new :: "u64 \<Rightarrow> envelope_kind \<Rightarrow> bytes \<Rightarrow> envelope" where
  "envelope_new request_id kind payload =
     \<lparr>env_version = CURRENT_PROTOCOL_VERSION, env_request_id = request_id, env_kind = kind,
      env_payload = payload\<rparr>"

text \<open>The ASCII bytes of a Rust string literal.\<close>

definition lit8 :: "string \<Rightarrow> bytes" where
  "lit8 s = map (\<lambda>c. of_char c) s"

text \<open>The calls of the derived serde implementations: field names, and variants in snake case.\<close>

definition kind_names :: "bytes list" where
  "kind_names = map lit8 [''request'', ''response'', ''event'']"

fun kind_index :: "envelope_kind \<Rightarrow> nat" where
  "kind_index Request = 0" | "kind_index Response = 1" | "kind_index Event = 2"

definition envelope_sval :: "envelope \<Rightarrow> sval" where
  "envelope_sval e = VStruct
     [(lit8 ''version'', VNewtype (VU16 (env_version e))),
      (lit8 ''request_id'', VU64 (env_request_id e)),
      (lit8 ''kind'', VUnitVariant (word_of_nat (kind_index (env_kind e))) (kind_names ! kind_index (env_kind e))),
      (lit8 ''payload'', VBytes (env_payload e))]"

definition envelope_shape :: shape where
  "envelope_shape = ShStruct
     [(lit8 ''version'', ShNewtype ShU16),
      (lit8 ''request_id'', ShU64),
      (lit8 ''kind'', ShEnum (map (\<lambda>n. (n, VsUnit)) kind_names)),
      (lit8 ''payload'', ShBytes)]"

text \<open>The envelope that a value of this shape stands for.\<close>

definition envelope_of :: "sval \<Rightarrow> envelope option" where
  "envelope_of v =
     (case v of
        VStruct [(_, VNewtype (VU16 ver)), (_, VU64 rid), (_, VUnitVariant i _), (_, VBytes p)] \<Rightarrow>
          Some \<lparr>env_version = ver, env_request_id = rid,
            env_kind = (if i = 0 then Request else if i = 1 then Response else Event),
            env_payload = p\<rparr>
      | _ \<Rightarrow> None)"

definition encode_envelope :: "envelope \<Rightarrow> codec_error + bytes" where
  "encode_envelope e = to_vec_with_mode (ser_of (envelope_sval e)) Positional"

definition decode_envelope :: "bytes \<Rightarrow> codec_error + envelope" where
  "decode_envelope bs =
     rbind (from_bytes_with_mode (de_of envelope_shape) bs Positional) (\<lambda>v.
       case envelope_of v of Some e \<Rightarrow> Ok e | None \<Rightarrow> Err (Message ''invalid type'' []))"

section \<open>Plain frames\<close>

definition FRAME_LEN_BYTES :: nat where
  "FRAME_LEN_BYTES = 4"

definition MAX_FRAME_PAYLOAD_SIZE :: nat where
  "MAX_FRAME_PAYLOAD_SIZE = 8 * 1048576"

definition MAX_COMPRESSED_FRAME_SIZE :: nat where
  "MAX_COMPRESSED_FRAME_SIZE = 16 * 1048576"

datatype frame_encode_error = EncPayloadTooLarge nat nat | EncSerialize codec_error

datatype compression_error = DecompressFailed string | UnknownCodec u8

datatype frame_decode_error =
    PayloadTooLarge nat nat
  | IncompleteFrame
  | FrameTrailingBytes
  | UnsupportedVersion u16 u16
  | Decompress compression_error
  | UnknownCompression u8
  | FrameDeserialize codec_error

definition check_envelope_payload :: "envelope \<Rightarrow> frame_encode_error + unit" where
  "check_envelope_payload e =
     (if length (env_payload e) > MAX_FRAME_PAYLOAD_SIZE
      then Err (EncPayloadTooLarge (length (env_payload e)) MAX_FRAME_PAYLOAD_SIZE) else Ok ())"

definition map_err :: "('e \<Rightarrow> 'f) \<Rightarrow> 'e + 'a \<Rightarrow> 'f + 'a" where
  "map_err f r = (case r of Inl e \<Rightarrow> Inl (f e) | Inr x \<Rightarrow> Inr x)"

definition encode_frame :: "envelope \<Rightarrow> frame_encode_error + bytes" where
  "encode_frame e =
     rbind (check_envelope_payload e) (\<lambda>_.
     rbind (map_err EncSerialize (encode_envelope e)) (\<lambda>payload.
       if length payload > MAX_FRAME_PAYLOAD_SIZE
       then Err (EncPayloadTooLarge (length payload) MAX_FRAME_PAYLOAD_SIZE)
       else if length payload \<ge> 2 ^ 32
       then Err (EncPayloadTooLarge (length payload) MAX_FRAME_PAYLOAD_SIZE)
       else Ok (le_bytes32 (word_of_nat (length payload)) @ payload)))"

text \<open>\<^verbatim>\<open>u32::from_le_bytes\<close> of the first four bytes, which the callers have checked to exist.\<close>

definition le_u32 :: "bytes \<Rightarrow> nat" where
  "le_u32 bs = unat (the (from_le_bytes 4 bs) :: u32)"

definition frame_payload_len :: "bytes \<Rightarrow> frame_decode_error + nat option" where
  "frame_payload_len bs =
     (if length bs < FRAME_LEN_BYTES then Ok None
      else let payload_len = le_u32 bs in
        if payload_len > MAX_FRAME_PAYLOAD_SIZE
        then Err (PayloadTooLarge payload_len MAX_FRAME_PAYLOAD_SIZE)
        else Ok (Some payload_len))"

definition decode_envelope_payload :: "bytes \<Rightarrow> frame_decode_error + envelope" where
  "decode_envelope_payload payload =
     rbind (map_err FrameDeserialize (decode_envelope payload)) (\<lambda>e.
       if env_version e \<noteq> CURRENT_PROTOCOL_VERSION
       then Err (UnsupportedVersion (env_version e) CURRENT_PROTOCOL_VERSION)
       else Ok e)"

definition decode_frame_exact :: "bytes \<Rightarrow> frame_decode_error + envelope" where
  "decode_frame_exact frame =
     rbind (frame_payload_len frame) (\<lambda>r.
       case r of
         None \<Rightarrow> Err IncompleteFrame
       | Some payload_len \<Rightarrow>
           (let total_len = FRAME_LEN_BYTES + payload_len in
            if length frame < total_len then Err IncompleteFrame
            else if length frame > total_len then Err FrameTrailingBytes
            else decode_envelope_payload (take payload_len (drop FRAME_LEN_BYTES frame))))"

text \<open>The mutable buffer is an argument and the second result.\<close>

definition try_decode_frame :: "bytes \<Rightarrow> (frame_decode_error + envelope option) \<times> bytes" where
  "try_decode_frame buffer =
     (case frame_payload_len buffer of
        Inl e \<Rightarrow> (Err e, buffer)
      | Inr None \<Rightarrow> (Ok None, buffer)
      | Inr (Some payload_len) \<Rightarrow>
          (let total_len = FRAME_LEN_BYTES + payload_len in
           if length buffer < total_len then (Ok None, buffer)
           else let payload = take payload_len (drop FRAME_LEN_BYTES buffer) in
             (rbind (decode_envelope_payload payload) (\<lambda>e. Ok (Some e)), drop total_len buffer)))"

section \<open>Compression\<close>

datatype compression_id = CNone | CZstd | CLz4

fun compression_byte :: "compression_id \<Rightarrow> u8" where
  "compression_byte CNone = 0" | "compression_byte CZstd = 1" | "compression_byte CLz4 = 2"

definition compression_from_byte :: "u8 \<Rightarrow> compression_id option" where
  "compression_from_byte b =
     (if b = 0 then Some CNone else if b = 1 then Some CZstd else if b = 2 then Some CLz4 else None)"

datatype compression_hint = BulkPayload | FrameHint

record compression_lib =
  feature_zstd :: bool
  feature_lz4 :: bool
  zstd_compress :: "bytes \<Rightarrow> int \<Rightarrow> bytes option"
  zstd_decompress :: "bytes \<Rightarrow> nat \<Rightarrow> string + bytes"
  lz4_compress_prepend_size :: "bytes \<Rightarrow> bytes"
  lz4_decompress_size_prepended :: "bytes \<Rightarrow> string + bytes"

datatype codec = ZstdCodec (bulk_level: int) (frame_level: int) | Lz4Codec

definition zstd_new :: codec where
  "zstd_new = ZstdCodec 3 1"

fun codec_id :: "codec \<Rightarrow> compression_id" where
  "codec_id (ZstdCodec _ _) = CZstd" | "codec_id Lz4Codec = CLz4"

fun codec_compress :: "compression_lib \<Rightarrow> codec \<Rightarrow> bytes \<Rightarrow> compression_hint \<Rightarrow> bytes option" where
  "codec_compress L (ZstdCodec bulk frame) input hint =
     (let level = (case hint of BulkPayload \<Rightarrow> bulk | FrameHint \<Rightarrow> frame) in
      case zstd_compress L input level of
        None \<Rightarrow> None
      | Some compressed \<Rightarrow> if length compressed < length input then Some compressed else None)"
| "codec_compress L Lz4Codec input hint =
     (let compressed = lz4_compress_prepend_size L input in
      if length compressed < length input then Some compressed else None)"

fun codec_decompress :: "compression_lib \<Rightarrow> codec \<Rightarrow> bytes \<Rightarrow> compression_error + bytes" where
  "codec_decompress L (ZstdCodec _ _) input =
     map_err DecompressFailed (zstd_decompress L input (64 * 1024 * 1024))"
| "codec_decompress L Lz4Codec input =
     map_err DecompressFailed (lz4_decompress_size_prepended L input)"

fun codec_threshold :: "codec \<Rightarrow> compression_hint \<Rightarrow> nat" where
  "codec_threshold _ BulkPayload = 4096" | "codec_threshold _ FrameHint = 256"

definition compress_if_worthwhile ::
    "compression_lib \<Rightarrow> codec option \<Rightarrow> bytes \<Rightarrow> compression_hint \<Rightarrow> bytes \<times> compression_id" where
  "compress_if_worthwhile L codec data hint =
     (case codec of
        None \<Rightarrow> (data, CNone)
      | Some codec \<Rightarrow>
          if length data < codec_threshold codec hint then (data, CNone)
          else case codec_compress L codec data hint of
            None \<Rightarrow> (data, CNone)
          | Some compressed \<Rightarrow> (compressed, codec_id codec))"

definition decompress_by_id ::
    "compression_lib \<Rightarrow> bytes \<Rightarrow> compression_id \<Rightarrow> compression_error + bytes" where
  "decompress_by_id L data cid =
     (case cid of
        CNone \<Rightarrow> Ok data
      | CZstd \<Rightarrow> if feature_zstd L then codec_decompress L zstd_new data
                 else Err (UnknownCodec (compression_byte cid))
      | CLz4 \<Rightarrow> if feature_lz4 L then codec_decompress L Lz4Codec data
                else Err (UnknownCodec (compression_byte cid)))"

definition resolve_codec :: "compression_lib \<Rightarrow> compression_id \<Rightarrow> codec option" where
  "resolve_codec L cid =
     (case cid of
        CNone \<Rightarrow> None
      | CZstd \<Rightarrow> if feature_zstd L then Some zstd_new else None
      | CLz4 \<Rightarrow> if feature_lz4 L then Some Lz4Codec else None)"

definition default_payload_codec :: "compression_lib \<Rightarrow> codec option" where
  "default_payload_codec L =
     (if feature_zstd L then Some zstd_new else if feature_lz4 L then Some Lz4Codec else None)"

definition default_frame_codec :: "compression_lib \<Rightarrow> codec option" where
  "default_frame_codec L =
     (if feature_lz4 L then Some Lz4Codec else if feature_zstd L then Some zstd_new else None)"

section \<open>Compressed frames\<close>

definition encode_frame_compressed ::
    "compression_lib \<Rightarrow> envelope \<Rightarrow> codec option \<Rightarrow> frame_encode_error + bytes" where
  "encode_frame_compressed L e codec =
     rbind (check_envelope_payload e) (\<lambda>_.
     rbind (map_err EncSerialize (encode_envelope e)) (\<lambda>serialized.
       if length serialized > MAX_FRAME_PAYLOAD_SIZE
       then Err (EncPayloadTooLarge (length serialized) MAX_FRAME_PAYLOAD_SIZE)
       else
         let (payload_bytes, comp_byte) =
           (case codec of
              None \<Rightarrow> (serialized, 0)
            | Some codec \<Rightarrow>
                if length serialized \<ge> codec_threshold codec FrameHint
                then (case codec_compress L codec serialized FrameHint of
                    None \<Rightarrow> (serialized, 0)
                  | Some compressed \<Rightarrow>
                      if length compressed < length serialized
                      then (compressed, compression_byte (codec_id codec)) else (serialized, 0))
                else (serialized, 0));
             total_len = 1 + length payload_bytes
         in if total_len \<ge> 2 ^ 32 then Err (EncPayloadTooLarge total_len MAX_COMPRESSED_FRAME_SIZE)
            else Ok (le_bytes32 (word_of_nat total_len) @ comp_byte # payload_bytes)))"

text \<open>The decompression step that both compressed decoders share.\<close>

definition frame_decompress ::
    "compression_lib \<Rightarrow> u8 \<Rightarrow> bytes \<Rightarrow> frame_decode_error + bytes" where
  "frame_decompress L comp_byte payload_bytes =
     (case compression_from_byte comp_byte of
        Some CNone \<Rightarrow> Ok payload_bytes
      | Some cid \<Rightarrow>
          rbind (map_err Decompress (decompress_by_id L payload_bytes cid)) (\<lambda>data.
            if length data > MAX_FRAME_PAYLOAD_SIZE
            then Err (PayloadTooLarge (length data) MAX_FRAME_PAYLOAD_SIZE) else Ok data)
      | None \<Rightarrow> Err (UnknownCompression comp_byte))"

text \<open>\<^term>\<open>None\<close> is the panic of a slice whose start lies behind its end.\<close>

definition decode_frame_compressed ::
    "compression_lib \<Rightarrow> bytes \<Rightarrow> (frame_decode_error + envelope) option" where
  "decode_frame_compressed L frame =
     (if length frame < FRAME_LEN_BYTES + 1 then Some (Err IncompleteFrame)
      else let total_len = le_u32 frame in
        if total_len > MAX_COMPRESSED_FRAME_SIZE
        then Some (Err (PayloadTooLarge total_len MAX_COMPRESSED_FRAME_SIZE))
        else let expected = FRAME_LEN_BYTES + total_len in
          if length frame < expected then Some (Err IncompleteFrame)
          else if length frame > expected then Some (Err FrameTrailingBytes)
          else do {
            comp_byte \<leftarrow> arr_get frame FRAME_LEN_BYTES;
            payload_bytes \<leftarrow> arr_slice frame (FRAME_LEN_BYTES + 1) expected;
            Some (rbind (frame_decompress L comp_byte payload_bytes) decode_envelope_payload)
          })"

definition try_decode_frame_compressed ::
    "compression_lib \<Rightarrow> bytes \<Rightarrow> ((frame_decode_error + envelope option) \<times> bytes) option" where
  "try_decode_frame_compressed L buffer =
     (if length buffer < FRAME_LEN_BYTES + 1 then Some (Ok None, buffer)
      else let total_len = le_u32 buffer in
        if total_len > MAX_COMPRESSED_FRAME_SIZE
        then Some (Err (PayloadTooLarge total_len MAX_COMPRESSED_FRAME_SIZE), buffer)
        else let expected = FRAME_LEN_BYTES + total_len in
          if length buffer < expected then Some (Ok None, buffer)
          else do {
            comp_byte \<leftarrow> arr_get buffer FRAME_LEN_BYTES;
            payload_bytes \<leftarrow> arr_slice buffer (FRAME_LEN_BYTES + 1) expected;
            Some (rbind (frame_decompress L comp_byte payload_bytes)
                (\<lambda>data. rbind (decode_envelope_payload data) (\<lambda>e. Ok (Some e))),
              drop expected buffer)
          })"

section \<open>Reading frames off a stream\<close>

datatype transport_error = StreamEof | StreamFrame frame_decode_error

text \<open>\<^verbatim>\<open>read_exact\<close> fails when the peer closes before the bytes have arrived.\<close>

definition read_exact :: "nat \<Rightarrow> bytes \<Rightarrow> transport_error + bytes \<times> bytes" where
  "read_exact n stream = (if length stream < n then Err StreamEof else Ok (take n stream, drop n stream))"

definition read_frame :: "bytes \<Rightarrow> transport_error + envelope \<times> bytes" where
  "read_frame stream =
     rbind (read_exact 4 stream) (\<lambda>(len_bytes, stream).
     rbind (read_exact (le_u32 len_bytes) stream) (\<lambda>(body, stream).
     rbind (map_err StreamFrame (decode_frame_exact (len_bytes @ body))) (\<lambda>e. Ok (e, stream))))"

definition read_frame_compressed ::
    "compression_lib \<Rightarrow> bytes \<Rightarrow> (transport_error + envelope \<times> bytes) option" where
  "read_frame_compressed L stream =
     (case read_exact 4 stream of
        Inl e \<Rightarrow> Some (Err e)
      | Inr (len_bytes, stream) \<Rightarrow>
          (case read_exact (le_u32 len_bytes) stream of
             Inl e \<Rightarrow> Some (Err e)
           | Inr (body, stream) \<Rightarrow> do {
               r \<leftarrow> decode_frame_compressed L (len_bytes @ body);
               Some (rbind (map_err StreamFrame r) (\<lambda>e. Ok (e, stream)))
             }))"

end
