(* ===== verification/Ipc_Frame_Correct.thy ===== *)
theory Ipc_Frame_Correct
  imports Ipc_Frame
begin

text \<open>
  Frames carry envelopes: what a peer encodes is what the other side decodes, with or without
  compression, however the bytes arrive, and the size and version checks are exact.
\<close>

section \<open>The envelope codec\<close>

lemma from_utf8_at_ascii: "\<forall>b\<in>set bs. b \<le> 0x7F \<Longrightarrow> from_utf8_at bs i = Utf8Ok"
proof (induction bs i rule: from_utf8_at.induct)
  case (1 bs i)
  show ?case
  proof (cases "length bs \<le> i")
    case False
    then have "drop i bs = bs ! i # drop (Suc i) bs" "bs ! i \<le> 0x7F"
      using 1(2) by (simp_all add: Cons_nth_drop_Suc)
    then have "utf8_head (drop i bs) = Scalar 1" by (simp add: utf8_head_def utf8_width_def Let_def)
    with 1 False show ?thesis by (simp add: from_utf8_at.simps [of bs i])
  qed (simp add: from_utf8_at.simps [of bs i])
qed

lemma good_name_ascii: "\<forall>b\<in>set bs. b \<le> 0x7F \<Longrightarrow> length bs < 256 \<Longrightarrow> good_name bs"
  by (simp add: good_name_def from_utf8_def from_utf8_at_ascii usize_max_def)

lemma wf_envelope_shape: "wf_shape envelope_shape"
  by (simp add: envelope_shape_def good_names_def kind_names_def lit8_def usize_max_def good_name_ascii)

lemma envelope_conforms:
  assumes "length (env_payload e) \<le> usize_max"
  shows "conforms Positional envelope_shape (envelope_sval e) (envelope_sval e)"
  using assms
  by (cases "env_kind e")
    (simp_all add: envelope_shape_def envelope_sval_def fields_conform_def elems_conform_def
      variant_head_def kind_names_def)

definition envelope_wire :: "envelope \<Rightarrow> bytes" where
  "envelope_wire e =
     encode_u16 (env_version e) @ encode_u64 (env_request_id e) @
     encode_u32 (word_of_nat (kind_index (env_kind e))) @ encode_usize (length (env_payload e)) @
     env_payload e"

lemma wire_envelope: "wire Positional (envelope_sval e) = envelope_wire e"
  by (simp add: envelope_sval_def envelope_wire_def fields_wire_def name_wire_def wire_defs)

lemma envelope_of_sval [simp]: "envelope_of (envelope_sval e) = Some e"
  by (cases "env_kind e") (simp_all add: envelope_of_def envelope_sval_def)

lemma encode_envelope_Ok: "encode_envelope e = Ok (envelope_wire e)"
proof -
  have "sized (envelope_sval e)" by (simp add: envelope_sval_def)
  then show ?thesis by (simp add: encode_envelope_def to_vec_wire wire_envelope)
qed

lemma decode_envelope_Ok:
  assumes "length (envelope_wire e) \<le> usize_max"
  shows "decode_envelope (envelope_wire e) = Ok e"
proof -
  have "length (env_payload e) \<le> usize_max" using assms by (simp add: envelope_wire_def)
  from from_bytes_wire [OF wf_envelope_shape envelope_conforms [OF this]] assms
  show ?thesis by (simp add: decode_envelope_def wire_envelope)
qed

section \<open>Plain frames\<close>

lemma le_u32_prefix: "4 \<le> length p \<Longrightarrow> le_u32 (p @ q) = le_u32 p"
  by (simp add: le_u32_def from_le_bytes_def)

lemma le_u32_le_bytes: "n < 2 ^ 32 \<Longrightarrow> le_u32 (le_bytes32 (word_of_nat n) @ q) = n"
  by (simp add: le_u32_prefix) (simp add: le_u32_def le_bytes_roundtrip unsigned_of_nat take_bit_nat_def)

lemma max_sizes [simp]:
  "MAX_FRAME_PAYLOAD_SIZE < 2 ^ 32" "MAX_COMPRESSED_FRAME_SIZE < 2 ^ 32"
  "MAX_FRAME_PAYLOAD_SIZE \<le> usize_max" "FRAME_LEN_BYTES = 4"
  "MAX_FRAME_PAYLOAD_SIZE < MAX_COMPRESSED_FRAME_SIZE"
  by (simp_all add: MAX_FRAME_PAYLOAD_SIZE_def MAX_COMPRESSED_FRAME_SIZE_def usize_max_def FRAME_LEN_BYTES_def)

lemma payload_le_wire: "length (env_payload e) \<le> length (envelope_wire e)"
  by (simp add: envelope_wire_def)

lemma encode_frame_Ok:
  "encode_frame e = Ok f \<longleftrightarrow>
   length (envelope_wire e) \<le> MAX_FRAME_PAYLOAD_SIZE \<and>
   f = le_bytes32 (word_of_nat (length (envelope_wire e))) @ envelope_wire e"
proof -
  have lt: "n < 2 ^ 32" if "n \<le> MAX_FRAME_PAYLOAD_SIZE" for n
    using le_less_trans [OF that max_sizes(1)] .
  show ?thesis
    using payload_le_wire [of e] lt [of "length (envelope_wire e)"]
    by (auto simp: encode_frame_def check_envelope_payload_def encode_envelope_Ok map_err_def)
qed

text \<open>What a receiver makes of an envelope: it refuses other protocol versions.\<close>

definition accepted :: "envelope \<Rightarrow> frame_decode_error + envelope" where
  "accepted e =
     (if env_version e = CURRENT_PROTOCOL_VERSION then Ok e
      else Err (UnsupportedVersion (env_version e) CURRENT_PROTOCOL_VERSION))"

lemma decode_payload_wire:
  "length (envelope_wire e) \<le> usize_max \<Longrightarrow> decode_envelope_payload (envelope_wire e) = accepted e"
  by (simp add: decode_envelope_payload_def decode_envelope_Ok map_err_def accepted_def)

lemma short_prefix: "p @ q = f \<Longrightarrow> q \<noteq> [] \<Longrightarrow> length p < length f"
  by (metis append_self_conv2 length_append length_greater_0_conv less_add_same_cancel1)

lemma frame_decodes:
  assumes "encode_frame e = Ok f"
  shows "decode_frame_exact f = accepted e"
    "try_decode_frame (f @ rest) = (rbind (accepted e) (\<lambda>e. Ok (Some e)), rest)"
    "q \<noteq> [] \<Longrightarrow> f = p @ q \<Longrightarrow> try_decode_frame p = (Ok None, p)"
    "q \<noteq> [] \<Longrightarrow> f = p @ q \<Longrightarrow> decode_frame_exact p = Err IncompleteFrame"
    "q \<noteq> [] \<Longrightarrow> decode_frame_exact (f @ q) = Err FrameTrailingBytes"
    "read_frame (f @ rest) = rbind (map_err StreamFrame (accepted e)) (\<lambda>e. Ok (e, rest))"
proof -
  let ?w = "envelope_wire e"
  have f: "f = le_bytes32 (word_of_nat (length ?w)) @ ?w" and w: "length ?w \<le> MAX_FRAME_PAYLOAD_SIZE"
    using assms by (simp_all add: encode_frame_Ok)
  have len: "le_u32 (f @ x) = length ?w" for x
    using le_u32_le_bytes [of "length ?w" "?w @ x"] le_less_trans [OF w max_sizes(1)] by (simp add: f)
  have dec: "decode_envelope_payload ?w = accepted e"
    by (rule decode_payload_wire) (rule order_trans [OF w max_sizes(3)])
  have pl: "frame_payload_len (f @ x) = Ok (Some (length ?w))" for x
    using w len [of x] by (simp add: frame_payload_len_def Let_def f)
  show 1: "decode_frame_exact f = accepted e"
    using pl [of "[]"] dec by (simp add: decode_frame_exact_def Let_def f)
  show "try_decode_frame (f @ rest) = (rbind (accepted e) (\<lambda>e. Ok (Some e)), rest)"
    using pl [of rest] dec by (simp add: try_decode_frame_def Let_def f)
  have prefix: "frame_payload_len p = (if length p < 4 then Ok None else Ok (Some (length ?w)))"
    if "f = p @ q" for p q
  proof (cases "length p < 4")
    case False
    then have "le_u32 p = length ?w" using len [of "[]"] le_u32_prefix [of p q] that by simp
    with False w show ?thesis by (simp add: frame_payload_len_def Let_def)
  qed (simp add: frame_payload_len_def)
  show "try_decode_frame p = (Ok None, p)" if "q \<noteq> []" "f = p @ q" for p q
    using prefix [OF that(2)] short_prefix [OF that(2) [symmetric] that(1)]
    by (simp add: try_decode_frame_def Let_def f)
  show "decode_frame_exact p = Err IncompleteFrame" if "q \<noteq> []" "f = p @ q" for p q
    using prefix [OF that(2)] short_prefix [OF that(2) [symmetric] that(1)]
    by (simp add: decode_frame_exact_def Let_def f)
  show "decode_frame_exact (f @ q) = Err FrameTrailingBytes" if "q \<noteq> []" for q
    using pl [of q] that by (simp add: decode_frame_exact_def Let_def f)
  show "read_frame (f @ rest) = rbind (map_err StreamFrame (accepted e)) (\<lambda>e. Ok (e, rest))"
    using 1 len [of "[]"] le_u32_prefix [of "le_bytes32 (word_of_nat (length ?w))" ?w]
    by (simp add: read_frame_def read_exact_def f)
qed

section \<open>Framing over a byte stream\<close>

text \<open>
  A receiver appends each chunk to its buffer and decodes frames until one is incomplete.  The fuel
  of a drain is the number of buffered bytes plus one: a frame is never empty.
\<close>

fun drain :: "(bytes \<Rightarrow> ('e + 'm option) \<times> bytes) \<Rightarrow> nat \<Rightarrow> bytes \<Rightarrow> 'm list \<times> bytes" where
  "drain t 0 b = ([], b)"
| "drain t (Suc n) b =
     (case t b of
        (Inr (Some m), b) \<Rightarrow> (let (ms, b) = drain t n b in (m # ms, b))
      | (_, b) \<Rightarrow> ([], b))"

fun receive :: "(bytes \<Rightarrow> ('e + 'm option) \<times> bytes) \<Rightarrow> bytes \<Rightarrow> bytes list \<Rightarrow> 'm list \<times> bytes" where
  "receive t b [] = ([], b)"
| "receive t b (c # cs) =
     (let (ms, b) = drain t (Suc (length (b @ c))) (b @ c); (ms', b) = receive t b cs
      in (ms @ ms', b))"

text \<open>The laws of a self-delimiting frame format, and what a receiver gets from them.\<close>

locale framing =
  fixes encodable :: "'m \<Rightarrow> bool"
    and frame :: "'m \<Rightarrow> bytes"
    and step :: "bytes \<Rightarrow> ('e + 'm option) \<times> bytes"
  assumes whole: "encodable m \<Longrightarrow> step (frame m @ rest) = (Inr (Some m), rest)"
    and partial: "encodable m \<Longrightarrow> frame m = p @ q \<Longrightarrow> q \<noteq> [] \<Longrightarrow> step p = (Inr None, p)"
    and empty: "step [] = (Inr None, [])"
    and nonempty: "encodable m \<Longrightarrow> frame m \<noteq> []"
begin

text \<open>The buffer holds a proper prefix of the next frame.\<close>

definition stuck :: "bytes \<Rightarrow> 'm list \<Rightarrow> bool" where
  "stuck p ms \<longleftrightarrow> (case ms of [] \<Rightarrow> p = [] | m # _ \<Rightarrow> \<exists>q. frame m = p @ q \<and> q \<noteq> [])"

lemma drain_frames:
  "list_all encodable ms \<Longrightarrow> list_all encodable ms' \<Longrightarrow> stuck p ms' \<Longrightarrow> length ms < n \<Longrightarrow>
   drain step n (concat (map frame ms) @ p) = (ms, p)"
proof (induction ms arbitrary: n)
  case Nil
  then obtain n' where "n = Suc n'" by (cases n) auto
  moreover have "step p = (Inr None, p)"
    using Nil by (cases ms') (auto simp: stuck_def empty intro: partial)
  ultimately show ?case by simp
next
  case (Cons m ms)
  then obtain n' where "n = Suc n'" by (cases n) auto
  with Cons show ?case by (simp add: whole)
qed

lemma split_stream:
  "x @ y = concat (map frame ms) \<Longrightarrow> list_all encodable ms \<Longrightarrow>
   \<exists>ms1 ms2 p. ms = ms1 @ ms2 \<and> x = concat (map frame ms1) @ p \<and> stuck p ms2"
proof (induction ms arbitrary: x)
  case Nil
  then show ?case by (auto simp: stuck_def)
next
  case (Cons m ms)
  then consider q where "frame m = x @ q" | z where "x = frame m @ z" "z @ y = concat (map frame ms)"
    by (auto simp: append_eq_append_conv2 dest: sym)
  then show ?case
  proof cases
    case 1
    show ?thesis
    proof (cases "q = []")
      case True
      have "stuck [] ms" using Cons.prems(2) by (cases ms) (auto simp: stuck_def nonempty)
      with True 1 show ?thesis by (intro exI [of _ "[m]"] exI [of _ ms] exI [of _ "[]"]) simp
    next
      case False
      with 1 show ?thesis
        by (intro exI [of _ "[]"] exI [of _ "m # ms"] exI [of _ x]) (auto simp: stuck_def)
    qed
  next
    case 2
    with Cons.IH [OF 2(2)] Cons.prems obtain ms1 ms2 p
      where "ms = ms1 @ ms2" "z = concat (map frame ms1) @ p" "stuck p ms2" by auto
    with 2 show ?thesis by (intro exI [of _ "m # ms1"] exI [of _ ms2] exI [of _ p]) simp
  qed
qed

lemma frames_length: "list_all encodable ms \<Longrightarrow> length ms \<le> length (concat (map frame ms))"
proof (induction ms)
  case (Cons m ms)
  then show ?case using nonempty [of m] by (cases "frame m") auto
qed simp

lemma receive_stream:
  "list_all encodable ms \<Longrightarrow> b @ concat cs = concat (map frame ms) \<Longrightarrow> stuck b ms \<Longrightarrow>
   receive step b cs = (ms, [])"
proof (induction cs arbitrary: b ms)
  case Nil
  then show ?case
    using nonempty by (cases ms) (auto simp: stuck_def)
next
  case (Cons c cs)
  then obtain ms1 ms2 p where s: "ms = ms1 @ ms2" "b @ c = concat (map frame ms1) @ p" "stuck p ms2"
    using split_stream [of "b @ c" "concat cs" ms] by auto
  have "drain step (Suc (length (b @ c))) (b @ c) = (ms1, p)"
    unfolding s(2) by (rule drain_frames [OF _ _ s(3)])
      (use Cons.prems(1) s(1) frames_length [of ms1] in auto)
  moreover have "p @ concat cs = concat (map frame ms2)"
    using Cons.prems(2) s by (simp flip: append_assoc) simp
  ultimately show ?case using Cons.IH [of ms2 p] Cons.prems(1) s by simp
qed

end

interpretation fr: framing
  "\<lambda>e. length (envelope_wire e) \<le> MAX_FRAME_PAYLOAD_SIZE \<and> env_version e = CURRENT_PROTOCOL_VERSION"
  "\<lambda>e. projr (encode_frame e)" try_decode_frame
proof unfold_locales
  fix e rest p q
  assume e: "length (envelope_wire e) \<le> MAX_FRAME_PAYLOAD_SIZE \<and> env_version e = CURRENT_PROTOCOL_VERSION"
  then obtain f where f: "encode_frame e = Ok f" by (simp add: encode_frame_Ok)
  show "try_decode_frame (projr (encode_frame e) @ rest) = (Inr (Some e), rest)"
    using frame_decodes(2) [OF f] e by (simp add: f accepted_def)
  have "f \<noteq> []" using f by (auto simp: encode_frame_Ok le_bytes32_def)
  then show "projr (encode_frame e) \<noteq> []" by (simp add: f)
  show "try_decode_frame p = (Inr None, p)" if "projr (encode_frame e) = p @ q" "q \<noteq> []"
    using frame_decodes(3) [OF f, of q p] that by (simp add: f)
qed (simp add: try_decode_frame_def frame_payload_len_def)

section \<open>Compressed frames\<close>

text \<open>
  The documented behaviour of the two compression libraries: decompressing a compressed buffer
  gives the buffer back, within the capacity that the caller grants (zstd) and below the 4 GiB that
  a prepended size can express (lz4).
\<close>

definition lossless :: "compression_lib \<Rightarrow> bool" where
  "lossless L \<longleftrightarrow>
     (\<forall>x level y cap. zstd_compress L x level = Some y \<longrightarrow> length x \<le> cap \<longrightarrow>
        zstd_decompress L y cap = Ok x) \<and>
     (\<forall>x. length x < 2 ^ 32 \<longrightarrow> lz4_decompress_size_prepended L (lz4_compress_prepend_size L x) = Ok x)"

text \<open>A build can read the frames of a codec when its feature is compiled in.\<close>

fun supported :: "compression_lib \<Rightarrow> codec option \<Rightarrow> bool" where
  "supported L None = True"
| "supported L (Some (ZstdCodec _ _)) = feature_zstd L"
| "supported L (Some Lz4Codec) = feature_lz4 L"

lemma decompress_compress:
  assumes "lossless L" "supported L (Some c)" "length x \<le> MAX_FRAME_PAYLOAD_SIZE"
    "codec_compress L c x h = Some y"
  shows "frame_decompress L (compression_byte (codec_id c)) y = Ok x"
proof -
  have cap: "length x \<le> 64 * 1024 * 1024" "length x < 2 ^ 32"
    using assms(3) by (simp_all add: MAX_FRAME_PAYLOAD_SIZE_def)
  have "decompress_by_id L y (codec_id c) = Ok x"
    using assms cap
    by (cases c) (auto simp: decompress_by_id_def lossless_def map_err_def zstd_new_def Let_def
        split: option.splits if_splits)
  then show ?thesis
    using assms(3) by (cases c) (simp_all add: frame_decompress_def compression_from_byte_def map_err_def)
qed

lemma frame_decompress_0: "frame_decompress L 0 y = Ok y"
  by (simp add: frame_decompress_def compression_from_byte_def)

lemma encode_compressed_Ok:
  assumes "encode_frame_compressed L e codec = Ok f" "lossless L" "supported L codec"
  obtains b y where "f = le_bytes32 (word_of_nat (Suc (length y))) @ b # y"
    "frame_decompress L b y = Ok (envelope_wire e)" "length y \<le> MAX_FRAME_PAYLOAD_SIZE"
    "length (envelope_wire e) \<le> MAX_FRAME_PAYLOAD_SIZE"
proof -
  let ?w = "envelope_wire e"
  have w: "length ?w \<le> MAX_FRAME_PAYLOAD_SIZE"
    using assms(1)
    by (auto simp: encode_frame_compressed_def rbind_Ok_iff encode_envelope_Ok map_err_def split: if_splits)
  define r where "r = (case codec of
      None \<Rightarrow> (?w, 0)
    | Some codec \<Rightarrow>
        if length ?w \<ge> codec_threshold codec FrameHint
        then (case codec_compress L codec ?w FrameHint of
            None \<Rightarrow> (?w, 0)
          | Some compressed \<Rightarrow>
              if length compressed < length ?w
              then (compressed, compression_byte (codec_id codec)) else (?w, 0))
        else (?w, 0))"
  have r: "frame_decompress L (snd r) (fst r) = Ok ?w" "length (fst r) \<le> length ?w"
    using assms(2,3) decompress_compress [OF assms(2) _ w]
    by (auto simp: r_def frame_decompress_0 split: option.split)
  have "f = le_bytes32 (word_of_nat (Suc (length (fst r)))) @ snd r # fst r"
    using assms(1)
    by (auto simp: encode_frame_compressed_def rbind_Ok_iff encode_envelope_Ok map_err_def
        case_prod_beta Let_def simp flip: r_def split: if_splits)
  with r w show ?thesis by (intro that [of "fst r" "snd r"]) auto
qed

lemma compressed_frame_decodes:
  assumes "f = le_bytes32 (word_of_nat (Suc (length y))) @ b # y" "length y < MAX_COMPRESSED_FRAME_SIZE"
    "frame_decompress L b y = Ok (envelope_wire e)" "length (envelope_wire e) \<le> usize_max"
  shows "decode_frame_compressed L f = Some (accepted e)"
    "try_decode_frame_compressed L (f @ rest) = Some (rbind (accepted e) (\<lambda>e. Ok (Some e)), rest)"
    "read_frame_compressed L (f @ rest) =
       Some (rbind (map_err StreamFrame (accepted e)) (\<lambda>e. Ok (e, rest)))"
proof -
  have lt: "Suc (length y) < 2 ^ 32" using assms(2) max_sizes(2) by linarith
  have len: "le_u32 (f @ x) = Suc (length y)" for x
    using le_u32_le_bytes [OF lt, of "b # y @ x"] by (simp add: assms(1))
  have dec: "decode_envelope_payload (envelope_wire e) = accepted e"
    by (rule decode_payload_wire) (rule assms(4))
  have at: "f ! 4 = b" "(f @ x) ! 4 = b" for x by (simp_all add: assms(1) nth_append)
  have sl: "arr_slice (f @ x) 5 (Suc (4 + length y)) = Some y" for x by (simp add: assms(1))
  show 1: "decode_frame_compressed L f = Some (accepted e)"
    using len [of "[]"] assms(2,3) dec at sl [of "[]"]
    by (simp add: decode_frame_compressed_def Let_def) (simp add: assms(1))
  show "try_decode_frame_compressed L (f @ rest) = Some (rbind (accepted e) (\<lambda>e. Ok (Some e)), rest)"
    using len [of rest] assms(2,3) dec at sl [of rest]
    by (simp add: try_decode_frame_compressed_def Let_def) (simp add: assms(1))
  show "read_frame_compressed L (f @ rest) =
       Some (rbind (map_err StreamFrame (accepted e)) (\<lambda>e. Ok (e, rest)))"
  proof -
    define h where "h = le_bytes32 (word_of_nat (Suc (length y)))"
    have h: "length h = 4" "le_u32 h = Suc (length y)" and f: "f = h @ b # y"
      using le_u32_le_bytes [OF lt, of "[]"] by (simp_all add: h_def assms(1))
    show ?thesis using 1 h by (simp add: read_frame_compressed_def read_exact_def f)
  qed
qed

section \<open>Properties\<close>

text \<open>
  C16.  Framing.  An envelope can be framed exactly when its encoding is at most 8 MiB.  The frame
  decodes to the envelope, or to \<^verbatim>\<open>UnsupportedVersion\<close> when its version is not the current
  one, through each of the three readers; the incremental reader leaves the bytes after the frame
  untouched, every proper prefix of the frame is reported as incomplete without consuming anything,
  and bytes after the frame are refused by the exact decoder.
\<close>

theorem frame_roundtrip:
  "((\<exists>f. encode_frame e = Ok f) \<longleftrightarrow> length (envelope_wire e) \<le> MAX_FRAME_PAYLOAD_SIZE) \<and>
   (\<forall>f. encode_frame e = Ok f \<longrightarrow>
      decode_frame_exact f = accepted e \<and>
      (\<forall>rest. try_decode_frame (f @ rest) = (rbind (accepted e) (\<lambda>e. Ok (Some e)), rest) \<and>
         read_frame (f @ rest) = rbind (map_err StreamFrame (accepted e)) (\<lambda>e. Ok (e, rest))) \<and>
      (\<forall>p q. f = p @ q \<and> q \<noteq> [] \<longrightarrow>
         try_decode_frame p = (Ok None, p) \<and> decode_frame_exact p = Err IncompleteFrame) \<and>
      (\<forall>q. q \<noteq> [] \<longrightarrow> decode_frame_exact (f @ q) = Err FrameTrailingBytes))"
proof (intro conjI allI impI; (elim conjE)?)
  show "(\<exists>f. encode_frame e = Ok f) \<longleftrightarrow> length (envelope_wire e) \<le> MAX_FRAME_PAYLOAD_SIZE"
    by (auto simp: encode_frame_Ok)
qed (use frame_decodes in simp_all)

theorem frame_roundtrip_witness:
  "decode_frame_exact (projr (encode_frame (envelope_new 7 Event [1, 2, 3]))) =
     Ok (envelope_new 7 Event [1, 2, 3])"
proof -
  let ?e = "envelope_new 7 Event [1, 2, 3]"
  have "length (envelope_wire ?e) \<le> MAX_FRAME_PAYLOAD_SIZE"
    by (simp add: envelope_wire_def envelope_new_def CURRENT_PROTOCOL_VERSION_def encode_u16_def
        encode_u32_def encode_usize_def encode_u64.simps MAX_FRAME_PAYLOAD_SIZE_def)
  then obtain f where f: "encode_frame ?e = Ok f"
    using frame_roundtrip [of ?e] by blast
  then have "decode_frame_exact f = accepted ?e" using frame_roundtrip [of ?e] by blast
  moreover have "env_version ?e = CURRENT_PROTOCOL_VERSION" by (simp add: envelope_new_def)
  ultimately show ?thesis by (simp add: f accepted_def)
qed

text \<open>
  C17.  Streams.  Whatever the sizes of the chunks in which a stream of frames arrives, a receiver
  that appends each chunk to its buffer and decodes as long as frames are complete gets exactly the
  envelopes that were sent, in order, and ends with an empty buffer.
\<close>

theorem frames_survive_chunking:
  assumes "list_all (\<lambda>e. length (envelope_wire e) \<le> MAX_FRAME_PAYLOAD_SIZE \<and>
      env_version e = CURRENT_PROTOCOL_VERSION) es"
    "concat chunks = concat (map (\<lambda>e. projr (encode_frame e)) es)"
  shows "receive try_decode_frame [] chunks = (es, [])"
proof (rule fr.receive_stream [OF assms(1)])
  show "fr.stuck [] es"
    using assms(1) fr.nonempty by (cases es) (auto simp: fr.stuck_def)
qed (use assms(2) in simp)

theorem frames_survive_chunking_witness:
  "receive try_decode_frame []
     (map (\<lambda>b. [b]) (projr (encode_frame (envelope_new 7 Event [1])) @
                    projr (encode_frame (envelope_new 8 Request [])))) =
   ([envelope_new 7 Event [1], envelope_new 8 Request []], [])"
  by (rule frames_survive_chunking)
    (simp_all add: concat_map_singleton envelope_wire_def envelope_new_def CURRENT_PROTOCOL_VERSION_def
      encode_u16_def encode_u32_def encode_usize_def encode_u64.simps MAX_FRAME_PAYLOAD_SIZE_def)

text \<open>
  C18.  Compressed frames.  With compression libraries that decompress what they compressed, a frame
  written with any codec of the build, or with none, is decoded to the envelope by every compressed
  reader.
\<close>

theorem compressed_frame_roundtrip:
  assumes "lossless L" "supported L codec" "encode_frame_compressed L e codec = Ok f"
  shows "decode_frame_compressed L f = Some (accepted e) \<and>
    try_decode_frame_compressed L (f @ rest) = Some (rbind (accepted e) (\<lambda>e. Ok (Some e)), rest) \<and>
    read_frame_compressed L (f @ rest) =
      Some (rbind (map_err StreamFrame (accepted e)) (\<lambda>e. Ok (e, rest)))"
proof -
  obtain b y where y: "f = le_bytes32 (word_of_nat (Suc (length y))) @ b # y"
    "frame_decompress L b y = Ok (envelope_wire e)" "length y \<le> MAX_FRAME_PAYLOAD_SIZE"
    "length (envelope_wire e) \<le> MAX_FRAME_PAYLOAD_SIZE"
    using encode_compressed_Ok [OF assms(3,1,2)] by metis
  have "length y < MAX_COMPRESSED_FRAME_SIZE" "length (envelope_wire e) \<le> usize_max"
    using le_less_trans [OF y(3) max_sizes(5)] order_trans [OF y(4) max_sizes(3)] by simp_all
  then show ?thesis by (intro conjI compressed_frame_decodes [OF y(1) _ y(2)])
qed

text \<open>A concrete library for the witness: both codecs replace the trailing zeros by their number.\<close>

definition trim_zeros :: "bytes \<Rightarrow> bytes" where
  "trim_zeros x = encode_usize (length (takeWhile ((=) 0) (rev x))) @ rev (dropWhile ((=) 0) (rev x))"

definition untrim_zeros :: "bytes \<Rightarrow> string + bytes" where
  "untrim_zeros y =
     (case decode_usize y of
        None \<Rightarrow> Err ''truncated''
      | Some (n, k) \<Rightarrow> Ok (drop k y @ replicate n 0))"

definition demo_lib :: compression_lib where
  "demo_lib =
     \<lparr>feature_zstd = True, feature_lz4 = True,
      zstd_compress = (\<lambda>x level. if length x < 2 ^ 32 then Some (trim_zeros x) else None),
      zstd_decompress = (\<lambda>y cap. untrim_zeros y),
      lz4_compress_prepend_size = trim_zeros,
      lz4_decompress_size_prepended = untrim_zeros\<rparr>"

lemma untrim_trim:
  assumes "length x < 2 ^ 32"
  shows "untrim_zeros (trim_zeros x) = Ok x"
proof -
  let ?n = "length (takeWhile ((=) 0) (rev x))"
  have "?n \<le> length x" using length_takeWhile_le [of "(=) 0" "rev x"] by simp
  then have "?n < 2 ^ 64" using assms by simp
  moreover have "rev (dropWhile ((=) 0) (rev x)) @ replicate ?n 0 = x"
  proof -
    have "replicate ?n 0 = takeWhile ((=) 0) (rev x)"
      by (rule replicate_length_same) (auto dest: set_takeWhileD)
    then have "replicate ?n 0 = rev (takeWhile ((=) 0) (rev x))" by (metis rev_replicate)
    then show ?thesis by (metis rev_append rev_rev_ident takeWhile_dropWhile_id)
  qed
  ultimately show ?thesis
    by (simp add: untrim_zeros_def trim_zeros_def decode_encode_usize)
qed

lemma demo_lossless: "lossless demo_lib"
  by (auto simp: lossless_def demo_lib_def untrim_trim)

lemma encode_compressed_total:
  assumes "length (envelope_wire e) \<le> MAX_FRAME_PAYLOAD_SIZE"
  shows "\<exists>f. encode_frame_compressed L e codec = Ok f"
proof -
  have "length (env_payload e) \<le> MAX_FRAME_PAYLOAD_SIZE" using payload_le_wire assms by (rule order_trans)
  moreover have "length (envelope_wire e) < 4294967295"
    using assms by (simp add: MAX_FRAME_PAYLOAD_SIZE_def)
  moreover have False if "4294967295 \<le> n" "n < length (envelope_wire e)" for n
    using that assms by (simp add: MAX_FRAME_PAYLOAD_SIZE_def)
  ultimately show ?thesis
    using assms
    by (auto simp: encode_frame_compressed_def check_envelope_payload_def encode_envelope_Ok map_err_def
        Let_def split: option.split)
qed

theorem compressed_frame_roundtrip_witness:
  "decode_frame_compressed demo_lib
     (projr (encode_frame_compressed demo_lib (envelope_new 7 Event (replicate 300 0)) (Some Lz4Codec))) =
   Some (Ok (envelope_new 7 Event (replicate 300 0)))"
proof -
  let ?e = "envelope_new 7 Event (replicate 300 0)"
  have "length (envelope_wire ?e) \<le> MAX_FRAME_PAYLOAD_SIZE"
    by (simp add: envelope_wire_def envelope_new_def CURRENT_PROTOCOL_VERSION_def encode_u16_def
        encode_u32_def encode_usize_def encode_u64.simps MAX_FRAME_PAYLOAD_SIZE_def)
  then obtain f where f: "encode_frame_compressed demo_lib ?e (Some Lz4Codec) = Ok f"
    using encode_compressed_total by blast
  have "env_version ?e = CURRENT_PROTOCOL_VERSION" by (simp add: envelope_new_def)
  moreover have "supported demo_lib (Some Lz4Codec)" by (simp add: demo_lib_def)
  ultimately show ?thesis
    using compressed_frame_roundtrip [OF demo_lossless _ f] by (simp add: f accepted_def)
qed

text \<open>
  C19.  Malformed compressed frames.  The exact decoder never panics.  The incremental decoder
  panics exactly on a buffer of at least five bytes whose length field is zero: it then slices
  from the fifth byte to the fourth.
\<close>

theorem compressed_decoders_panic:
  "decode_frame_compressed L bs \<noteq> None \<and>
   (try_decode_frame_compressed L bs = None \<longleftrightarrow> 5 \<le> length bs \<and> le_u32 bs = 0)"
  by (auto simp: decode_frame_compressed_def try_decode_frame_compressed_def Let_def arr_get_def
      arr_slice_def bind_eq_None_conv split: if_splits)

text \<open>
  C20.  The size check of compressed frames has a gap: with compression id 0 an encoding longer than
  \<^verbatim>\<open>MAX_FRAME_PAYLOAD_SIZE\<close>, which no encoder produces, is accepted.
\<close>

theorem uncompressed_id_skips_size_check:
  "\<exists>e f. length (envelope_wire e) > MAX_FRAME_PAYLOAD_SIZE \<and> decode_frame_compressed L f = Some (Ok e)"
proof -
  define N :: nat where "N = 9 * 1048576"
  define e where "e = envelope_new 0 Request (replicate N 0)"
  let ?f = "le_bytes32 (word_of_nat (Suc (length (envelope_wire e)))) @ 0 # envelope_wire e"
  have "length (encode_usize N) = 4"
    by (simp add: N_def encode_usize_def encode_u64.simps)
  moreover have "length (envelope_wire e) = N + length (encode_usize N) + 3"
    by (simp add: e_def envelope_wire_def envelope_new_def CURRENT_PROTOCOL_VERSION_def
        encode_u16_def encode_u32_def encode_u64.simps [of 0] encode_u64.simps [of 4])
  ultimately have len: "length (envelope_wire e) = 9437191" by (simp add: N_def)
  have "decode_frame_compressed L ?f = Some (accepted e)"
    by (rule compressed_frame_decodes(1) [OF refl])
      (simp_all add: len MAX_COMPRESSED_FRAME_SIZE_def frame_decompress_0 usize_max_def)
  moreover have "accepted e = Ok e" by (simp add: accepted_def e_def envelope_new_def)
  moreover have "length (envelope_wire e) > MAX_FRAME_PAYLOAD_SIZE"
    by (simp add: len MAX_FRAME_PAYLOAD_SIZE_def)
  ultimately show ?thesis by auto
qed

end
