(* ===== verification/Ipc_Protocol.thy ===== *)
theory Ipc_Protocol
  imports Bmux_Prelude "HOL-Library.List_Lexorder"
begin

text \<open>
  Protocol negotiation, \<^verbatim>\<open>negotiate_protocol\<close> of \<^verbatim>\<open>packages/ipc/src/lib.rs\<close>.  A
  capability is its string as UTF-8 bytes, which Rust compares lexicographically; a
  \<^verbatim>\<open>BTreeSet\<close> is the strictly sorted list of its elements.
\<close>

type_synonym capability = bytes

record revision_range =
  rev_min :: u32
  rev_max :: u32

record protocol_contract =
  pc_wire_epoch :: u16
  pc_revisions :: revision_range
  pc_capabilities :: "capability list"

record negotiated_protocol =
  np_wire_epoch :: u16
  np_revision :: u32
  np_capabilities :: "capability list"

datatype incompatibility =
    WireEpochMismatch u16 u16
  | NoCommonRevision u32 u32 u32 u32
  | MissingCoreCapabilities "capability list"

definition btree_set :: "'a::linorder list \<Rightarrow> 'a list" where
  "btree_set xs = sort (remdups xs)"

definition btree_intersection :: "'a::linorder list \<Rightarrow> 'a list \<Rightarrow> 'a list" where
  "btree_intersection xs ys = filter (\<lambda>x. x \<in> set ys) xs"

definition negotiate_protocol ::
    "protocol_contract \<Rightarrow> protocol_contract \<Rightarrow> capability list \<Rightarrow> incompatibility + negotiated_protocol" where
  "negotiate_protocol client server core_required =
     (if pc_wire_epoch client \<noteq> pc_wire_epoch server
      then Err (WireEpochMismatch (pc_wire_epoch client) (pc_wire_epoch server))
      else let overlap_min = max (rev_min (pc_revisions client)) (rev_min (pc_revisions server));
               overlap_max = min (rev_max (pc_revisions client)) (rev_max (pc_revisions server))
        in if overlap_min > overlap_max
           then Err (NoCommonRevision (rev_min (pc_revisions client)) (rev_max (pc_revisions client))
             (rev_min (pc_revisions server)) (rev_max (pc_revisions server)))
           else let server_caps = btree_set (pc_capabilities server);
                    client_caps = btree_set (pc_capabilities client);
                    negotiated_caps = btree_intersection server_caps client_caps;
                    negotiated_set = btree_set negotiated_caps;
                    missing = filter (\<lambda>required. required \<notin> set negotiated_set) core_required
             in if missing \<noteq> [] then Err (MissingCoreCapabilities missing)
                else Ok \<lparr>np_wire_epoch = pc_wire_epoch server, np_revision = overlap_max,
                  np_capabilities = negotiated_caps\<rparr>)"

section \<open>What negotiation agrees on\<close>

definition in_range :: "u32 \<Rightarrow> revision_range \<Rightarrow> bool" where
  "in_range r rg \<longleftrightarrow> rev_min rg \<le> r \<and> r \<le> rev_max rg"

lemma btree_set_simps [simp]: "set (btree_set xs) = set xs" "sorted (btree_set xs)" "distinct (btree_set xs)"
  by (simp_all add: btree_set_def)

lemma intersection_unique:
  "btree_intersection (btree_set xs) (btree_set ys) = sorted_list_of_set (set xs \<inter> set ys)"
proof (rule sorted_distinct_set_unique)
  show "sorted (btree_intersection (btree_set xs) (btree_set ys))"
    by (simp add: btree_intersection_def sorted_filter [where f = id, simplified])
  show "distinct (btree_intersection (btree_set xs) (btree_set ys))"
    by (simp add: btree_intersection_def)
  show "set (btree_intersection (btree_set xs) (btree_set ys)) = set (sorted_list_of_set (set xs \<inter> set ys))"
    by (auto simp: btree_intersection_def)
qed simp_all

lemma negotiate_eq:
  "negotiate_protocol c s req =
    (let lo = max (rev_min (pc_revisions c)) (rev_min (pc_revisions s));
         hi = min (rev_max (pc_revisions c)) (rev_max (pc_revisions s));
         common = set (pc_capabilities s) \<inter> set (pc_capabilities c);
         missing = filter (\<lambda>r. r \<notin> common) req
     in if pc_wire_epoch c \<noteq> pc_wire_epoch s then Err (WireEpochMismatch (pc_wire_epoch c) (pc_wire_epoch s))
       else if \<not> lo \<le> hi then Err (NoCommonRevision (rev_min (pc_revisions c)) (rev_max (pc_revisions c))
             (rev_min (pc_revisions s)) (rev_max (pc_revisions s)))
       else if missing \<noteq> [] then Err (MissingCoreCapabilities missing)
       else Ok \<lparr>np_wire_epoch = pc_wire_epoch s, np_revision = hi, np_capabilities = sorted_list_of_set common\<rparr>)"
  unfolding negotiate_protocol_def Let_def intersection_unique
  by (simp only: btree_set_simps(1) set_sorted_list_of_set finite_set finite_Int simp_thms not_le)

text \<open>
  C21.  Negotiation.  Two contracts agree exactly when the epochs are equal, some revision lies in
  both ranges, and each required capability is offered by both sides.  The agreement has the
  highest common revision and exactly the common capabilities, each once and in ascending order, and
  does not depend on which peer is the client.  Otherwise the reported reason is the first of the
  three that applies, and the missing capabilities are listed in the order in which they are
  required.
\<close>

theorem negotiation_exact:
  "case negotiate_protocol c s req of
     Inr r \<Rightarrow>
       pc_wire_epoch c = pc_wire_epoch s \<and> np_wire_epoch r = pc_wire_epoch c \<and>
       in_range (np_revision r) (pc_revisions c) \<and> in_range (np_revision r) (pc_revisions s) \<and>
       (\<forall>x. in_range x (pc_revisions c) \<and> in_range x (pc_revisions s) \<longrightarrow> x \<le> np_revision r) \<and>
       np_capabilities r = sorted_list_of_set (set (pc_capabilities c) \<inter> set (pc_capabilities s)) \<and>
       set req \<subseteq> set (pc_capabilities c) \<inter> set (pc_capabilities s) \<and>
       negotiate_protocol s c req = Inr r
   | Inl (WireEpochMismatch a b) \<Rightarrow>
       a = pc_wire_epoch c \<and> b = pc_wire_epoch s \<and> a \<noteq> b
   | Inl (NoCommonRevision a b x y) \<Rightarrow>
       pc_wire_epoch c = pc_wire_epoch s \<and>
       (\<nexists>r. in_range r (pc_revisions c) \<and> in_range r (pc_revisions s))
   | Inl (MissingCoreCapabilities missing) \<Rightarrow>
       pc_wire_epoch c = pc_wire_epoch s \<and> missing \<noteq> [] \<and>
       (\<exists>r. in_range r (pc_revisions c) \<and> in_range r (pc_revisions s)) \<and>
       missing = filter (\<lambda>r. r \<notin> set (pc_capabilities c) \<inter> set (pc_capabilities s)) req"
proof -
  let ?lo = "max (rev_min (pc_revisions c)) (rev_min (pc_revisions s))"
  let ?hi = "min (rev_max (pc_revisions c)) (rev_max (pc_revisions s))"
  let ?I = "set (pc_capabilities s) \<inter> set (pc_capabilities c)"
  let ?missing = "filter (\<lambda>r. r \<notin> ?I) req"
  have both: "in_range r (pc_revisions c) \<and> in_range r (pc_revisions s) \<longleftrightarrow> ?lo \<le> r \<and> r \<le> ?hi" for r
    by (auto simp: in_range_def)
  have ex: "(\<exists>r. in_range r (pc_revisions c) \<and> in_range r (pc_revisions s)) \<longleftrightarrow> ?lo \<le> ?hi"
    unfolding both by (meson order.refl order_trans)
  consider "pc_wire_epoch c \<noteq> pc_wire_epoch s"
    | "pc_wire_epoch c = pc_wire_epoch s" "\<not> ?lo \<le> ?hi"
    | "pc_wire_epoch c = pc_wire_epoch s" "?lo \<le> ?hi" "?missing \<noteq> []"
    | "pc_wire_epoch c = pc_wire_epoch s" "?lo \<le> ?hi" "?missing = []"
    by blast
  then show ?thesis
  proof cases
    case 1
    then show ?thesis by (simp add: negotiate_eq Let_def)
  next
    case 2
    then have "\<nexists>r. in_range r (pc_revisions c) \<and> in_range r (pc_revisions s)"
      by (simp only: ex not_False_eq_True)
    with 2 show ?thesis by (simp add: negotiate_eq Let_def)
  next
    case 3
    then show ?thesis using ex by (simp add: negotiate_eq Let_def Int_commute)
  next
    case 4
    then have swap: "negotiate_protocol s c req = negotiate_protocol c s req"
      by (simp add: negotiate_eq Let_def max.commute min.commute Int_commute)
    show ?thesis
      unfolding swap using 4 both by (auto simp: negotiate_eq Let_def in_range_def Int_commute filter_empty_conv)
  qed
qed

definition demo_contract :: "u32 \<Rightarrow> u32 \<Rightarrow> capability list \<Rightarrow> protocol_contract" where
  "demo_contract lo hi caps =
     \<lparr>pc_wire_epoch = 4, pc_revisions = \<lparr>rev_min = lo, rev_max = hi\<rparr>, pc_capabilities = caps\<rparr>"

theorem negotiation_exact_witness:
  "\<exists>r. negotiate_protocol (demo_contract 1 3 [[2], [1]]) (demo_contract 2 5 [[1], [2], [3]]) [[1]] = Ok r \<and>
     np_revision r = 3 \<and> np_capabilities r = [[1], [2]]"
proof -
  let ?c = "demo_contract 1 3 [[2], [1]]" and ?s = "demo_contract 2 5 [[1], [2], [3]]"
  obtain r where r: "negotiate_protocol ?c ?s [[1]] = Ok r"
    by (simp add: negotiate_eq demo_contract_def Let_def)
  have "np_revision r = 3" using r by (auto simp: negotiate_eq demo_contract_def Let_def)
  moreover have "np_capabilities r =
      sorted_list_of_set (set (pc_capabilities ?c) \<inter> set (pc_capabilities ?s))"
    using negotiation_exact [of ?c ?s "[[1]]"] unfolding r by simp
  moreover have "set (pc_capabilities ?c) \<inter> set (pc_capabilities ?s) = set [[1], [2]]"
    by (auto simp: demo_contract_def)
  moreover have "sorted_list_of_set (set [[1], [2]]) = ([[1], [2]] :: capability list)"
    by (rule sorted_list_of_set.idem_if_sorted_distinct) simp_all
  ultimately show ?thesis using r by auto
qed

end
