(* ===== verification/Output_Fanout.thy ===== *)
theory Output_Fanout
  imports Bmux_BTree
begin

text \<open>
  The pane output fan-out buffer of \<^verbatim>\<open>plugins/pane-runtime-plugin/src/runtime.rs\<close>: the
  escape-sequence phase tracker \<^verbatim>\<open>EscSeqPhase\<close> and every operation of
  \<^verbatim>\<open>OutputFanoutBuffer\<close>.  Stream offsets are natural numbers; the additions that the code
  saturates saturate at \<^verbatim>\<open>u64::MAX\<close>, which is also the sentinel of an open span.  The shared
  counter of retained bytes is the bytes of this buffer plus those of the other buffers; a push
  takes, for each iteration of its eviction loop, the share of the other buffers when the counter is
  loaded and when it is exchanged.  That the counter is this sum whatever the interleaving is proved
  in the theory of the accounting.
\<close>

section \<open>The phase tracker\<close>

datatype esc_seq_phase = Ground | Escape | Csi | Osc | OscEsc | Dcs | DcsEsc | Sos | SosEsc

definition phase_advance :: "esc_seq_phase \<Rightarrow> u8 \<Rightarrow> esc_seq_phase" where
  "phase_advance phase byte =
     (if byte = 0x18 \<or> byte = 0x1A then Ground
      else case phase of
        Ground \<Rightarrow> if byte = 0x1B then Escape else Ground
      | Escape \<Rightarrow>
          if byte = 0x5B then Csi
          else if byte = 0x5D then Osc
          else if byte = 0x50 then Dcs
          else if byte = 0x58 \<or> byte = 0x5E \<or> byte = 0x5F then Sos
          else if byte = 0x1B \<or> 0x20 \<le> byte \<and> byte \<le> 0x2F then Escape
          else Ground
      | Csi \<Rightarrow>
          if 0x40 \<le> byte \<and> byte \<le> 0x7E then Ground
          else if byte = 0x1B then Escape
          else Csi
      | Osc \<Rightarrow> if byte = 0x07 then Ground else if byte = 0x1B then OscEsc else Osc
      | OscEsc \<Rightarrow> if byte = 0x5C then Ground else if byte = 0x1B then Escape else Osc
      | Dcs \<Rightarrow> if byte = 0x1B then DcsEsc else Dcs
      | DcsEsc \<Rightarrow> if byte = 0x5C then Ground else if byte = 0x1B then Escape else Dcs
      | Sos \<Rightarrow> if byte = 0x1B then SosEsc else Sos
      | SosEsc \<Rightarrow> if byte = 0x5C then Ground else if byte = 0x1B then Escape else Sos)"

section \<open>The buffer\<close>

definition U64_MAX :: nat where
  "U64_MAX = 2 ^ 64 - 1"

definition MAX_NODE_OUTPUT_BUFFER_BYTES :: nat where
  "MAX_NODE_OUTPUT_BUFFER_BYTES = 256 * 1048576"

record fanout =
  fo_max_bytes :: nat
  fo_start_offset :: nat
  fo_data :: bytes
  fo_cursors :: "(client_id, nat) btree"
  fo_esc_phase :: esc_seq_phase
  fo_esc_spans :: "(nat \<times> nat) list"

record output_read =
  or_bytes :: bytes
  or_stream_start :: nat
  or_stream_end :: nat
  or_stream_gap :: bool

definition with_accounting :: "nat \<Rightarrow> fanout" where
  "with_accounting max_bytes =
     \<lparr>fo_max_bytes = max max_bytes 1, fo_start_offset = 0, fo_data = [], fo_cursors = [],
      fo_esc_phase = Ground, fo_esc_spans = []\<rparr>"

definition end_offset :: "fanout \<Rightarrow> nat" where
  "end_offset b = fo_start_offset b + length (fo_data b)"

definition register_client_at_tail :: "client_id \<Rightarrow> fanout \<Rightarrow> fanout" where
  "register_client_at_tail c b = b\<lparr>fo_cursors := bt_insert c (end_offset b) (fo_cursors b)\<rparr>"

definition unregister_client :: "client_id \<Rightarrow> fanout \<Rightarrow> fanout" where
  "unregister_client c b = b\<lparr>fo_cursors := bt_remove c (fo_cursors b)\<rparr>"

definition acknowledge_snapshot :: "client_id \<Rightarrow> nat \<Rightarrow> fanout \<Rightarrow> fanout" where
  "acknowledge_snapshot c offset b =
     (case bt_get (fo_cursors b) c of
        None \<Rightarrow> b
      | Some current \<Rightarrow>
          b\<lparr>fo_cursors := bt_insert c (min (max current offset) (end_offset b)) (fo_cursors b)\<rparr>)"

definition advance_client_to_end :: "client_id \<Rightarrow> fanout \<Rightarrow> fanout" where
  "advance_client_to_end c b =
     (if bt_contains (fo_cursors b) c
      then b\<lparr>fo_cursors := bt_insert c (end_offset b) (fo_cursors b)\<rparr> else b)"

subsection \<open>Pushing output\<close>

definition close_last_span :: "nat \<Rightarrow> (nat \<times> nat) list \<Rightarrow> (nat \<times> nat) list" where
  "close_last_span resume spans =
     (if spans \<noteq> [] \<and> snd (last spans) = U64_MAX
      then butlast spans @ [(fst (last spans), resume)] else spans)"

text \<open>The byte loop of a push; \<open>pos\<close> is the offset of the next byte.\<close>

fun track_bytes :: "nat \<Rightarrow> bytes \<Rightarrow> esc_seq_phase \<times> (nat \<times> nat) list \<Rightarrow> esc_seq_phase \<times> (nat \<times> nat) list"
where
  "track_bytes pos [] st = st"
| "track_bytes pos (byte # rest) (prev, spans) =
     (let phase = phase_advance prev byte;
          spans =
            (if prev = Ground \<and> phase \<noteq> Ground then spans @ [(pos + 1, U64_MAX)]
             else if prev \<noteq> Ground \<and> phase = Ground then close_last_span (pos + 1) spans
             else spans)
      in track_bytes (pos + 1) rest (phase, spans))"

definition drop_front :: "nat \<Rightarrow> fanout \<Rightarrow> fanout" where
  "drop_front n b =
     b\<lparr>fo_data := drop n (fo_data b), fo_start_offset := min (fo_start_offset b + n) U64_MAX\<rparr>"

text \<open>How many bytes an iteration of the eviction loop wants to remove.\<close>

definition eviction :: "nat \<Rightarrow> nat \<Rightarrow> fanout \<Rightarrow> nat" where
  "eviction node_max retained b =
     (let local_excess = length (fo_data b) - fo_max_bytes b;
          node_excess = retained - node_max
      in min (max local_excess node_excess) (length (fo_data b)))"

lemma eviction_le: "eviction n r b \<le> length (fo_data b)"
  by (simp add: eviction_def Let_def)

text \<open>
  The eviction loop.  \<open>env i\<close> is the share of the other buffers in the shared counter when iteration
  \<open>i\<close> loads it and when it exchanges it; the exchange succeeds when the two agree.  The result
  carries the number of the iteration that left the loop.
\<close>

function evict_loop ::
    "nat \<Rightarrow> (nat \<Rightarrow> nat \<times> nat) \<Rightarrow> nat \<Rightarrow> nat \<Rightarrow> fanout \<Rightarrow> nat \<times> fanout" where
  "evict_loop node_max env i retries b =
     (let retained = fst (env i) + length (fo_data b);
          remove = eviction node_max retained b
      in if remove = 0 then (i, b)
         else if snd (env i) + length (fo_data b) \<noteq> retained
         then let retries = retries + 1 in
           if retries < 8 then evict_loop node_max env (Suc i) retries b
           else evict_loop node_max env (Suc i) 0 (drop_front 1 b)
         else evict_loop node_max env (Suc i) 0 (drop_front remove b))"
  by pat_completeness auto
termination
  by (relation "(\<lambda>(_, _, _, _, b). length (fo_data b)) <*mlex*> measure (\<lambda>(_, _, _, r, _). 8 - r)")
    (auto simp: mlex_prod_def drop_front_def eviction_def Let_def split: if_splits)

declare evict_loop.simps [simp del]

definition prune_spans :: "nat \<Rightarrow> (nat \<times> nat) list \<Rightarrow> (nat \<times> nat) list" where
  "prune_spans start spans = dropWhile (\<lambda>(_, resume). resume \<noteq> U64_MAX \<and> resume \<le> start) spans"

definition push_chunk_with_node_cap ::
    "nat \<Rightarrow> (nat \<Rightarrow> nat \<times> nat) \<Rightarrow> bytes \<Rightarrow> fanout \<Rightarrow> fanout" where
  "push_chunk_with_node_cap node_max env chunk b =
     (let base = end_offset b;
          b = b\<lparr>fo_data := fo_data b @ chunk\<rparr>;
          (phase, spans) = track_bytes base chunk (fo_esc_phase b, fo_esc_spans b);
          b = b\<lparr>fo_esc_phase := phase, fo_esc_spans := spans\<rparr>;
          (_, b) = evict_loop node_max env 0 0 b
      in b\<lparr>fo_esc_spans := prune_spans (fo_start_offset b) (fo_esc_spans b)\<rparr>)"

definition push_chunk :: "(nat \<Rightarrow> nat \<times> nat) \<Rightarrow> bytes \<Rightarrow> fanout \<Rightarrow> fanout" where
  "push_chunk env chunk b = push_chunk_with_node_cap MAX_NODE_OUTPUT_BUFFER_BYTES env chunk b"

subsection \<open>Reading output\<close>

text \<open>
  \<^verbatim>\<open>binary_search_by\<close> on a list sorted by its first components: the index of the target, or the
  index at which it would be inserted.
\<close>

definition search_spans :: "(nat \<times> nat) list \<Rightarrow> nat \<Rightarrow> nat + nat" where
  "search_spans spans target =
     (let i = length (takeWhile (\<lambda>(start, _). start < target) spans) in
      if i < length spans \<and> fst (spans ! i) = target then Inr i else Inl i)"

definition first_safe_offset_at_or_after :: "fanout \<Rightarrow> nat \<Rightarrow> nat" where
  "first_safe_offset_at_or_after b target =
     (let idx = (case search_spans (fo_esc_spans b) target of Inr i \<Rightarrow> i | Inl ip \<Rightarrow> ip - 1);
          window = take (min (length (fo_esc_spans b)) (idx + 2) - idx) (drop idx (fo_esc_spans b))
      in case find (\<lambda>(start, resume). start \<le> target \<and> target < resume) window of
           None \<Rightarrow> target
         | Some (_, resume) \<Rightarrow> if resume = U64_MAX then end_offset b else resume)"

definition read_for_client :: "client_id \<Rightarrow> nat \<Rightarrow> fanout \<Rightarrow> output_read \<times> fanout" where
  "read_for_client c max_bytes b =
     (let limit = max max_bytes 1;
          e = end_offset b;
          safe_resume = first_safe_offset_at_or_after b (fo_start_offset b);
          cursor = (case bt_get (fo_cursors b) c of None \<Rightarrow> e | Some k \<Rightarrow> k);
          stream_gap = (cursor < fo_start_offset b);
          cursor = (if stream_gap then safe_resume else cursor);
          stream_start = cursor;
          available = e - cursor
      in if available = 0
         then (\<lparr>or_bytes = [], or_stream_start = stream_start, or_stream_end = stream_start,
                or_stream_gap = stream_gap\<rparr>,
               b\<lparr>fo_cursors := bt_insert c cursor (fo_cursors b)\<rparr>)
         else let to_read = min available limit;
                  bs = take to_read (drop (cursor - fo_start_offset b) (fo_data b));
                  cursor = min (cursor + length bs) U64_MAX
           in (\<lparr>or_bytes = bs, or_stream_start = stream_start, or_stream_end = cursor,
                or_stream_gap = stream_gap\<rparr>,
               b\<lparr>fo_cursors := bt_insert c cursor (fo_cursors b)\<rparr>))"

definition clamp :: "nat \<Rightarrow> nat \<Rightarrow> nat \<Rightarrow> nat" where
  "clamp x lo hi = (if x < lo then lo else if x > hi then hi else x)"

definition read_at :: "nat \<Rightarrow> nat \<Rightarrow> fanout \<Rightarrow> output_read" where
  "read_at cursor limit b =
     (let e = end_offset b;
          stream_gap = (cursor < fo_start_offset b \<or> cursor > e);
          stream_start = clamp cursor (fo_start_offset b) e
      in if limit = 0 \<or> stream_start = e
         then \<lparr>or_bytes = [], or_stream_start = stream_start, or_stream_end = stream_start,
               or_stream_gap = stream_gap\<rparr>
         else let to_read = min (e - stream_start) limit;
                  bs = take to_read (drop (stream_start - fo_start_offset b) (fo_data b))
           in \<lparr>or_bytes = bs, or_stream_start = stream_start,
               or_stream_end = min (stream_start + length bs) U64_MAX, or_stream_gap = stream_gap\<rparr>)"

definition read_recent_with_offsets :: "nat \<Rightarrow> fanout \<Rightarrow> output_read" where
  "read_recent_with_offsets max_bytes b =
     (let e = end_offset b;
          nothing = \<lparr>or_bytes = [], or_stream_start = e, or_stream_end = e, or_stream_gap = False\<rparr>
      in if fo_data b = [] \<or> max_bytes = 0 then nothing
         else let to_read = min (length (fo_data b)) max_bytes;
                  safe_start = first_safe_offset_at_or_after b (e - to_read)
           in if safe_start \<ge> e then nothing
              else \<lparr>or_bytes = drop (safe_start - fo_start_offset b) (fo_data b),
                    or_stream_start = safe_start, or_stream_end = e, or_stream_gap = False\<rparr>)"

end
