(* ===== verification/Output_Stream.thy ===== *)
theory Output_Stream
  imports Output_Fanout
begin

text \<open>
  The fan-out buffer against the stream of all output ever pushed: what the escape-sequence spans
  say of the stream, the invariant that relates a buffer to its stream, and what every operation
  does to it.
\<close>

section \<open>Phases and spans of a stream\<close>

definition phase_of :: "bytes \<Rightarrow> esc_seq_phase" where
  "phase_of s = foldl phase_advance Ground s"

definition spans_of :: "bytes \<Rightarrow> (nat \<times> nat) list" where
  "spans_of s = snd (track_bytes 0 s (Ground, []))"

text \<open>A fresh parser may start at offset \<open>k\<close> of the stream.\<close>

definition safe_at :: "bytes \<Rightarrow> nat \<Rightarrow> bool" where
  "safe_at s k = (phase_of (take k s) = Ground)"

lemma phase_of_nil [simp]: "phase_of [] = Ground"
  by (simp add: phase_of_def)

lemma phase_of_snoc [simp]: "phase_of (s @ [x]) = phase_advance (phase_of s) x"
  by (simp add: phase_of_def)

lemma track_bytes_append:
  "track_bytes p (xs @ ys) st = track_bytes (p + length xs) ys (track_bytes p xs st)"
proof (induction xs arbitrary: p st)
  case (Cons x xs)
  then show ?case by (cases st) (simp add: Let_def)
qed simp

lemma track_bytes_phase: "fst (track_bytes p xs (ph, spans)) = foldl phase_advance ph xs"
  by (induction xs arbitrary: p ph spans) (simp_all add: Let_def)

lemma close_last_span_prefix:
  "\<forall>x\<in>set pre. snd x \<noteq> U64_MAX \<Longrightarrow> close_last_span r (pre @ spans) = pre @ close_last_span r spans"
  by (auto simp: close_last_span_def butlast_append last_append)

lemma track_bytes_prefix:
  assumes "\<forall>x\<in>set pre. snd x \<noteq> U64_MAX"
  shows "snd (track_bytes p xs (ph, pre @ spans)) = pre @ snd (track_bytes p xs (ph, spans))"
proof (induction xs arbitrary: p ph spans)
  case (Cons x xs)
  then show ?case by (simp add: Let_def close_last_span_prefix [OF assms])
qed simp

lemma track_bytes_stream:
  "track_bytes (length s) xs (phase_of s, spans_of s) = (phase_of (s @ xs), spans_of (s @ xs))"
proof -
  have pair: "\<And>u. (phase_of u, spans_of u) = track_bytes 0 u (Ground, [])"
    by (simp add: prod_eq_iff phase_of_def spans_of_def track_bytes_phase)
  show ?thesis by (simp only: pair track_bytes_append add_0)
qed

lemma spans_of_nil [simp]: "spans_of [] = []"
  by (simp add: spans_of_def)

lemma spans_of_snoc:
  "spans_of (s @ [x]) =
     (if phase_of s = Ground \<and> phase_advance (phase_of s) x \<noteq> Ground
      then spans_of s @ [(length s + 1, U64_MAX)]
      else if phase_of s \<noteq> Ground \<and> phase_advance (phase_of s) x = Ground
      then close_last_span (length s + 1) (spans_of s) else spans_of s)"
  using track_bytes_stream [of s "[x]"] by (auto simp: Let_def)

text \<open>
  What a list of spans says of a stream: the spans are ordered and apart, and an offset lies in one
  exactly when it is inside an escape sequence.
\<close>

definition spans_ok :: "bytes \<Rightarrow> (nat \<times> nat) list \<Rightarrow> bool" where
  "spans_ok s spans \<longleftrightarrow>
     sorted_wrt (\<lambda>x y. snd x < fst y) spans \<and>
     (\<forall>x\<in>set spans. fst x < snd x \<and> fst x \<le> length s \<and> (snd x = U64_MAX \<or> snd x \<le> length s)) \<and>
     (\<forall>k\<le>length s. \<not> safe_at s k \<longleftrightarrow> (\<exists>x\<in>set spans. fst x \<le> k \<and> k < snd x))"

lemma safe_at_snoc:
  "safe_at (s @ [x]) k = (if k \<le> length s then safe_at s k else phase_advance (phase_of s) x = Ground)"
  by (simp add: safe_at_def)

lemma safe_at_end: "length s \<le> k \<Longrightarrow> safe_at s k = (phase_of s = Ground)"
  by (simp add: safe_at_def)

lemma spans_ok_open:
  assumes "spans_ok s spans" and "length s < U64_MAX" and "phase_of s = Ground"
    and x: "x \<in> set spans"
  shows "snd x \<le> length s"
proof (rule ccontr)
  assume "\<not> snd x \<le> length s"
  with assms have "\<not> safe_at s (length s)" unfolding spans_ok_def by (meson leI order_refl)
  with assms show False by (simp add: safe_at_end)
qed

lemma spans_ok_last:
  assumes ok: "spans_ok s spans" and len: "length s < U64_MAX" and ph: "phase_of s \<noteq> Ground"
  obtains pre a where "spans = pre @ [(a, U64_MAX)]" and "\<forall>x\<in>set pre. snd x < a" and "a \<le> length s"
proof -
  from ok ph obtain x where x: "x \<in> set spans" "fst x \<le> length s" "length s < snd x"
    unfolding spans_ok_def by (metis order_refl safe_at_end)
  with ok have open_x: "snd x = U64_MAX" by (auto simp: spans_ok_def)
  from x(1) obtain pre post where sp: "spans = pre @ x # post" by (auto simp: in_set_conv_decomp)
  have "post = []"
  proof (rule ccontr)
    assume "post \<noteq> []"
    then obtain y ys where "post = y # ys" by (cases post) auto
    with ok sp have "snd x < fst y" "fst y \<le> length s" by (auto simp: spans_ok_def sorted_wrt_append)
    with open_x len show False by simp
  qed
  moreover have "\<forall>y\<in>set pre. snd y < fst x"
    using ok sp by (auto simp: spans_ok_def sorted_wrt_append)
  ultimately show thesis using that [of pre "fst x"] sp open_x x(2) by (cases x) simp
qed

lemma spans_ok_of: "length s < U64_MAX \<Longrightarrow> spans_ok s (spans_of s)"
proof (induction s rule: rev_induct)
  case Nil
  then show ?case by (simp add: spans_ok_def safe_at_def)
next
  case (snoc x s)
  then have ok: "spans_ok s (spans_of s)" and len: "length s < U64_MAX" and len': "Suc (length s) < U64_MAX"
    by auto
  let ?q = "phase_advance (phase_of s) x"
  show ?case
  proof (cases "phase_of s = Ground")
    case True
    note le = spans_ok_open [OF ok len True]
    have *: "\<And>y. y \<in> set (spans_of s) \<Longrightarrow> fst y < snd y \<and> snd y \<le> length s"
      using ok le by (auto simp: spans_ok_def)
    show ?thesis
      using ok len' * True
      by (auto simp: spans_ok_def spans_of_snoc safe_at_snoc sorted_wrt_append le_Suc_eq
          intro: less_imp_le less_le_trans dest: leD dest!: *)
  next
    case False
    obtain pre a where sp: "spans_of s = pre @ [(a, U64_MAX)]" "\<forall>x\<in>set pre. snd x < a" "a \<le> length s"
      using spans_ok_last [OF ok len False] .
    have *: "\<And>y. y \<in> set pre \<Longrightarrow> fst y < snd y \<and> snd y < a"
      using ok sp by (auto simp: spans_ok_def)
    show ?thesis
      using ok len' * False sp
      by (auto simp: spans_ok_def spans_of_snoc safe_at_snoc sorted_wrt_append le_Suc_eq close_last_span_def
          intro: less_imp_le less_le_trans dest: leD)
  qed
qed

section \<open>The eviction loop\<close>

lemma drop_front_0 [simp]: "fo_start_offset b \<le> U64_MAX \<Longrightarrow> drop_front 0 b = b"
  by (simp add: drop_front_def)

lemma drop_front_drop_front: "drop_front m (drop_front n b) = drop_front (n + m) b"
  by (simp add: drop_front_def add.commute add.left_commute)

lemma drop_front_simps [simp]:
  "fo_data (drop_front n b) = drop n (fo_data b)"
  "fo_start_offset (drop_front n b) = min (fo_start_offset b + n) U64_MAX"
  "fo_max_bytes (drop_front n b) = fo_max_bytes b"
  "fo_cursors (drop_front n b) = fo_cursors b"
  "fo_esc_phase (drop_front n b) = fo_esc_phase b"
  "fo_esc_spans (drop_front n b) = fo_esc_spans b"
  by (simp_all add: drop_front_def)

text \<open>
  The loop removes a prefix of the data, leaves when nothing more has to go, and makes at most eight
  iterations for each byte it removes.
\<close>

lemma evict_loop_result:
  assumes "evict_loop node_max env i r b = (j, b')" and "fo_start_offset b \<le> U64_MAX" and "r < 8"
  shows "\<exists>n\<le>length (fo_data b). b' = drop_front n b \<and> j + r \<le> i + 8 * n + 7 \<and>
           eviction node_max (fst (env j) + length (fo_data b')) b' = 0"
  using assms
proof (induction node_max env i r b rule: evict_loop.induct)
  case (1 node_max env i r b)
  define rm where "rm = eviction node_max (fst (env i) + length (fo_data b)) b"
  note unfold = "1.prems"(1) [unfolded evict_loop.simps [of node_max env i r b] Let_def, folded rm_def]
  have rm_le: "rm \<le> length (fo_data b)" by (simp add: rm_def eviction_le)
  have step: ?case
    if IH: "\<exists>n\<le>length (fo_data (drop_front m b)). b' = drop_front n (drop_front m b) \<and>
              j + 0 \<le> Suc i + 8 * n + 7 \<and> eviction node_max (fst (env j) + length (fo_data b')) b' = 0"
      and m: "0 < m" "m \<le> length (fo_data b)" for m
  proof -
    from IH obtain n where n: "n \<le> length (fo_data b) - m" "b' = drop_front (m + n) b"
      "j \<le> Suc i + 8 * n + 7" "eviction node_max (fst (env j) + length (fo_data b')) b' = 0"
      by (auto simp: drop_front_drop_front)
    with m "1.prems"(3) show ?thesis by (intro exI [of _ "m + n"]) auto
  qed
  consider "rm = 0" | "rm \<noteq> 0" "snd (env i) = fst (env i)"
    | "rm \<noteq> 0" "snd (env i) \<noteq> fst (env i)" "r + 1 < 8" | "rm \<noteq> 0" "snd (env i) \<noteq> fst (env i)" "\<not> r + 1 < 8"
    by blast
  then show ?case
  proof cases
    case 1
    with unfold "1.prems" show ?thesis by (intro exI [of _ 0]) (auto simp: rm_def)
  next
    case 2
    with unfold have "evict_loop node_max env (Suc i) 0 (drop_front rm b) = (j, b')" by simp
    then show ?thesis
      using "1.IH"(3) [OF refl refl] 2 rm_le by (intro step [of rm]) (auto simp: rm_def)
  next
    case 3
    with unfold have "evict_loop node_max env (Suc i) (r + 1) b = (j, b')" by simp
    from "1.IH"(1) [OF refl refl _ _ refl _ this] 3 "1.prems" show ?thesis by (auto simp: rm_def)
  next
    case 4
    with unfold have "evict_loop node_max env (Suc i) 0 (drop_front 1 b) = (j, b')" by simp
    then show ?thesis
      using "1.IH"(2) [OF refl refl _ _ refl] 4 rm_le by (intro step [of 1]) (auto simp: rm_def)
  qed
qed

lemma eviction_0_iff:
  "eviction node_max retained b = 0 \<longleftrightarrow>
     fo_data b = [] \<or> length (fo_data b) \<le> fo_max_bytes b \<and> retained \<le> node_max"
  by (cases "fo_data b = []") (auto simp: eviction_def Let_def min_def max_def)

section \<open>Safe offsets\<close>

lemma spans_ok_apart:
  assumes "spans_ok s spans" and "x \<in> set spans" and "y \<in> set spans" and "x \<noteq> y"
  shows "snd x < fst y \<or> snd y < fst x"
proof -
  from assms(2,3) obtain i j where ij: "i < length spans" "j < length spans" "x = spans ! i" "y = spans ! j"
    by (auto simp: in_set_conv_nth)
  with assms(4) have "i < j \<or> j < i" by (metis linorder_neqE_nat)
  with assms(1) ij show ?thesis by (auto simp: spans_ok_def sorted_wrt_iff_nth_less)
qed

text \<open>The two spans that the search looks at are enough.\<close>

lemma sorted_wrt_spans_fst:
  fixes spans :: "(nat \<times> nat) list"
  assumes "sorted_wrt (\<lambda>x y. snd x < fst y) spans" and "\<forall>x\<in>set spans. fst x < snd x"
    and "i < j" and "j < length spans"
  shows "fst (spans ! i) < snd (spans ! i) \<and> snd (spans ! i) < fst (spans ! j)"
  using assms by (auto simp: sorted_wrt_iff_nth_less)

lemma window_holds:
  fixes spans :: "(nat \<times> nat) list"
  assumes sorted: "sorted_wrt (\<lambda>x y. snd x < fst y) spans" and pos: "\<forall>x\<in>set spans. fst x < snd x"
    and j: "j < length spans" "fst (spans ! j) \<le> t" "t < snd (spans ! j)"
    and i: "i = length (takeWhile (\<lambda>(start, _). start < t) spans)"
    and idx: "idx = (if i < length spans \<and> fst (spans ! i) = t then i else i - 1)"
  shows "j = idx"
proof -
  note less = sorted_wrt_spans_fst [OF sorted pos]
  have before: "fst (spans ! k) < t" if "k < i" for k
  proof -
    have "takeWhile (\<lambda>(start, _). start < t) spans ! k \<in> set (takeWhile (\<lambda>(start, _). start < t) spans)"
      using that i by simp
    then show ?thesis using that i takeWhile_nth [of k "\<lambda>(start, _). start < t" spans]
      by (auto dest: set_takeWhileD)
  qed
  have at_i: "t \<le> fst (spans ! i)" if "i < length spans"
    using that i nth_length_takeWhile [of "\<lambda>(start, _). start < t" spans] by (auto simp: case_prod_unfold)
  have i_le: "i \<le> length spans" using i length_takeWhile_le by metis
  have "\<not> i < j" using at_i less [of i j] j by fastforce
  moreover have "j = i \<Longrightarrow> fst (spans ! i) = t" using at_i j by auto
  moreover have "\<not> Suc j < i"
  proof
    assume "Suc j < i"
    then show False using before [of "Suc j"] less [of j "Suc j"] i_le j by linarith
  qed
  moreover have "j < i \<Longrightarrow> i < length spans \<Longrightarrow> fst (spans ! i) \<noteq> t"
    using less [of j i] j by linarith
  ultimately show ?thesis using j(1) idx by (cases "j < i") auto
qed

lemma find_unique:
  assumes "j < length xs" and "P (xs ! j)" and "\<And>k. k < length xs \<Longrightarrow> P (xs ! k) \<Longrightarrow> k = j"
  shows "find P xs = Some (xs ! j)"
  unfolding find_Some_iff using assms by (metis less_imp_neq less_trans)

lemma find_take_drop:
  assumes "j < length xs" and "P (xs ! j)" and "0 < n"
  shows "find P (take n (drop j xs)) = Some (xs ! j)"
  using assms by (cases n) (simp_all add: Cons_nth_drop_Suc [symmetric])

lemma window_find:
  assumes sorted: "sorted_wrt (\<lambda>x y. snd x < fst y) spans" and pos: "\<forall>x\<in>set spans. fst x < snd x"
    and idx: "idx = (case search_spans spans t of Inr i \<Rightarrow> i | Inl ip \<Rightarrow> ip - 1)"
  shows "find (\<lambda>(start, resume). start \<le> t \<and> t < resume)
           (take (min (length spans) (idx + 2) - idx) (drop idx spans))
         = find (\<lambda>(start, resume). start \<le> t \<and> t < resume) spans"
    (is "find ?P ?w = _")
proof (cases "\<exists>x\<in>set spans. ?P x")
  case False
  then have "\<not> (\<exists>x\<in>set ?w. ?P x)" by (meson in_set_dropD in_set_takeD)
  with False have "find ?P ?w = None" "find ?P spans = None" unfolding find_None_iff by blast+
  then show ?thesis by simp
next
  case True
  then obtain j where j: "j < length spans" "?P (spans ! j)" by (metis in_set_conv_nth)
  define i where "i = length (takeWhile (\<lambda>(start, _). start < t) spans)"
  have idx': "idx = (if i < length spans \<and> fst (spans ! i) = t then i else i - 1)"
    unfolding idx search_spans_def Let_def i_def [symmetric] by simp
  have uniq: "k = idx" if "k < length spans" "?P (spans ! k)" for k
    using window_holds [OF sorted pos that(1) _ _ i_def idx'] that(2) unfolding case_prod_unfold by blast
  note at = j [unfolded uniq [OF j]]
  have "find ?P spans = Some (spans ! idx)" by (rule find_unique [of idx spans ?P, OF at uniq])
  moreover have "find ?P ?w = Some (spans ! idx)"
    by (rule find_take_drop [of idx spans ?P, OF at]) (use at(1) in simp)
  ultimately show ?thesis by simp
qed

section \<open>The buffer and its stream\<close>

text \<open>
  The stream is every byte ever pushed.  The buffer holds a suffix of it within its budget, its phase and its spans are
  those of the stream, and no cursor is past its end.
\<close>

definition streams :: "fanout \<Rightarrow> bytes \<Rightarrow> bool" where
  "streams b s \<longleftrightarrow>
     length s < U64_MAX \<and> 1 \<le> fo_max_bytes b \<and> fo_start_offset b \<le> length s \<and>
     length (fo_data b) \<le> fo_max_bytes b \<and> fo_data b = drop (fo_start_offset b) s \<and> fo_esc_phase b = phase_of s \<and>
     fo_esc_spans b = prune_spans (fo_start_offset b) (spans_of s) \<and>
     bt_wf (fo_cursors b) \<and> (\<forall>c k. bt_get (fo_cursors b) c = Some k \<longrightarrow> k \<le> length s)"

lemma streams_end: "streams b s \<Longrightarrow> end_offset b = length s"
  by (simp add: streams_def end_offset_def)

lemma streams_init: "streams (with_accounting n) []"
  by (simp add: streams_def with_accounting_def prune_spans_def U64_MAX_def)

lemma prune_spans_suffix:
  obtains pre where "spans = pre @ prune_spans start spans"
    and "\<forall>x\<in>set pre. snd x \<noteq> U64_MAX \<and> snd x \<le> start"
proof -
  let ?P = "\<lambda>(_ :: nat, resume). resume \<noteq> U64_MAX \<and> resume \<le> start"
  have "spans = takeWhile ?P spans @ prune_spans start spans" by (simp add: prune_spans_def)
  moreover have "\<forall>x\<in>set (takeWhile ?P spans). snd x \<noteq> U64_MAX \<and> snd x \<le> start"
    by (auto dest!: set_takeWhileD)
  ultimately show thesis by (rule that)
qed

lemma prune_spans_absorb:
  "\<forall>x\<in>set pre. snd x \<noteq> U64_MAX \<and> snd x \<le> start \<Longrightarrow> prune_spans start (pre @ spans) = prune_spans start spans"
  unfolding prune_spans_def by (rule dropWhile_append2) (auto simp: case_prod_unfold)

lemma push_chunk_drop:
  assumes st: "streams b s" and len: "length (s @ chunk) < U64_MAX"
    and loop: "evict_loop node_max env 0 0
      (b\<lparr>fo_data := fo_data b @ chunk, fo_esc_phase := phase_of (s @ chunk),
         fo_esc_spans := snd (track_bytes (length s) chunk (fo_esc_phase b, fo_esc_spans b))\<rparr>) = (j, b')"
  shows "push_chunk_with_node_cap node_max env chunk b
    = b'\<lparr>fo_esc_spans := prune_spans (fo_start_offset b') (fo_esc_spans b')\<rparr>"
proof -
  have "fst (track_bytes (length s) chunk (fo_esc_phase b, fo_esc_spans b)) = phase_of (s @ chunk)"
    using st by (simp add: streams_def track_bytes_phase phase_of_def)
  with loop show ?thesis
    by (simp add: push_chunk_with_node_cap_def Let_def streams_end [OF st] case_prod_unfold)
qed

text \<open>A push under any interference: the stream grows by the chunk, and the budgets hold.\<close>

lemma push_chunk_streams:
  assumes st: "streams b s" and len: "length (s @ chunk) < U64_MAX"
    and b'_def: "b' = push_chunk_with_node_cap node_max env chunk b"
  shows "streams b' (s @ chunk)"
    and "fo_cursors b' = fo_cursors b"
    and "fo_max_bytes b' = fo_max_bytes b"
    and "fo_start_offset b \<le> fo_start_offset b'"
    and "\<exists>j. j \<le> 8 * (fo_start_offset b' - fo_start_offset b) + 7 \<and>
           (fo_data b' = [] \<or> length (fo_data b') \<le> fo_max_bytes b' \<and> fst (env j) + length (fo_data b') \<le> node_max)"
proof -
  define mid where "mid = b\<lparr>fo_data := fo_data b @ chunk, fo_esc_phase := phase_of (s @ chunk),
         fo_esc_spans := snd (track_bytes (length s) chunk (fo_esc_phase b, fo_esc_spans b))\<rparr>"
  obtain j e where loop: "evict_loop node_max env 0 0 mid = (j, e)" by fastforce
  have start: "fo_start_offset b \<le> length s" and start_mid: "fo_start_offset mid \<le> U64_MAX"
    using st len by (auto simp: streams_def mid_def)
  obtain n where n: "n \<le> length (fo_data mid)" "e = drop_front n mid" "j \<le> 8 * n + 7"
      "eviction node_max (fst (env j) + length (fo_data e)) e = 0"
    using evict_loop_result [OF loop start_mid] by auto
  have b': "b' = e\<lparr>fo_esc_spans := prune_spans (fo_start_offset e) (fo_esc_spans e)\<rparr>"
    unfolding b'_def by (rule push_chunk_drop [OF st len loop [unfolded mid_def]])
  have n_le: "fo_start_offset b + n \<le> length (s @ chunk)"
    using n(1) st by (auto simp: mid_def streams_def)
  have start': "fo_start_offset b' = fo_start_offset b + n"
    using n_le len by (simp add: b' n(2) mid_def)
  obtain pre where pre: "spans_of s = pre @ fo_esc_spans b"
      "\<forall>x\<in>set pre. snd x \<noteq> U64_MAX \<and> snd x \<le> fo_start_offset b"
  proof -
    have "fo_esc_spans b = prune_spans (fo_start_offset b) (spans_of s)" using st by (simp add: streams_def)
    with prune_spans_suffix [of "spans_of s" "fo_start_offset b"] that show thesis by metis
  qed
  have "spans_of (s @ chunk) = pre @ snd (track_bytes (length s) chunk (fo_esc_phase b, fo_esc_spans b))"
  proof -
    have "snd (track_bytes (length s) chunk (phase_of s, spans_of s)) = spans_of (s @ chunk)"
      by (simp add: track_bytes_stream)
    moreover have "phase_of s = fo_esc_phase b" using st by (simp add: streams_def)
    ultimately show ?thesis using pre track_bytes_prefix [of pre] by simp
  qed
  moreover have "\<forall>x\<in>set pre. snd x \<noteq> U64_MAX \<and> snd x \<le> fo_start_offset b'"
    using pre(2) start' by (metis trans_le_add1)
  ultimately have spans': "fo_esc_spans b' = prune_spans (fo_start_offset b') (spans_of (s @ chunk))"
    by (simp add: prune_spans_absorb) (simp add: b' n(2) mid_def)
  show "streams b' (s @ chunk)"
  proof -
    have data': "fo_data b' = drop (fo_start_offset b') (s @ chunk)"
      unfolding start' using st by (simp add: b' n(2) mid_def streams_def add.commute)
    have same: "fo_max_bytes b' = fo_max_bytes b" "fo_cursors b' = fo_cursors b"
        "fo_esc_phase b' = phase_of (s @ chunk)"
      by (simp_all add: b' n(2) mid_def)
    have cur: "\<forall>c k. bt_get (fo_cursors b) c = Some k \<longrightarrow> k \<le> length (s @ chunk)"
      using st by (auto simp: streams_def intro: trans_le_add1)
    have "1 \<le> fo_max_bytes b" using st by (simp add: streams_def)
    moreover have "length (fo_data b') \<le> fo_max_bytes b"
      using n(4) by (auto simp: eviction_0_iff b' n(2) mid_def)
    ultimately show ?thesis unfolding streams_def same
      using st by (intro conjI len n_le [folded start'] spans' data' cur refl) (simp_all add: streams_def)
  qed
  show "fo_cursors b' = fo_cursors b" "fo_max_bytes b' = fo_max_bytes b"
    by (simp_all add: b' n(2) mid_def)
  show "fo_start_offset b \<le> fo_start_offset b'" by (simp add: start')
  show "\<exists>j. j \<le> 8 * (fo_start_offset b' - fo_start_offset b) + 7 \<and>
           (fo_data b' = [] \<or> length (fo_data b') \<le> fo_max_bytes b' \<and> fst (env j) + length (fo_data b') \<le> node_max)"
    unfolding start' using n(3,4) by (intro exI [of _ j]) (simp add: eviction_0_iff b')
qed

subsection \<open>Safe offsets of a buffer\<close>

lemma find_SomeD: "find P xs = Some x \<Longrightarrow> P x \<and> x \<in> set xs"
  by (auto simp: find_Some_iff)

lemma streams_spans:
  assumes "streams b s"
  obtains pre where "spans_of s = pre @ fo_esc_spans b"
    and "\<forall>x\<in>set pre. snd x \<noteq> U64_MAX \<and> snd x \<le> fo_start_offset b"
    and "spans_ok s (spans_of s)"
proof -
  have "fo_esc_spans b = prune_spans (fo_start_offset b) (spans_of s)" "length s < U64_MAX"
    using assms by (simp_all add: streams_def)
  with prune_spans_suffix [of "spans_of s" "fo_start_offset b"] spans_ok_of [of s] that
  show thesis by metis
qed

lemma find_span:
  assumes st: "streams b s" and t: "fo_start_offset b \<le> t"
  shows "(case find (\<lambda>(start, resume). start \<le> t \<and> t < resume) (fo_esc_spans b) of
            None \<Rightarrow> \<forall>x\<in>set (spans_of s). \<not> (fst x \<le> t \<and> t < snd x)
          | Some x \<Rightarrow> x \<in> set (spans_of s) \<and> fst x \<le> t \<and> t < snd x)"
proof -
  obtain pre where pre: "spans_of s = pre @ fo_esc_spans b"
      "\<forall>x\<in>set pre. snd x \<noteq> U64_MAX \<and> snd x \<le> fo_start_offset b"
    using streams_spans [OF st] .
  have "\<forall>x\<in>set pre. \<not> (fst x \<le> t \<and> t < snd x)" using pre(2) t by fastforce
  then show ?thesis
    unfolding pre(1) by (auto simp: find_None_iff dest!: find_SomeD split: option.split)
qed

lemma first_safe_offset_find:
  assumes st: "streams b s"
  shows "first_safe_offset_at_or_after b t =
    (case find (\<lambda>(start, resume). start \<le> t \<and> t < resume) (fo_esc_spans b) of
       None \<Rightarrow> t | Some (_, resume) \<Rightarrow> if resume = U64_MAX then length s else resume)"
proof -
  obtain pre where pre: "spans_of s = pre @ fo_esc_spans b" "spans_ok s (spans_of s)"
    using streams_spans [OF st] .
  then have "sorted_wrt (\<lambda>x y. snd x < fst y) (fo_esc_spans b)" "\<forall>x\<in>set (fo_esc_spans b). fst x < snd x"
    by (auto simp: spans_ok_def sorted_wrt_append)
  note window = window_find [OF this refl, of t]
  show ?thesis
    unfolding first_safe_offset_at_or_after_def Let_def window streams_end [OF st] ..
qed

text \<open>
  The offset found is the first one from the target on at which a fresh parser may start; it is the
  end of the stream when there is none.
\<close>

lemma first_safe_offset_least:
  assumes st: "streams b s" and t: "fo_start_offset b \<le> t" "t \<le> length s"
    and k: "k = first_safe_offset_at_or_after b t"
  shows "t \<le> k \<and> k \<le> length s \<and> (\<forall>j. t \<le> j \<and> j < k \<longrightarrow> \<not> safe_at s j) \<and> (safe_at s k \<or> k = length s)"
proof -
  obtain ok: "spans_ok s (spans_of s)" and len: "length s < U64_MAX"
    using streams_spans [OF st] st by (auto simp: streams_def)
  have unsafe: "\<not> safe_at s j \<longleftrightarrow> (\<exists>x\<in>set (spans_of s). fst x \<le> j \<and> j < snd x)" if "j \<le> length s" for j
    using ok that by (simp add: spans_ok_def)
  show ?thesis
  proof (cases "find (\<lambda>(start, resume). start \<le> t \<and> t < resume) (fo_esc_spans b)")
    case None
    then have "k = t" by (simp add: k first_safe_offset_find [OF st])
    moreover have "safe_at s t" using find_span [OF st t(1)] None unsafe [OF t(2)] by auto
    ultimately show ?thesis using t(2) by auto
  next
    case (Some x)
    then have x: "x \<in> set (spans_of s)" "fst x \<le> t" "t < snd x" using find_span [OF st t(1)] by auto
    have inside: "\<not> safe_at s j" if "t \<le> j" "j < snd x" "j \<le> length s" for j
      using that x unsafe by (meson order_trans)
    show ?thesis
    proof (cases "snd x = U64_MAX")
      case True
      with Some have "k = length s" by (simp add: k first_safe_offset_find [OF st] case_prod_unfold)
      with inside True len t(2) show ?thesis by auto
    next
      case False
      with Some have kx: "k = snd x" by (simp add: k first_safe_offset_find [OF st] case_prod_unfold)
      have le: "snd x \<le> length s" using ok x(1) False by (auto simp: spans_ok_def)
      have "\<not> (fst y \<le> snd x \<and> snd x < snd y)" if "y \<in> set (spans_of s)" for y
        using spans_ok_apart [OF ok x(1) that] x by (cases "x = y") auto
      then have "safe_at s (snd x)" using unsafe [OF le] by blast
      then show ?thesis using kx le inside x(3) by auto
    qed
  qed
qed

lemma start_safe:
  assumes "streams b s" and "k = first_safe_offset_at_or_after b (fo_start_offset b)"
  shows "fo_start_offset b \<le> k" and "k \<le> length s"
  using first_safe_offset_least [OF assms(1) order_refl _ assms(2)] assms(1) by (auto simp: streams_def)

section \<open>The other operations\<close>

lemma streams_cursors:
  assumes "streams b s" and "bt_wf m" and "\<And>c k. bt_get m c = Some k \<Longrightarrow> k \<le> length s"
  shows "streams (b\<lparr>fo_cursors := m\<rparr>) s"
  using assms by (auto simp: streams_def)

lemma streams_cursor_insert:
  assumes "streams b s" and "k \<le> length s"
  shows "streams (b\<lparr>fo_cursors := bt_insert c k (fo_cursors b)\<rparr>) s"
  using assms by (intro streams_cursors) (auto simp: streams_def btree split: if_splits)

lemma register_client_at_tail_streams: "streams b s \<Longrightarrow> streams (register_client_at_tail c b) s"
  by (simp add: register_client_at_tail_def streams_cursor_insert streams_end)

lemma unregister_client_streams: "streams b s \<Longrightarrow> streams (unregister_client c b) s"
  unfolding unregister_client_def
  by (rule streams_cursors) (auto simp: streams_def btree split: if_splits)

lemma acknowledge_snapshot_streams: "streams b s \<Longrightarrow> streams (acknowledge_snapshot c off b) s"
  by (auto simp: acknowledge_snapshot_def streams_end intro!: streams_cursor_insert split: option.split)

lemma advance_client_to_end_streams: "streams b s \<Longrightarrow> streams (advance_client_to_end c b) s"
  by (auto simp: advance_client_to_end_def streams_end intro!: streams_cursor_insert)

text \<open>A read returns the bytes of the stream from where it starts.\<close>

lemma read_for_client_stream:
  assumes st: "streams b s" and rd: "read_for_client c n b = (r, b')"
    and cur: "cur = (case bt_get (fo_cursors b) c of None \<Rightarrow> length s | Some k \<Rightarrow> k)"
    and start: "st = (if cur < fo_start_offset b then first_safe_offset_at_or_after b (fo_start_offset b) else cur)"
  shows "or_stream_gap r \<longleftrightarrow> cur < fo_start_offset b"
    and "or_stream_start r = st"
    and "fo_start_offset b \<le> st \<and> st \<le> length s"
    and "or_bytes r = take (max n 1) (drop st s)"
    and "or_stream_end r = st + length (or_bytes r)"
    and "or_stream_end r \<le> length s"
    and "b' = b\<lparr>fo_cursors := bt_insert c (or_stream_end r) (fo_cursors b)\<rparr>"
proof -
  have cur_le: "cur \<le> length s" using st cur by (auto simp: streams_def split: option.split)
  show st_le: "fo_start_offset b \<le> st \<and> st \<le> length s"
    using start cur_le start_safe [OF st refl] by auto
  have data: "drop (st - fo_start_offset b) (fo_data b) = drop st s"
    using st st_le by (simp add: streams_def)
  have small: "length s < U64_MAX" using st by (simp add: streams_def)
  have take_min: "take (min (length s - st) (max n 1)) (drop st s) = take (max n 1) (drop st s)"
    by (simp add: min_def)
  have "(r, b') = (\<lparr>or_bytes = take (max n 1) (drop st s), or_stream_start = st,
                    or_stream_end = st + length (take (max n 1) (drop st s)),
                    or_stream_gap = (cur < fo_start_offset b)\<rparr>,
                   b\<lparr>fo_cursors := bt_insert c (st + length (take (max n 1) (drop st s))) (fo_cursors b)\<rparr>)"
    unfolding rd [symmetric] read_for_client_def Let_def streams_end [OF st] cur [symmetric]
      start [symmetric] data take_min using st_le small by (simp add: min_def) linarith
  then show "or_stream_gap r \<longleftrightarrow> cur < fo_start_offset b" "or_stream_start r = st"
    "or_bytes r = take (max n 1) (drop st s)" "or_stream_end r = st + length (or_bytes r)"
    "or_stream_end r \<le> length s"
    "b' = b\<lparr>fo_cursors := bt_insert c (or_stream_end r) (fo_cursors b)\<rparr>"
    using st_le by auto
qed

lemma read_for_client_streams:
  assumes "streams b s" and "read_for_client c n b = (r, b')"
  shows "streams b' s"
  using read_for_client_stream(6,7) [OF assms refl refl] assms(1) streams_cursor_insert by metis

lemma read_at_stream:
  assumes st: "streams b s"
  shows "read_at cursor limit b =
    (let k = clamp cursor (fo_start_offset b) (length s) in
     \<lparr>or_bytes = take limit (drop k s), or_stream_start = k, or_stream_end = k + length (take limit (drop k s)),
      or_stream_gap = (cursor < fo_start_offset b \<or> cursor > length s)\<rparr>)"
proof -
  define k where "k = clamp cursor (fo_start_offset b) (length s)"
  have start: "fo_start_offset b \<le> length s" and small: "length s < U64_MAX"
    and dt: "fo_data b = drop (fo_start_offset b) s" using st by (simp_all add: streams_def)
  have k: "fo_start_offset b \<le> k" "k \<le> length s" using start by (auto simp: k_def clamp_def)
  have data: "drop (k - fo_start_offset b) (fo_data b) = drop k s" using k by (simp add: dt)
  show ?thesis
    unfolding read_at_def Let_def streams_end [OF st] k_def [symmetric] data
    using k small by (auto simp: min_def)
qed

end
