(* ===== verification/Output_Correct.thy ===== *)
theory Output_Correct
  imports Output_Stream
begin

text \<open>
  Runs of the fan-out buffer: any sequence of its operations, the reads they return, and what the
  clients receive.
\<close>

section \<open>Runs\<close>

datatype fanout_op =
    Push nat "nat \<Rightarrow> nat \<times> nat" bytes
  | Register client_id
  | Unregister client_id
  | Acknowledge client_id nat
  | AdvanceToEnd client_id
  | Read client_id nat

fun fanout_step :: "fanout_op \<Rightarrow> fanout \<Rightarrow> (client_id \<times> output_read) list \<times> fanout" where
  "fanout_step (Push node_max env chunk) b = ([], push_chunk_with_node_cap node_max env chunk b)"
| "fanout_step (Register c) b = ([], register_client_at_tail c b)"
| "fanout_step (Unregister c) b = ([], unregister_client c b)"
| "fanout_step (Acknowledge c off) b = ([], acknowledge_snapshot c off b)"
| "fanout_step (AdvanceToEnd c) b = ([], advance_client_to_end c b)"
| "fanout_step (Read c n) b = (let (r, b) = read_for_client c n b in ([(c, r)], b))"

fun fanout_run :: "fanout_op list \<Rightarrow> fanout \<Rightarrow> (client_id \<times> output_read) list \<times> fanout" where
  "fanout_run [] b = ([], b)"
| "fanout_run (x # xs) b =
     (let (rs, b) = fanout_step x b; (rs', b) = fanout_run xs b in (rs @ rs', b))"

fun op_bytes :: "fanout_op \<Rightarrow> bytes" where
  "op_bytes (Push _ _ chunk) = chunk"
| "op_bytes _ = []"

definition pushed :: "fanout_op list \<Rightarrow> bytes" where
  "pushed xs = concat (map op_bytes xs)"

text \<open>The reads of one client, in order.\<close>

definition reads_of :: "client_id \<Rightarrow> (client_id \<times> output_read) list \<Rightarrow> output_read list" where
  "reads_of c rs = map snd (filter (\<lambda>(d, _). d = c) rs)"

text \<open>Operations that move the cursor of a client other than by reading.\<close>

fun repositions :: "client_id \<Rightarrow> fanout_op \<Rightarrow> bool" where
  "repositions c (Register d) = (d = c)"
| "repositions c (Unregister d) = (d = c)"
| "repositions c (Acknowledge d _) = (d = c)"
| "repositions c (AdvanceToEnd d) = (d = c)"
| "repositions c _ = False"

lemma pushed_simps [simp]: "pushed [] = []" "pushed (x # xs) = op_bytes x @ pushed xs"
  "pushed (xs @ ys) = pushed xs @ pushed ys"
  by (simp_all add: pushed_def)

lemma reads_of_simps [simp]: "reads_of c [] = []" "reads_of c (rs @ rs') = reads_of c rs @ reads_of c rs'"
  "reads_of c ((d, r) # rs) = (if d = c then [r] else []) @ reads_of c rs"
  by (simp_all add: reads_of_def)

lemma fanout_run_append:
  "fanout_run (xs @ ys) b =
     (let (rs, b) = fanout_run xs b; (rs', b) = fanout_run ys b in (rs @ rs', b))"
  by (induction xs arbitrary: b) (simp_all add: Let_def case_prod_unfold)

lemma fanout_step_streams:
  assumes "streams b s" and "length (s @ op_bytes x) < U64_MAX" and "fanout_step x b = (rs, b')"
  shows "streams b' (s @ op_bytes x)"
  using assms
  by (cases x)
    (auto simp: register_client_at_tail_streams unregister_client_streams acknowledge_snapshot_streams
      advance_client_to_end_streams case_prod_unfold Let_def
      intro: push_chunk_streams(1) [OF _ _ refl] read_for_client_streams [OF _ prod.collapse [symmetric]])

lemma fanout_run_streams:
  assumes "streams b s" and "length (s @ pushed xs) < U64_MAX" and "fanout_run xs b = (rs, b')"
  shows "streams b' (s @ pushed xs)"
  using assms
proof (induction xs arbitrary: b s rs)
  case (Cons x xs)
  obtain r1 b1 where step: "fanout_step x b = (r1, b1)" by fastforce
  obtain r2 where rest: "fanout_run xs b1 = (r2, b')" using Cons.prems(3) step by (auto simp: Let_def split: prod.splits)
  have "streams b1 (s @ op_bytes x)" using Cons.prems step by (intro fanout_step_streams) auto
  from Cons.IH [OF this _ rest] Cons.prems(2) show ?case by simp
qed simp

section \<open>What a client receives\<close>

lemma fanout_step_cursor:
  assumes st: "streams b s" and len: "length (s @ op_bytes x) < U64_MAX"
    and step: "fanout_step x b = (rs, b')" and k: "bt_get (fo_cursors b) c = Some k"
    and quiet: "\<not> repositions c x" and gap: "\<forall>r\<in>set (reads_of c rs). \<not> or_stream_gap r"
  shows "\<exists>k'. bt_get (fo_cursors b') c = Some k' \<and> k \<le> k' \<and> k' \<le> length s \<and>
    concat (map or_bytes (reads_of c rs)) = take (k' - k) (drop k s)"
proof -
  have wf: "bt_wf (fo_cursors b)" and k_le: "k \<le> length s" using st k by (auto simp: streams_def)
  show ?thesis
  proof (cases x)
    case (Push node_max env chunk)
    then show ?thesis using step k k_le push_chunk_streams(2) [OF st _ refl] len by auto
  next
    case (Read d n)
    obtain r b1 where rd: "read_for_client d n b = (r, b1)" by fastforce
    with step Read have rs: "rs = [(d, r)]" "b' = b1" by auto
    note facts = read_for_client_stream [OF st rd refl refl]
    show ?thesis
    proof (cases "d = c")
      case True
      with gap rs k facts(1) have "\<not> k < fo_start_offset b" by simp
      with facts k True have r: "or_bytes r = take (max n 1) (drop k s)"
          "or_stream_end r = k + length (or_bytes r)" "or_stream_end r \<le> length s"
          "b1 = b\<lparr>fo_cursors := bt_insert c (or_stream_end r) (fo_cursors b)\<rparr>"
        by simp_all
      show ?thesis
        by (rule exI [of _ "or_stream_end r"]) (use r rs True in \<open>auto simp: btree min_def\<close>)
    next
      case False
      with facts(7) rs k k_le show ?thesis by (auto simp: btree)
    qed
  qed (use step k k_le quiet wf in \<open>auto simp: register_client_at_tail_def unregister_client_def
      acknowledge_snapshot_def advance_client_to_end_def btree split: option.splits\<close>)
qed

lemma fanout_run_cursor:
  assumes "streams b s" and "length (s @ pushed xs) < U64_MAX"
    and "fanout_run xs b = (rs, b')" and "bt_get (fo_cursors b) c = Some k"
    and "\<forall>x\<in>set xs. \<not> repositions c x" and "\<forall>r\<in>set (reads_of c rs). \<not> or_stream_gap r"
  shows "\<exists>k'. bt_get (fo_cursors b') c = Some k' \<and> k \<le> k' \<and> k' \<le> length (s @ pushed xs) \<and>
    concat (map or_bytes (reads_of c rs)) = take (k' - k) (drop k (s @ pushed xs))"
  using assms
proof (induction xs arbitrary: b s rs k)
  case Nil
  then show ?case by (auto simp: streams_def)
next
  case (Cons x xs)
  obtain r1 b1 where step: "fanout_step x b = (r1, b1)" by fastforce
  obtain r2 where rest: "fanout_run xs b1 = (r2, b')" and rs: "rs = r1 @ r2"
    using Cons.prems(3) step by (auto simp: Let_def split: prod.splits)
  have len: "length (s @ op_bytes x) < U64_MAX" using Cons.prems(2) by simp
  obtain k1 where k1: "bt_get (fo_cursors b1) c = Some k1" "k \<le> k1" "k1 \<le> length s"
      "concat (map or_bytes (reads_of c r1)) = take (k1 - k) (drop k s)"
    using fanout_step_cursor [OF Cons.prems(1) len step Cons.prems(4)] Cons.prems(5,6) rs by auto
  obtain k2 where k2: "bt_get (fo_cursors b') c = Some k2" "k1 \<le> k2" "k2 \<le> length (s @ pushed (x # xs))"
      "concat (map or_bytes (reads_of c r2)) = take (k2 - k1) (drop k1 (s @ pushed (x # xs)))"
    using Cons.IH [OF fanout_step_streams [OF Cons.prems(1) len step] _ rest k1(1)] Cons.prems(2,5,6) rs
    by auto
  have "take (k1 - k) (drop k s) @ take (k2 - k1) (drop k1 (s @ pushed (x # xs)))
      = take (k2 - k) (drop k (s @ pushed (x # xs)))"
  proof -
    have "take (k1 - k) (drop k s) = take (k1 - k) (drop k (s @ pushed (x # xs)))" using k1(3) by simp
    moreover have "drop k1 u = drop (k1 - k) (drop k u)" for u :: bytes using k1(2) by simp
    moreover have "k2 - k = (k1 - k) + (k2 - k1)" using k1(2) k2(2) by simp
    ultimately show ?thesis by (metis take_add)
  qed
  with k1 k2 rs show ?case by (intro exI [of _ k2]) auto
qed

lemma fanout_step_max_bytes:
  assumes "streams b s" and "length (s @ op_bytes x) < U64_MAX" and "fanout_step x b = (rs, b')"
  shows "fo_max_bytes b' = fo_max_bytes b"
proof (cases x)
  case (Read d n)
  obtain r b1 where "read_for_client d n b = (r, b1)" by fastforce
  with read_for_client_stream(7) [OF assms(1) this refl refl] Read assms(3) show ?thesis by auto
qed (use assms push_chunk_streams(3) [OF assms(1) _ refl] in \<open>auto simp: register_client_at_tail_def
    unregister_client_def acknowledge_snapshot_def advance_client_to_end_def split: option.splits\<close>)

lemma fanout_run_max_bytes:
  assumes "streams b s" and "length (s @ pushed xs) < U64_MAX" and "fanout_run xs b = (rs, b')"
  shows "fo_max_bytes b' = fo_max_bytes b"
  using assms
proof (induction xs arbitrary: b s rs)
  case (Cons x xs)
  obtain r1 b1 where step: "fanout_step x b = (r1, b1)" by fastforce
  obtain r2 where rest: "fanout_run xs b1 = (r2, b')"
    using Cons.prems(3) step by (auto simp: Let_def split: prod.splits)
  have len: "length (s @ op_bytes x) < U64_MAX" using Cons.prems(2) by simp
  from Cons.IH [OF fanout_step_streams [OF Cons.prems(1) len step] _ rest] Cons.prems(2)
  show ?case using fanout_step_max_bytes [OF Cons.prems(1) len step] by simp
qed simp

section \<open>Properties\<close>

definition quiet_env :: "nat \<Rightarrow> nat \<Rightarrow> nat \<times> nat" where
  "quiet_env others _ = (others, others)"

definition demo_client :: client_id where
  "demo_client = ClientId 7"

text \<open>
  C22.  The stream invariant.  After any sequence of pushes (with any chunks, any node budget and any
  interference from other buffers), registrations, acknowledgements and reads, the buffer holds
  exactly the last bytes pushed, within its own budget; its phase and its spans are those of
  everything ever pushed, and no cursor is past the end.
\<close>

theorem fanout_holds_stream:
  assumes "length (pushed xs) < U64_MAX" and "fanout_run xs (with_accounting n) = (rs, b)"
  shows "streams b (pushed xs) \<and> end_offset b = length (pushed xs) \<and> length (fo_data b) \<le> max n 1 \<and>
    fo_data b = drop (fo_start_offset b) (pushed xs)"
proof -
  have "streams b (pushed xs)" "fo_max_bytes b = fo_max_bytes (with_accounting n)"
    using fanout_run_streams [OF streams_init _ assms(2)] fanout_run_max_bytes [OF streams_init _ assms(2)]
      assms(1) by simp_all
  then show ?thesis by (auto simp: streams_end streams_def with_accounting_def)
qed

theorem fanout_holds_stream_witness:
  "\<exists>b. fanout_run [Push 10 (quiet_env 0) [0x41, 0x42], Register demo_client] (with_accounting 1) = ([], b) \<and>
     fo_data b = [0x42]"
proof -
  define xs where "xs = [Push 10 (quiet_env 0) [0x41, 0x42], Register demo_client]"
  obtain rs b where run: "fanout_run xs (with_accounting 1) = (rs, b)" by fastforce
  have rs: "rs = []" using run by (auto simp: xs_def)
  have start: "fo_start_offset b = 1"
    using run by (auto simp: xs_def register_client_at_tail_def push_chunk_with_node_cap_def with_accounting_def
        end_offset_def Let_def phase_advance_def evict_loop.simps eviction_def quiet_env_def drop_front_def U64_MAX_def)
  have "length (pushed xs) < U64_MAX" by (simp add: xs_def U64_MAX_def)
  from fanout_holds_stream [OF this run] have "fo_data b = [0x42]" by (simp add: start) (simp add: xs_def)
  with run rs show ?thesis by (auto simp: xs_def)
qed

text \<open>
  C27.  Eviction ends.  Whatever other threads do to the shared counter, the eviction loop ends after
  at most eight iterations for each byte it removes and seven more; it removes a prefix of the data,
  and when it ends the data is empty or both budgets hold, the node budget as of the last load.
\<close>

theorem eviction_terminates:
  assumes "fo_start_offset b + length (fo_data b) \<le> U64_MAX" and "evict_loop node_max env 0 0 b = (j, b')"
  shows "\<exists>n\<le>length (fo_data b). j \<le> 8 * n + 7 \<and>
    fo_data b' = drop n (fo_data b) \<and> fo_start_offset b' = fo_start_offset b + n \<and>
    (fo_data b' = [] \<or> length (fo_data b') \<le> fo_max_bytes b \<and> fst (env j) + length (fo_data b') \<le> node_max)"
proof -
  have start: "fo_start_offset b \<le> U64_MAX" using assms(1) by simp
  obtain n where n: "n \<le> length (fo_data b)" "b' = drop_front n b" "j \<le> 8 * n + 7"
      "eviction node_max (fst (env j) + length (fo_data b')) b' = 0"
    using evict_loop_result [OF assms(2) start] by auto
  show ?thesis
    by (rule exI [of _ n]) (use n assms(1) in \<open>auto simp: eviction_0_iff\<close>)
qed

theorem eviction_terminates_witness:
  "\<exists>n\<le>2. fst (evict_loop 0 (\<lambda>i. (5, 6)) 0 0 ((with_accounting 9)\<lparr>fo_data := [1, 2]\<rparr>)) \<le> 8 * n + 7"
  using eviction_terminates [of "(with_accounting 9)\<lparr>fo_data := [1, 2]\<rparr>" 0 "\<lambda>i. (5, 6)"]
  by (cases "evict_loop 0 (\<lambda>i. (5, 6)) 0 0 ((with_accounting 9)\<lparr>fo_data := [1, 2]\<rparr>)")
    (auto simp: with_accounting_def U64_MAX_def)

text \<open>
  C23.  In-order delivery.  A client registers; after that anything happens except that its cursor is
  moved other than by its own reads.  As long as none of its reads reports a gap, what it has received
  is a prefix of the bytes pushed since it registered: none lost, none repeated, none out of order.
  Its next read without a gap continues exactly where that prefix ends.
\<close>

theorem delivery_in_order:
  assumes "length (pushed xs @ pushed ys) < U64_MAX"
    and "fanout_run (xs @ [Register c]) (with_accounting n) = (rs0, b)" and "fanout_run ys b = (rs, b')"
    and "\<forall>y\<in>set ys. \<not> repositions c y" and "\<forall>r\<in>set (reads_of c rs). \<not> or_stream_gap r"
  shows "\<exists>k. concat (map or_bytes (reads_of c rs)) = take k (pushed ys) \<and>
    (\<forall>m r b''. read_for_client c m b' = (r, b'') \<and> \<not> or_stream_gap r \<longrightarrow>
       or_bytes r = take (max m 1) (drop k (pushed ys)))"
proof -
  obtain rs1 b0 where b0: "fanout_run xs (with_accounting n) = (rs1, b0)" by fastforce
  then have b: "b = register_client_at_tail c b0" using assms(2) by (simp add: fanout_run_append)
  have st0: "streams b0 (pushed xs)"
    using fanout_run_streams [OF streams_init _ b0] assms(1) by simp
  then have st: "streams b (pushed xs)" by (simp add: b register_client_at_tail_streams)
  have k: "bt_get (fo_cursors b) c = Some (length (pushed xs))"
    by (simp add: b register_client_at_tail_def btree streams_end [OF st0])
  obtain k' where k': "bt_get (fo_cursors b') c = Some k'" "length (pushed xs) \<le> k'"
      "concat (map or_bytes (reads_of c rs)) = take (k' - length (pushed xs)) (drop (length (pushed xs)) (pushed xs @ pushed ys))"
    using fanout_run_cursor [OF st assms(1,3) k assms(4,5)] by auto
  have st': "streams b' (pushed xs @ pushed ys)" by (rule fanout_run_streams [OF st assms(1,3)])
  show ?thesis
  proof (intro exI [of _ "k' - length (pushed xs)"] conjI allI impI)
    show "concat (map or_bytes (reads_of c rs)) = take (k' - length (pushed xs)) (pushed ys)"
      using k'(3) by simp
    fix m r b'' assume "read_for_client c m b' = (r, b'') \<and> \<not> or_stream_gap r"
    then show "or_bytes r = take (max m 1) (drop (k' - length (pushed xs)) (pushed ys))"
      using read_for_client_stream(1,4) [OF st' _ refl refl, of c m r b''] k' by (simp split: if_splits)
  qed
qed

lemmas fanout_eval = register_client_at_tail_def push_chunk_with_node_cap_def with_accounting_def
  end_offset_def Let_def phase_advance_def evict_loop.simps eviction_def quiet_env_def drop_front_def
  U64_MAX_def read_for_client_def first_safe_offset_at_or_after_def search_spans_def bt_get_def
  prune_spans_def close_last_span_def

theorem delivery_in_order_witness:
  "\<exists>b rs b' k. fanout_run ([Push 9 (quiet_env 0) [0x41]] @ [Register demo_client]) (with_accounting 4) = ([], b) \<and>
     fanout_run [Push 9 (quiet_env 0) [0x42, 0x43], Read demo_client 1] b = (rs, b') \<and>
     concat (map or_bytes (reads_of demo_client rs)) = take k [0x42, 0x43] \<and> length (reads_of demo_client rs) = 1"
proof -
  let ?ys = "[Push 9 (quiet_env 0) [0x42, 0x43], Read demo_client 1]"
  obtain rs0 b where b: "fanout_run ([Push 9 (quiet_env 0) [0x41]] @ [Register demo_client]) (with_accounting 4) = (rs0, b)"
    by fastforce
  then have rs0: "rs0 = []" by auto
  have b_eq: "b = \<lparr>fo_max_bytes = 4, fo_start_offset = 0, fo_data = [0x41], fo_cursors = [(demo_client, 1)],
      fo_esc_phase = Ground, fo_esc_spans = []\<rparr>"
    using b by (auto simp: fanout_eval)
  obtain rs b' where run: "fanout_run ?ys b = (rs, b')" by fastforce
  then have rs: "length (reads_of demo_client rs) = 1 \<and> (\<forall>r\<in>set (reads_of demo_client rs). \<not> or_stream_gap r)"
    unfolding b_eq by (auto simp: fanout_eval)
  have len: "length (pushed [Push 9 (quiet_env 0) [0x41]] @ pushed ?ys) < U64_MAX" by (simp add: U64_MAX_def)
  have "\<forall>y\<in>set ?ys. \<not> repositions demo_client y" by simp
  from delivery_in_order [OF len b run this conjunct2 [OF rs]] rs b run rs0 show ?thesis by auto
qed


definition demo_buffer :: fanout where
  "demo_buffer = \<lparr>fo_max_bytes = 4, fo_start_offset = 1, fo_data = [0x5B, 0x33], fo_cursors = [(demo_client, 0)],
     fo_esc_phase = Csi, fo_esc_spans = [(1, U64_MAX)]\<rparr>"

lemma demo_buffer_streams: "streams demo_buffer [0x1B, 0x5B, 0x33]"
  by (auto simp: streams_def demo_buffer_def phase_of_def phase_advance_def spans_of_def Let_def
      prune_spans_def bt_wf_def bt_get_def U64_MAX_def split: if_splits)


text \<open>
  C25.  Safe resumption.  A read that reports a gap starts at the first retained offset at which a
  fresh parser may start, and a snapshot of recent output starts at the first such offset in the
  requested window; both return nothing when there is none, and the bytes are those of the stream.
\<close>

theorem resumes_safely:
  assumes st: "streams b s"
  shows "(case read_for_client c n b of (r, _) \<Rightarrow>
      or_bytes r = take (max n 1) (drop (or_stream_start r) s) \<and>
      (or_stream_gap r \<longrightarrow>
        (\<forall>j. fo_start_offset b \<le> j \<and> j < or_stream_start r \<longrightarrow> \<not> safe_at s j) \<and>
        (or_bytes r \<noteq> [] \<longrightarrow> safe_at s (or_stream_start r)))) \<and>
    (let r = read_recent_with_offsets m b in
      or_bytes r = drop (or_stream_start r) s \<and> or_stream_end r = length s \<and>
      (or_bytes r \<noteq> [] \<longrightarrow> safe_at s (or_stream_start r)) \<and>
      (\<forall>j. length s - min (length (fo_data b)) m \<le> j \<and> j < or_stream_start r \<longrightarrow> \<not> safe_at s j))"
proof (rule conjI)
  obtain r b' where rd: "read_for_client c n b = (r, b')" by fastforce
  note facts = read_for_client_stream [OF st rd refl refl]
  have start: "fo_start_offset b \<le> length s" and dt: "fo_data b = drop (fo_start_offset b) s"
    using st by (simp_all add: streams_def)
  note least = first_safe_offset_least [OF st order_refl start refl]
  show "case read_for_client c n b of (r, _) \<Rightarrow>
      or_bytes r = take (max n 1) (drop (or_stream_start r) s) \<and>
      (or_stream_gap r \<longrightarrow>
        (\<forall>j. fo_start_offset b \<le> j \<and> j < or_stream_start r \<longrightarrow> \<not> safe_at s j) \<and>
        (or_bytes r \<noteq> [] \<longrightarrow> safe_at s (or_stream_start r)))"
    using facts least by (auto simp: rd)
  define t where "t = length s - min (length (fo_data b)) m"
  have t: "fo_start_offset b \<le> t" "t \<le> length s" using start by (auto simp: t_def dt)
  note least' = first_safe_offset_least [OF st t refl]
  have data: "drop (k - fo_start_offset b) (fo_data b) = drop k s" if "t \<le> k" for k
    using that t by (simp add: dt)
  show "let r = read_recent_with_offsets m b in
      or_bytes r = drop (or_stream_start r) s \<and> or_stream_end r = length s \<and>
      (or_bytes r \<noteq> [] \<longrightarrow> safe_at s (or_stream_start r)) \<and>
      (\<forall>j. length s - min (length (fo_data b)) m \<le> j \<and> j < or_stream_start r \<longrightarrow> \<not> safe_at s j)"
    unfolding read_recent_with_offsets_def Let_def streams_end [OF st] t_def [symmetric]
    using least' data [of "first_safe_offset_at_or_after b t"] by (auto simp: t_def)
qed

theorem resumes_safely_witness:
  "or_stream_gap (fst (read_for_client demo_client 5 demo_buffer)) \<and>
   or_bytes (fst (read_for_client demo_client 5 demo_buffer)) = [] \<and> \<not> safe_at [0x1B, 0x5B, 0x33] 1 \<and>
   or_stream_end (read_recent_with_offsets 2 demo_buffer) = 3"
proof -
  have r: "fst (read_for_client demo_client 5 demo_buffer) =
      \<lparr>or_bytes = [], or_stream_start = 3, or_stream_end = 3, or_stream_gap = True\<rparr>"
    by (simp add: fanout_eval demo_buffer_def)
  have start: "fo_start_offset demo_buffer = 1" by (simp add: demo_buffer_def)
  note both = resumes_safely [OF demo_buffer_streams, where c = demo_client and n = 5 and m = 2,
      unfolded case_prod_unfold r Let_def start]
  have "\<not> safe_at [0x1B, 0x5B, 0x33] 1" using conjunct1 [OF both] by simp
  moreover have "or_stream_end (read_recent_with_offsets 2 demo_buffer) = 3" using conjunct2 [OF both] by simp
  ultimately show ?thesis by (simp add: r)
qed

text \<open>
  C29.  After a gap the client can still be served from the middle of an escape sequence.  When the
  retained bytes have no safe offset, the gap read returns nothing but leaves the cursor at the end of
  the buffer; the next read then delivers what follows, without a gap, from an offset at which a fresh
  parser may not start.
\<close>

theorem gap_resumes_inside_sequence:
  assumes st: "streams b s" and k: "bt_get (fo_cursors b) c = Some k" "k < fo_start_offset b"
    and unsafe: "\<And>j. fo_start_offset b \<le> j \<Longrightarrow> j \<le> length s \<Longrightarrow> \<not> safe_at s j"
    and len: "length (s @ chunk) < U64_MAX" and b2: "b2 = push_chunk_with_node_cap node_max env chunk b1"
    and keeps: "fo_start_offset b2 \<le> length s"
    and rd1: "read_for_client c n b = (r1, b1)" and rd2: "read_for_client c m b2 = (r2, b3)"
  shows "or_stream_gap r1 \<and> or_bytes r1 = [] \<and> \<not> or_stream_gap r2 \<and>
    or_bytes r2 = take (max m 1) chunk \<and> \<not> safe_at (s @ chunk) (or_stream_start r2)"
proof -
  note f1 = read_for_client_stream [OF st rd1 refl refl]
  have start: "fo_start_offset b \<le> length s" using st by (simp add: streams_def)
  have "first_safe_offset_at_or_after b (fo_start_offset b) = length s"
    using first_safe_offset_least [OF st order_refl start refl] unsafe by blast
  with f1 k have r1: "or_stream_gap r1" "or_bytes r1 = []" "or_stream_end r1 = length s"
      "b1 = b\<lparr>fo_cursors := bt_insert c (length s) (fo_cursors b)\<rparr>"
    by simp_all
  have st1: "streams b1 s" by (rule read_for_client_streams [OF st rd1])
  have st2: "streams b2 (s @ chunk)" by (rule push_chunk_streams(1) [OF st1 len b2])
  have "bt_get (fo_cursors b2) c = Some (length s)"
    using push_chunk_streams(2) [OF st1 len b2] r1(4) by (simp add: btree)
  with read_for_client_stream [OF st2 rd2 refl refl] keeps
  have "\<not> or_stream_gap r2" "or_bytes r2 = take (max m 1) chunk" "or_stream_start r2 = length s"
    by simp_all
  with r1 unsafe [OF start order_refl] show ?thesis by (simp add: safe_at_def)
qed

theorem gap_resumes_inside_sequence_witness:
  "\<exists>r1 b1 r2 b3. read_for_client demo_client 8 demo_buffer = (r1, b1) \<and>
     read_for_client demo_client 8 (push_chunk_with_node_cap 100 (quiet_env 0) [0x31, 0x6D] b1) = (r2, b3) \<and>
     \<not> or_stream_gap r2 \<and> or_bytes r2 = [0x31, 0x6D] \<and>
     \<not> safe_at ([0x1B, 0x5B, 0x33] @ [0x31, 0x6D]) (or_stream_start r2)"
proof -
  let ?s = "[0x1B, 0x5B, 0x33] :: bytes"
  obtain r1 b1 where rd1: "read_for_client demo_client 8 demo_buffer = (r1, b1)" by fastforce
  let ?b2 = "push_chunk_with_node_cap 100 (quiet_env 0) [0x31, 0x6D] b1"
  obtain r2 b3 where rd2: "read_for_client demo_client 8 ?b2 = (r2, b3)" by fastforce
  have k: "bt_get (fo_cursors demo_buffer) demo_client = Some 0" "0 < fo_start_offset demo_buffer"
    by (simp_all add: demo_buffer_def bt_get_def)
  have unsafe: "\<not> safe_at ?s j" if "fo_start_offset demo_buffer \<le> j" "j \<le> length ?s" for j
  proof -
    from that have "j = 1 \<or> j = 2 \<or> j = 3" by (auto simp: demo_buffer_def)
    then show ?thesis by (auto simp: safe_at_def phase_of_def phase_advance_def)
  qed
  have len: "length (?s @ [0x31, 0x6D]) < U64_MAX" by (simp add: U64_MAX_def)
  have b1: "b1 = demo_buffer\<lparr>fo_cursors := [(demo_client, 3)]\<rparr>"
    using rd1 by (auto simp: read_for_client_def first_safe_offset_at_or_after_def search_spans_def end_offset_def
        bt_get_def Let_def demo_buffer_def U64_MAX_def)
  have "fo_start_offset ?b2 \<le> length ?s"
    unfolding b1 demo_buffer_def by (simp add: fanout_eval)
  from gap_resumes_inside_sequence [OF demo_buffer_streams k unsafe len refl this rd1 rd2] rd1 rd2
  show ?thesis by simp
qed

end
