(* ===== verification/Output_Parser.thy ===== *)
theory Output_Parser
  imports Output_Correct Vt_Correct
begin

text \<open>
  The two escape-sequence machines of the program side by side: the phase tracker that chooses where
  a client resumes, and the terminal parser that reads what the client is given.  On streams whose
  sequences are well placed the tracker never calls an offset safe at which the parser is inside a
  sequence; on others it can.
\<close>

section \<open>Well-placed bytes\<close>

text \<open>
  A byte is well placed when, right after ESC and intermediates, it is printable or starts over, and,
  after an ESC inside an operating system command, it ends the command or starts over.
\<close>

definition restarts :: "u8 \<Rightarrow> bool" where
  "restarts b = (b = 0x18 \<or> b = 0x1A \<or> b = 0x1B)"

definition well_placed_byte :: "esc_seq_phase \<Rightarrow> u8 \<Rightarrow> bool" where
  "well_placed_byte ph b =
     (case ph of
        esc_seq_phase.Escape \<Rightarrow> restarts b \<or> 0x20 \<le> b \<and> b \<le> 0x7E
      | OscEsc \<Rightarrow> restarts b \<or> b = 0x5C
      | _ \<Rightarrow> True)"

fun well_placed :: "esc_seq_phase \<Rightarrow> bytes \<Rightarrow> bool" where
  "well_placed ph [] = True"
| "well_placed ph (b # bs) = (well_placed_byte ph b \<and> well_placed (phase_advance ph b) bs)"

text \<open>How the tracker's phase and the state of the parser are related.\<close>

fun tracks :: "esc_seq_phase \<Rightarrow> vt \<Rightarrow> bool" where
  "tracks Ground v = (\<exists>s. v = VText s)"
| "tracks esc_seq_phase.Escape v = (\<exists>c xs ig. v = VEscape c xs ig)"
| "tracks Csi v = ((\<exists>s. v = VText s) \<or> (\<exists>p h. v = VHeader False p h) \<or> v = VCsiDiscard)"
| "tracks esc_seq_phase.Osc v = ((\<exists>s. v = VText s) \<or> (\<exists>s. v = VOsc s))"
| "tracks Dcs v = True"
| "tracks Sos v = True"
| "tracks _ v = (v = VEscape False [] False \<or> (\<exists>s. v = VOscEscape s))"

lemma vconsume_esc:
  "fst (vconsume N 0x1B v) = VEscape False [] False \<or> (\<exists>s. v = VOsc s \<and> fst (vconsume N 0x1B v) = VOscEscape s)"
  by (cases v) (auto simp: vconsume_def vdispatch_def cont_def)

lemma vconsume_cancel: "b = 0x18 \<or> b = 0x1A \<Longrightarrow> fst (vconsume N b v) = VText []"
  by (cases v) (auto simp: vconsume_def vdispatch_def cont_def)

lemma vconsume_text: "b \<noteq> 0x1B \<Longrightarrow> \<exists>s'. fst (vconsume N b (VText s)) = VText s'"
  by (auto simp: vconsume_def vdispatch_def vtext_def split: prod.splits)

lemma tracks_ground: "\<not> restarts b \<Longrightarrow> tracks (phase_advance Ground b) (fst (vconsume N b (VText s)))"
  using vconsume_text [of b N s] by (auto simp: phase_advance_def restarts_def)

lemma tracks_escape:
  assumes "\<not> restarts b" and "0x20 \<le> b" and "b \<le> 0x7E"
  shows "tracks (phase_advance esc_seq_phase.Escape b) (fst (vconsume N b (VEscape c xs ig)))"
proof -
  have "\<not> b \<le> 0x1F" using assms(2) by (simp add: word_le_nat_alt)
  then show ?thesis using assms
    by (auto simp: phase_advance_def restarts_def vconsume_def vdispatch_def vescape_def split: prod.splits)
qed

lemma tracks_csi:
  assumes "\<not> restarts b" and "tracks Csi v"
  shows "tracks (phase_advance Csi b) (fst (vconsume N b v))"
proof -
  consider s where "v = VText s" | p h where "v = VHeader False p h" | "v = VCsiDiscard"
    using assms(2) by auto
  then show ?thesis
  proof cases
    case 1
    then show ?thesis using assms(1) vconsume_text [of b N s] by (auto simp: phase_advance_def restarts_def)
  next
    case 2
    then show ?thesis using assms(1)
      by (auto simp: phase_advance_def restarts_def vconsume_def vdispatch_def vheader_def word_le_nat_alt)
  next
    case 3
    then show ?thesis using assms(1)
      by (auto simp: phase_advance_def restarts_def vconsume_def vdispatch_def word_le_nat_alt)
  qed
qed

lemma tracks_osc:
  assumes "\<not> restarts b" and "tracks esc_seq_phase.Osc v"
  shows "tracks (phase_advance esc_seq_phase.Osc b) (fst (vconsume N b v))"
proof -
  consider s where "v = VText s" | s where "v = VOsc s" using assms(2) by auto
  then show ?thesis
  proof cases
    case 1
    then show ?thesis using assms(1) vconsume_text [of b N s] by (auto simp: phase_advance_def restarts_def)
  next
    case 2
    then show ?thesis using assms(1)
      by (auto simp: phase_advance_def restarts_def vconsume_def vdispatch_def)
  qed
qed

lemma tracks_string_end:
  assumes "v = VEscape False [] False \<or> (\<exists>s. v = VOscEscape s)"
  shows "fst (vconsume N 0x5C v) = VText []"
  using assms by (auto simp: vconsume_def vdispatch_def vescape_def)

lemma tracks_step:
  assumes "tracks ph v" and "well_placed_byte ph b"
  shows "tracks (phase_advance ph b) (fst (vconsume N b v))"
proof -
  consider "b = 0x18 \<or> b = 0x1A" | "b = 0x1B" | "\<not> restarts b" by (auto simp: restarts_def)
  then show ?thesis
  proof cases
    case 1
    then show ?thesis using vconsume_cancel [OF 1, of N v] by (auto simp: phase_advance_def)
  next
    case 2
    show ?thesis using assms(1) vconsume_esc [of N v] unfolding 2
      by (cases ph) (auto simp: phase_advance_def)
  next
    case 3
    then have nb: "b \<noteq> 0x18" "b \<noteq> 0x1A" "b \<noteq> 0x1B" by (auto simp: restarts_def)
    show ?thesis
    proof (cases ph)
      case Ground
      then show ?thesis using assms(1) tracks_ground [OF 3] by auto
    next
      case Escape
      then show ?thesis using assms 3 by (auto simp: well_placed_byte_def intro: tracks_escape)
    next
      case Csi
      then show ?thesis using assms(1) tracks_csi [OF 3] by simp
    next
      case Osc
      then show ?thesis using assms(1) tracks_osc [OF 3] by simp
    qed (use assms 3 nb tracks_string_end [of v N] in
        \<open>auto simp: phase_advance_def well_placed_byte_def restarts_def split: if_splits\<close>)
  qed
qed

lemma tracks_all:
  "tracks ph v \<Longrightarrow> well_placed ph bs \<Longrightarrow> tracks (foldl phase_advance ph bs) (fst (vconsume_all N bs v))"
proof (induction bs arbitrary: ph v)
  case (Cons b bs)
  have "tracks (phase_advance ph b) (fst (vconsume N b v))" using Cons.prems by (intro tracks_step) auto
  from Cons.IH [OF this] Cons.prems(2) show ?case by (simp add: case_prod_unfold)
qed simp

lemma well_placed_take: "well_placed ph bs \<Longrightarrow> well_placed ph (take k bs)"
proof (induction bs arbitrary: ph k)
  case (Cons b bs)
  then show ?case by (cases k) auto
qed simp

lemma utf8_broken:
  assumes "utf8_head s = Malformed None" "s \<noteq> []" "\<not> cont b"
  shows "utf8_head (s @ [b]) = Malformed (Some (length s))"
proof -
  obtain a r where s: "s = a # r" using assms(2) by (cases s) auto
  have "r = [] \<or> (\<exists>x. r = [x]) \<or> (\<exists>x y. r = [x, y])"
    using assms(1) unfolding s utf8_head_def by (auto simp: Let_def split: list.splits if_splits)
  then show ?thesis
    using assms(1,3) unfolding s utf8_head_def by (auto simp: Let_def second_ok_def split: if_splits)
qed

lemma partial_char_flushed:
  assumes "utf8_head u = Malformed None" "u \<noteq> []"
  shows "snd (vadvance N [0x41] (VText u)) = [Print 0xFFFD, Print 0x41]"
proof -
  have "\<not> cont 0x41" by (simp add: cont_def)
  from utf8_broken [OF assms this] have "from_utf8 (u @ [0x41]) = Utf8Error 0 (Some (length u))"
    by (simp add: from_utf8_def from_utf8_at.simps)
  then have "vcomplete u [0x41] = (VText [], [Print 0xFFFD], 0)"
    using utf8_partial_short [OF assms(1)] by (simp add: vcomplete_def)
  then show ?thesis using assms(2)
    by (simp add: vadvance_def vconsume_def vdispatch_def vtext_def)
qed

lemma whole_char_printed: "snd (vadvance N [0x41] (VText [])) = [Print 0x41]"
  by (simp add: vadvance_def vconsume_def vdispatch_def vtext_def)

lemma partial_char_differs:
  assumes "vt_ok N p" "vt_ok N q" "abs_vt p = VText u" "utf8_head u = Malformed None" "u \<noteq> []" "abs_vt q = VText []"
  shows "map_option snd (runs advance [[0x41]] p) \<noteq> map_option snd (runs advance [[0x41]] q)"
proof -
  obtain p' where "advance [0x41] p = Some (p', [Print 0xFFFD, Print 0x41])"
    using vt.sim [OF assms(1), of "[0x41]"] assms(3) partial_char_flushed [OF assms(4,5), of N] by auto
  moreover obtain q' where "advance [0x41] q = Some (q', [Print 0x41])"
    using vt.sim [OF assms(2), of "[0x41]"] assms(6) whole_char_printed [of N] by auto
  ultimately show ?thesis by simp
qed

section \<open>Properties\<close>

text \<open>
  C24.  Which safe offsets are safe for the parser.  On a stream whose escape sequences are well placed,
  the terminal parser that has read the stream up to an offset the tracker calls safe is in its text
  state.  A fresh parser started there makes the same callbacks as the parser that has read
  everything, whatever follows and however it is cut, exactly when the offset is not inside a
  multi-byte character: the tracker looks at escape sequences only.
\<close>

theorem safe_offset_sound:
  assumes "3 \<le> N" and "well_placed Ground s" and "safe_at s k"
    and "advance (take k s) (new_with_size N) = Some (p, ev)"
  shows "vp_state p = Text \<and>
    (vp_utf8_len p = 0 \<longleftrightarrow>
      (\<forall>chunks. map_option snd (runs advance chunks p) = map_option snd (runs advance chunks (new_with_size N))))"
proof -
  have ok: "vt_ok N (new_with_size N)" by (rule vt_ok_new [OF assms(1)])
  have "vadvance N (take k s) (VText []) = (abs_vt p, ev)" and okp: "vt_ok N p"
    using vt.sim [OF ok, of "take k s"] assms(4) by (auto simp: abs_new_parser)
  then have "abs_vt p = fst (vconsume_all N (take k s) (VText []))" by (simp add: vadvance_def)
  moreover have "tracks Ground (fst (vconsume_all N (take k s) (VText [])))"
    using tracks_all [of Ground "VText []" "take k s" N] well_placed_take [OF assms(2)] assms(3)
    by (simp add: safe_at_def phase_of_def)
  ultimately obtain u where u: "abs_vt p = VText u" by auto
  then have state: "vp_state p = Text" by (auto simp: abs_vt_def split: vt_state.splits)
  have len: "vp_utf8_len p = length u" "u \<noteq> [] \<longrightarrow> utf8_head u = Malformed None"
    using u state okp by (auto simp: abs_vt_def vt_ok_def utf8_ok_def)
  then have "abs_vt p = abs_vt (new_with_size N)" if "vp_utf8_len p = 0"
    using that u by (simp add: abs_new_parser)
  moreover have "\<exists>chunks. map_option snd (runs advance chunks p) \<noteq> map_option snd (runs advance chunks (new_with_size N))"
    if "vp_utf8_len p \<noteq> 0"
    by (intro exI [of _ "[[0x41]]"] partial_char_differs [OF okp ok u _ _ abs_new_parser])
      (use that len in auto)
  ultimately show ?thesis using state vt.same_answers [OF okp ok] by blast
qed

theorem safe_offset_sound_witness:
  "(\<exists>p ev. advance (take 4 [0x1B, 0x5B, 0x33, 0x6D, 0x78]) (new_with_size 8) = Some (p, ev) \<and> vp_state p = Text) \<and>
   (\<exists>p ev chunks. advance (take 1 [0xC3, 0xA9]) (new_with_size 8) = Some (p, ev) \<and>
      map_option snd (runs advance chunks p) \<noteq> map_option snd (runs advance chunks (new_with_size 8)))"
proof
  let ?s = "[0x1B, 0x5B, 0x33, 0x6D, 0x78] :: bytes"
  obtain p ev where p: "advance (take 4 ?s) (new_with_size 8) = Some (p, ev)"
    using vt.sim [OF vt_ok_new, of 8 "take 4 ?s"] by auto
  have "well_placed Ground ?s" by (simp add: phase_advance_def well_placed_byte_def restarts_def)
  moreover have "safe_at ?s 4" by (simp add: safe_at_def phase_of_def phase_advance_def)
  ultimately have "vp_state p = Text" using safe_offset_sound [OF _ _ _ p] by simp
  with p show "\<exists>p ev. advance (take 4 ?s) (new_with_size 8) = Some (p, ev) \<and> vp_state p = Text" by blast
next
  let ?s = "[0xC3, 0xA9] :: bytes"
  obtain p ev where p: "advance (take 1 ?s) (new_with_size 8) = Some (p, ev)"
    and v: "(abs_vt p, ev) = vadvance 8 (take 1 ?s) (VText [])"
    using vt.sim [OF vt_ok_new, of 8 "take 1 ?s"] by (auto simp: abs_new_parser)
  have "well_placed Ground ?s" by (simp add: phase_advance_def well_placed_byte_def)
  moreover have "safe_at ?s 1" by (simp add: safe_at_def phase_of_def phase_advance_def)
  moreover have "vp_utf8_len p \<noteq> 0"
    using v by (cases "vp_utf8_len p")
      (auto simp: vadvance_def vconsume_def vdispatch_def vtext_def abs_vt_def split: vt_state.splits)
  ultimately show "\<exists>p ev chunks. advance (take 1 ?s) (new_with_size 8) = Some (p, ev) \<and>
      map_option snd (runs advance chunks p) \<noteq> map_option snd (runs advance chunks (new_with_size 8))"
    using safe_offset_sound [OF _ _ _ p] p by fastforce
qed

text \<open>
  C30.  A control byte inside an escape sequence makes the two machines disagree.  After ESC and a line
  feed the tracker calls the offset safe, but the parser is still inside the escape sequence: it takes
  the bytes that follow for a control sequence that sets the colour, while a parser that starts at the
  offset prints them.
\<close>

theorem safe_offset_inside_parser_escape:
  "safe_at ([0x1B, 0x0A] @ [0x5B, 0x33, 0x31, 0x6D]) 2 \<and>
   (\<exists>p. advance [0x1B, 0x0A] (new_with_size 8) = Some (p, [Execute 0x0A]) \<and>
      map_option snd (advance [0x5B, 0x33, 0x31, 0x6D] p) = Some [CsiDispatch [[31]] [] False 0x6D] \<and>
      map_option snd (advance [0x5B, 0x33, 0x31, 0x6D] (new_with_size 8)) =
        Some [Print 0x5B, Print 0x33, Print 0x31, Print 0x6D])"
proof -
  note ev = vadvance_def vconsume_def vdispatch_def vescape_def vexit_def vheader_def vtext_def
    hdr_empty_def hparam_def hfinal_def h_used_def hnumber_def
  have ok: "vt_ok 8 (new_with_size 8)" by (simp add: vt_ok_new)
  have a: "vadvance 8 [0x1B, 0x0A] (abs_vt (new_with_size 8)) = (VEscape False [] False, [Execute 0x0A])"
    "snd (vadvance 8 [0x5B, 0x33, 0x31, 0x6D] (abs_vt (new_with_size 8))) =
      [Print 0x5B, Print 0x33, Print 0x31, Print 0x6D]"
    by (simp_all add: abs_new_parser ev)
  have b: "snd (vadvance 8 [0x5B, 0x33, 0x31, 0x6D] (VEscape False [] False)) = [CsiDispatch [[31]] [] False 0x6D]"
    by (simp add: ev saturating_add_def saturating_mul_def)
  obtain p where p: "advance [0x1B, 0x0A] (new_with_size 8) = Some (p, [Execute 0x0A])" "vt_ok 8 p"
    "abs_vt p = VEscape False [] False"
    using vt.sim [OF ok, of "[0x1B, 0x0A]"] a(1) by auto
  have "map_option snd (advance [0x5B, 0x33, 0x31, 0x6D] p) = Some [CsiDispatch [[31]] [] False 0x6D]"
    using vt.sim [OF p(2), of "[0x5B, 0x33, 0x31, 0x6D]"] b p(3) by auto
  moreover have "map_option snd (advance [0x5B, 0x33, 0x31, 0x6D] (new_with_size 8)) =
      Some [Print 0x5B, Print 0x33, Print 0x31, Print 0x6D]"
    using vt.sim [OF ok, of "[0x5B, 0x33, 0x31, 0x6D]"] a(2) by auto
  moreover have "safe_at ([0x1B, 0x0A] @ [0x5B, 0x33, 0x31, 0x6D]) 2"
    by (simp add: safe_at_def phase_of_def phase_advance_def)
  ultimately show ?thesis using p(1) by blast
qed

end
