(* ===== verification/Output_Accounting.thy ===== *)
theory Output_Accounting
  imports Output_Fanout
begin

text \<open>
  The counter of retained output bytes that all fan-out buffers of a node share, under every
  interleaving of their threads.  Each buffer is owned by one thread, and a thread is at one of the
  points between the atomic operations of \<^verbatim>\<open>push_chunk_with_node_cap\<close> and \<^verbatim>\<open>drop\<close>.  The counter is a
  64-bit atomic, so its additions and subtractions wrap.
\<close>

section \<open>Threads\<close>

text \<open>
  \<open>Idle\<close>: between pushes.  \<open>Counted k\<close>: after the \<^verbatim>\<open>fetch_add\<close> of a chunk of \<open>k\<close> bytes, before the
  data is extended.  \<open>Looping r\<close>: at the head of the eviction loop after \<open>r\<close> failed exchanges.
  \<open>Loaded r v n\<close>: the counter was loaded as \<open>v\<close> and \<open>n\<close> bytes are to go.  \<open>Reserved n\<close>: the exchange
  succeeded, the data is not yet drained.  \<open>Popped\<close>: one byte was removed, before the \<^verbatim>\<open>fetch_sub\<close>.
  \<open>Gone\<close>: the buffer was dropped.
\<close>

datatype push_point = Idle | Counted nat | Looping nat | Loaded nat u64 nat | Reserved nat | Popped | Gone

record thread =
  th_max_bytes :: nat
  th_len :: nat
  th_at :: push_point

record node =
  nd_counter :: u64
  nd_threads :: "thread list"

text \<open>The decision of the loop head on the loaded value; the lengths are those of the data.\<close>

definition batch :: "nat \<Rightarrow> u64 \<Rightarrow> thread \<Rightarrow> nat" where
  "batch node_max retained t =
     min (max (th_len t - th_max_bytes t) (unat retained - node_max)) (th_len t)"

text \<open>One atomic step of a thread: the counter and the thread afterwards.\<close>

inductive thread_step :: "nat \<Rightarrow> u64 \<Rightarrow> thread \<Rightarrow> u64 \<Rightarrow> thread \<Rightarrow> bool" for node_max where
  count: "th_at t = Idle \<Longrightarrow> thread_step node_max c t (c + of_nat k) (t\<lparr>th_at := Counted k\<rparr>)"
| extend: "th_at t = Counted k \<Longrightarrow> thread_step node_max c t c (t\<lparr>th_len := th_len t + k, th_at := Looping 0\<rparr>)"
| leave: "th_at t = Looping r \<Longrightarrow> batch node_max c t = 0 \<Longrightarrow> thread_step node_max c t c (t\<lparr>th_at := Idle\<rparr>)"
| load: "th_at t = Looping r \<Longrightarrow> n = batch node_max c t \<Longrightarrow> n \<noteq> 0 \<Longrightarrow>
    thread_step node_max c t c (t\<lparr>th_at := Loaded r c n\<rparr>)"
| reserve: "th_at t = Loaded r v n \<Longrightarrow> c = v \<Longrightarrow>
    thread_step node_max c t (v - of_nat n) (t\<lparr>th_at := Reserved n\<rparr>)"
| retry: "th_at t = Loaded r v n \<Longrightarrow> c \<noteq> v \<Longrightarrow> r + 1 < 8 \<Longrightarrow>
    thread_step node_max c t c (t\<lparr>th_at := Looping (r + 1)\<rparr>)"
| pop: "th_at t = Loaded r v n \<Longrightarrow> c \<noteq> v \<Longrightarrow> \<not> r + 1 < 8 \<Longrightarrow>
    thread_step node_max c t c (t\<lparr>th_len := th_len t - 1, th_at := Popped\<rparr>)"
| uncount: "th_at t = Popped \<Longrightarrow> thread_step node_max c t (c - 1) (t\<lparr>th_at := Looping 0\<rparr>)"
| drain: "th_at t = Reserved n \<Longrightarrow> thread_step node_max c t c (t\<lparr>th_len := th_len t - n, th_at := Looping 0\<rparr>)"
| drop_buffer: "th_at t = Idle \<Longrightarrow> thread_step node_max c t (c - of_nat (th_len t)) (t\<lparr>th_len := 0, th_at := Gone\<rparr>)"

inductive node_step :: "nat \<Rightarrow> node \<Rightarrow> node \<Rightarrow> bool" for node_max where
  move: "i < length (nd_threads s) \<Longrightarrow> thread_step node_max (nd_counter s) (nd_threads s ! i) c t \<Longrightarrow>
    node_step node_max s (s\<lparr>nd_counter := c, nd_threads := (nd_threads s)[i := t]\<rparr>)"
| open_buffer: "node_step node_max s
    (s\<lparr>nd_threads := nd_threads s @ [\<lparr>th_max_bytes = max m 1, th_len = 0, th_at = Idle\<rparr>]\<rparr>)"

inductive reachable :: "nat \<Rightarrow> node \<Rightarrow> bool" for node_max where
  start: "reachable node_max \<lparr>nd_counter = 0, nd_threads = []\<rparr>"
| step: "reachable node_max s \<Longrightarrow> node_step node_max s s' \<Longrightarrow> reachable node_max s'"

section \<open>The invariant\<close>

text \<open>What a thread has in the counter: its bytes, and the difference it is about to settle.\<close>

fun share :: "thread \<Rightarrow> int" where
  "share t = int (th_len t) +
     (case th_at t of Counted k \<Rightarrow> int k | Reserved n \<Rightarrow> - int n | Popped \<Rightarrow> 1 | _ \<Rightarrow> 0)"

fun thread_ok :: "thread \<Rightarrow> bool" where
  "thread_ok t = (case th_at t of Loaded r v n \<Rightarrow> 0 < n \<and> n \<le> th_len t \<and> r < 8
     | Reserved n \<Rightarrow> n \<le> th_len t | Looping r \<Rightarrow> r < 8 | _ \<Rightarrow> True)"

definition node_ok :: "node \<Rightarrow> bool" where
  "node_ok s \<longleftrightarrow> (\<forall>t\<in>set (nd_threads s). thread_ok t) \<and>
     nd_counter s = of_int (sum_list (map share (nd_threads s)))"

lemma batch_le: "batch node_max c t \<le> th_len t"
  by (simp add: batch_def)

lemma thread_step_ok:
  assumes "thread_step node_max c t c' t'" and "thread_ok t"
  shows "thread_ok t' \<and> c' = c + of_int (share t' - share t)"
  using assms
  by (cases rule: thread_step.cases) (auto simp: batch_le of_nat_diff)

lemma sum_list_update_int:
  "i < length xs \<Longrightarrow> sum_list (map f (xs[i := y])) = sum_list (map f xs) + (f y - f (xs ! i) :: int)"
proof (induction xs arbitrary: i)
  case (Cons x xs)
  then show ?case by (cases i) simp_all
qed simp

lemma node_step_ok:
  assumes "node_step node_max s s'" and "node_ok s"
  shows "node_ok s'"
  using assms
proof (cases rule: node_step.cases)
  case (move i c t)
  with assms(2) have "thread_ok (nd_threads s ! i)" by (simp add: node_ok_def)
  note one = thread_step_ok [OF move(3) this]
  have "\<forall>t\<in>set ((nd_threads s)[i := t]). thread_ok t"
    using one assms(2) set_update_subset_insert [of "nd_threads s" i t] by (auto simp: node_ok_def)
  with one move assms(2) show ?thesis by (simp add: node_ok_def sum_list_update_int del: share.simps)
next
  case (open_buffer m)
  with assms(2) show ?thesis by (auto simp: node_ok_def)
qed

lemma reachable_ok: "reachable node_max s \<Longrightarrow> node_ok s"
proof (induction rule: reachable.induct)
  case start
  show ?case by (simp add: node_ok_def)
next
  case (step s s')
  then show ?case by (blast intro: node_step_ok)
qed

lemma sum_list_int: "sum_list (map (int \<circ> f) xs) = int (sum_list (map f xs))"
  by (induction xs) simp_all

lemma share_nonneg: "thread_ok t \<Longrightarrow> 0 \<le> share t"
  by (auto split: push_point.splits)

lemma share_le_total:
  "\<forall>t\<in>set ts. thread_ok t \<Longrightarrow> t \<in> set ts \<Longrightarrow> share t \<le> sum_list (map share ts)"
  using member_le_sum_list [of "share t" "map share ts"]
  by (intro member_le_sum_list) (auto simp del: share.simps thread_ok.simps intro: share_nonneg)

section \<open>Properties\<close>

text \<open>
  C26.  Exact accounting.  Under every interleaving of any number of buffers, as long as the retained
  bytes fit in memory, the shared counter is the sum of what the threads have in it; so every
  subtraction is of a share that is in the counter and none wraps, and when no push is in progress the
  counter is exactly the number of bytes retained.
\<close>

theorem accounting_exact:
  assumes "reachable node_max s" and "sum_list (map share (nd_threads s)) < 2 ^ 64"
  shows "int (unat (nd_counter s)) = sum_list (map share (nd_threads s)) \<and>
    (\<forall>t\<in>set (nd_threads s). share t \<le> int (unat (nd_counter s))) \<and>
    ((\<forall>t\<in>set (nd_threads s). th_at t = Idle \<or> th_at t = Gone) \<longrightarrow>
       unat (nd_counter s) = sum_list (map th_len (nd_threads s)))"
proof -
  let ?total = "sum_list (map share (nd_threads s))"
  have ok: "\<forall>t\<in>set (nd_threads s). thread_ok t" and c: "nd_counter s = of_int ?total"
    using reachable_ok [OF assms(1)] by (simp_all add: node_ok_def)
  have "0 \<le> ?total" by (rule sum_list_nonneg) (use ok share_nonneg in auto)
  then have eq: "int (unat (nd_counter s)) = ?total"
    using assms(2) by (simp add: c unat_eq_nat_uint uint_word_of_int del: share.simps)
  moreover have "\<forall>t\<in>set (nd_threads s). share t \<le> int (unat (nd_counter s))"
    unfolding eq using share_le_total [OF ok] by blast
  moreover have "unat (nd_counter s) = sum_list (map th_len (nd_threads s))"
    if "\<forall>t\<in>set (nd_threads s). th_at t = Idle \<or> th_at t = Gone"
  proof -
    have "map share (nd_threads s) = map (int \<circ> th_len) (nd_threads s)" using that by auto
    then have "?total = int (sum_list (map th_len (nd_threads s)))" by (simp only: sum_list_int)
    with eq show ?thesis by (metis of_nat_eq_iff)
  qed
  ultimately show ?thesis by blast
qed

definition demo_thread :: "push_point \<Rightarrow> thread" where
  "demo_thread p = \<lparr>th_max_bytes = 9, th_len = 0, th_at = p\<rparr>"

lemma demo_reachable: "reachable 100 \<lparr>nd_counter = 3, nd_threads = [demo_thread (Counted 3)]\<rparr>"
proof -
  let ?s = "\<lparr>nd_counter = 0, nd_threads = [demo_thread Idle]\<rparr>"
  have opened: "reachable 100 ?s"
    using reachable.step [OF reachable.start node_step.open_buffer, of 100 9] by (simp add: demo_thread_def)
  have "thread_step 100 (nd_counter ?s) (nd_threads ?s ! 0) (0 + of_nat 3) ((demo_thread Idle)\<lparr>th_at := Counted 3\<rparr>)"
    using thread_step.count [of "demo_thread Idle" 100 0 3] by (simp add: demo_thread_def)
  from reachable.step [OF opened node_step.move [OF _ this]] show ?thesis by (simp add: demo_thread_def)
qed

theorem accounting_exact_witness:
  "int (unat (nd_counter \<lparr>nd_counter = 3, nd_threads = [demo_thread (Counted 3)]\<rparr>)) = share (demo_thread (Counted 3))"
  using accounting_exact [OF demo_reachable] by (simp add: demo_thread_def)

end
