(* ===== verification/Context_State.thy ===== *)
theory Context_State
  imports Bmux_BTree "HOL-Library.List_Lexorder"
begin

text \<open>
  The context roster of \<^verbatim>\<open>plugins/contexts-plugin/src/context_state.rs\<close> with its types from
  \<^verbatim>\<open>packages/context-state\<close>, and the snapshot operations of its adapter.  A string is ordered by its
  code points, as its UTF-8 bytes are.  A new \<^verbatim>\<open>Uuid\<close> is an argument of the operation that draws it,
  and the textual form of a \<^verbatim>\<open>Uuid\<close> is a parameter: \<open>utext\<close> prints and \<open>uparse\<close> reads it.
\<close>

section \<open>Types\<close>

type_synonym attributes = "(rstring, rstring) btree"

datatype context_selector = ById uuid | ByName rstring

record context_summary =
  cs_id :: uuid
  cs_name :: "rstring option"
  cs_attributes :: attributes

record runtime_context =
  rc_id :: uuid
  rc_name :: "rstring option"
  rc_attributes :: attributes

record context_state =
  cx_contexts :: "(uuid, runtime_context) btree"
  cx_session_by_context :: "(uuid, session_id) btree"
  cx_selected_by_client :: "(client_id, uuid) btree"
  cx_mru :: "uuid list"
  cx_visited_by_client :: "(client_id, uuid list) btree"

record context_snapshot =
  sn_contexts :: "(uuid, runtime_context) btree"
  sn_session_by_context :: "(uuid, session_id) btree"
  sn_selected_by_client :: "(client_id, uuid) btree"
  sn_mru :: "uuid list"

text \<open>The messages of the operations.\<close>

datatype context_error = ContextNotFound | ContextAmbiguous

definition CONTEXT_SESSION_ID_ATTRIBUTE :: rstring where
  "CONTEXT_SESSION_ID_ATTRIBUTE = lit ''bmux.session_id''"

definition context_state_default :: context_state where
  "context_state_default = \<lparr>cx_contexts = [], cx_session_by_context = [], cx_selected_by_client = [],
     cx_mru = [], cx_visited_by_client = []\<rparr>"

section \<open>Operations\<close>

definition to_summary :: "runtime_context \<Rightarrow> context_summary" where
  "to_summary c = \<lparr>cs_id = rc_id c, cs_name = rc_name c, cs_attributes = rc_attributes c\<rparr>"

definition context_list :: "context_state \<Rightarrow> context_summary list" where
  "context_list st =
     (let ordered_ids = fold (\<lambda>i ids. if i \<in> set ids then ids else ids @ [i]) (bt_keys (cx_contexts st)) (cx_mru st)
      in map to_summary (List.map_filter (bt_get (cx_contexts st)) ordered_ids))"

definition touch_mru :: "uuid \<Rightarrow> context_state \<Rightarrow> context_state" where
  "touch_mru i st = st\<lparr>cx_mru := i # filter (\<lambda>e. e \<noteq> i) (cx_mru st)\<rparr>"

definition record_visit :: "client_id \<Rightarrow> uuid \<Rightarrow> context_state \<Rightarrow> context_state" where
  "record_visit c i st =
     (let history = (case bt_get (cx_visited_by_client st) c of None \<Rightarrow> [] | Some h \<Rightarrow> h);
          history = (if history \<noteq> [] \<and> hd history = i then history else i # filter (\<lambda>e. e \<noteq> i) history)
      in st\<lparr>cx_visited_by_client := bt_insert c history (cx_visited_by_client st)\<rparr>)"

definition context_create ::
    "uuid \<Rightarrow> client_id \<Rightarrow> rstring option \<Rightarrow> attributes \<Rightarrow> context_state \<Rightarrow> context_state \<times> context_summary" where
  "context_create new_id c name attrs st =
     (let context = \<lparr>rc_id = new_id, rc_name = name, rc_attributes = attrs\<rparr>;
          i = rc_id context;
          st = st\<lparr>cx_contexts := bt_insert i context (cx_contexts st)\<rparr>;
          st = st\<lparr>cx_selected_by_client := bt_insert c i (cx_selected_by_client st)\<rparr>;
          st = record_visit c i (touch_mru i st)
      in (st, to_summary context))"

definition context_create_bound ::
    "(uuid \<Rightarrow> rstring) \<Rightarrow> uuid \<Rightarrow> client_id \<Rightarrow> rstring option \<Rightarrow> attributes \<Rightarrow> session_id \<Rightarrow>
     context_state \<Rightarrow> context_state \<times> context_summary" where
  "context_create_bound utext new_id c name attrs sid st =
     (let attrs = bt_insert CONTEXT_SESSION_ID_ATTRIBUTE (utext (session_uuid sid)) attrs;
          (st, context) = context_create new_id c name attrs st
      in (st\<lparr>cx_session_by_context := bt_insert (cs_id context) sid (cx_session_by_context st)\<rparr>, context))"

text \<open>The selection of a client, or the most recent context that still exists.\<close>

definition selected_or_recent :: "client_id \<Rightarrow> context_state \<Rightarrow> uuid option" where
  "selected_or_recent c st =
     (case bt_get (cx_selected_by_client st) c of
        Some i \<Rightarrow> if bt_contains (cx_contexts st) i then Some i
                  else find (bt_contains (cx_contexts st)) (cx_mru st)
      | None \<Rightarrow> find (bt_contains (cx_contexts st)) (cx_mru st))"

definition current_for_client :: "client_id \<Rightarrow> context_state \<Rightarrow> context_summary option" where
  "current_for_client c st =
     do { selected \<leftarrow> selected_or_recent c st; map_option to_summary (bt_get (cx_contexts st) selected) }"

definition current_session_for_client :: "client_id \<Rightarrow> context_state \<Rightarrow> session_id option" where
  "current_session_for_client c st =
     do { selected \<leftarrow> selected_or_recent c st; bt_get (cx_session_by_context st) selected }"

definition context_for_session :: "session_id \<Rightarrow> context_state \<Rightarrow> uuid option" where
  "context_for_session sid st = map_option fst (find (\<lambda>(_, mapped). mapped = sid) (cx_session_by_context st))"

definition resolve_id :: "context_selector \<Rightarrow> context_state \<Rightarrow> context_error + uuid" where
  "resolve_id sel st =
     (case sel of
        ById i \<Rightarrow> if bt_contains (cx_contexts st) i then Ok i else Err ContextNotFound
      | ByName name \<Rightarrow>
          (case map rc_id (filter (\<lambda>c. rc_name c = Some name) (bt_values (cx_contexts st))) of
             [] \<Rightarrow> Err ContextNotFound
           | [i] \<Rightarrow> Ok i
           | _ \<Rightarrow> Err ContextAmbiguous))"

definition select_for_client ::
    "client_id \<Rightarrow> context_selector \<Rightarrow> context_state \<Rightarrow> context_state \<times> (context_error + context_summary)" where
  "select_for_client c sel st =
     (case resolve_id sel st of
        Inl e \<Rightarrow> (st, Err e)
      | Inr i \<Rightarrow>
          let st = st\<lparr>cx_selected_by_client := bt_insert c i (cx_selected_by_client st)\<rparr>;
              st = record_visit c i (touch_mru i st)
          in (st, case bt_get (cx_contexts st) i of
                    None \<Rightarrow> Err ContextNotFound | Some x \<Rightarrow> Ok (to_summary x)))"

definition context_rename ::
    "context_selector \<Rightarrow> rstring \<Rightarrow> context_state \<Rightarrow> context_state \<times> (context_error + context_summary)" where
  "context_rename sel name st =
     (case resolve_id sel st of
        Inl e \<Rightarrow> (st, Err e)
      | Inr i \<Rightarrow>
          (case bt_get (cx_contexts st) i of
             None \<Rightarrow> (st, Err ContextNotFound)
           | Some x \<Rightarrow>
               let x = x\<lparr>rc_name := Some name\<rparr>
               in (st\<lparr>cx_contexts := bt_insert i x (cx_contexts st)\<rparr>, Ok (to_summary x))))"

definition set_attributes ::
    "(rstring \<Rightarrow> uuid option) \<Rightarrow> context_selector \<Rightarrow> attributes \<Rightarrow> context_state \<Rightarrow>
     context_state \<times> (context_error + context_summary)" where
  "set_attributes uparse sel attrs st =
     (case resolve_id sel st of
        Inl e \<Rightarrow> (st, Err e)
      | Inr i \<Rightarrow>
          (case bt_get (cx_contexts st) i of
             None \<Rightarrow> (st, Err ContextNotFound)
           | Some x \<Rightarrow>
               let x = x\<lparr>rc_attributes := attrs\<rparr>;
                   st = st\<lparr>cx_contexts := bt_insert i x (cx_contexts st)\<rparr>;
                   st = (case Option.bind (bt_get (rc_attributes x) CONTEXT_SESSION_ID_ATTRIBUTE) uparse of
                           Some s \<Rightarrow> st\<lparr>cx_session_by_context := bt_insert i (SessionId s) (cx_session_by_context st)\<rparr>
                         | None \<Rightarrow> st\<lparr>cx_session_by_context := bt_remove i (cx_session_by_context st)\<rparr>)
               in (st, Ok (to_summary x))))"

text \<open>The loop over the clients that had the removed context selected.\<close>

definition reselect :: "uuid option \<Rightarrow> client_id \<Rightarrow> (client_id, uuid) btree \<Rightarrow> (client_id, uuid) btree" where
  "reselect replacement c sel =
     (case replacement of Some next_id \<Rightarrow> bt_insert c next_id sel | None \<Rightarrow> bt_remove c sel)"

definition remove_context_by_id ::
    "uuid \<Rightarrow> client_id option \<Rightarrow> context_state \<Rightarrow> context_state \<times> (uuid \<times> session_id option) option" where
  "remove_context_by_id i preferred st =
     (case bt_get (cx_contexts st) i of
        None \<Rightarrow> (st, None)
      | Some removed \<Rightarrow>
          let st = st\<lparr>cx_contexts := bt_remove i (cx_contexts st)\<rparr>;
              removed_session = bt_get (cx_session_by_context st) i;
              st = st\<lparr>cx_session_by_context := bt_remove i (cx_session_by_context st)\<rparr>;
              st = st\<lparr>cx_mru := filter (\<lambda>e. e \<noteq> i) (cx_mru st)\<rparr>;
              st = st\<lparr>cx_visited_by_client := bt_map (filter (\<lambda>e. e \<noteq> i)) (cx_visited_by_client st)\<rparr>;
              replacement = find (bt_contains (cx_contexts st)) (cx_mru st);
              impacted = map fst (filter (\<lambda>(_, selected). selected = rc_id removed) (cx_selected_by_client st));
              sel = fold (reselect replacement) impacted (cx_selected_by_client st);
              sel = (case (preferred, replacement) of
                       (Some c, Some next_id) \<Rightarrow> if bt_contains sel c then sel else bt_insert c next_id sel
                     | _ \<Rightarrow> sel)
          in (st\<lparr>cx_selected_by_client := sel\<rparr>, Some (rc_id removed, removed_session)))"

definition context_close ::
    "client_id \<Rightarrow> context_selector \<Rightarrow> context_state \<Rightarrow> context_state \<times> (context_error + (uuid \<times> session_id option))" where
  "context_close c sel st =
     (case resolve_id sel st of
        Inl e \<Rightarrow> (st, Err e)
      | Inr i \<Rightarrow>
          (case remove_context_by_id i (Some c) st of
             (st, None) \<Rightarrow> (st, Err ContextNotFound)
           | (st, Some r) \<Rightarrow> (st, Ok r)))"

fun remove_each :: "uuid list \<Rightarrow> context_state \<Rightarrow> context_state \<times> uuid list" where
  "remove_each [] st = (st, [])"
| "remove_each (i # rest) st =
     (case remove_context_by_id i None st of
        (st, None) \<Rightarrow> remove_each rest st
      | (st, Some (removed, _)) \<Rightarrow> (case remove_each rest st of (st, rs) \<Rightarrow> (st, removed # rs)))"

definition remove_contexts_for_session :: "session_id \<Rightarrow> context_state \<Rightarrow> context_state \<times> uuid list" where
  "remove_contexts_for_session sid st =
     remove_each (map fst (filter (\<lambda>(_, mapped). mapped = sid) (cx_session_by_context st))) st"

definition bind_session ::
    "(uuid \<Rightarrow> rstring) \<Rightarrow> uuid \<Rightarrow> session_id \<Rightarrow> context_state \<Rightarrow> context_state \<times> (context_error + unit)" where
  "bind_session utext i sid st =
     (case bt_get (cx_contexts st) i of
        None \<Rightarrow> (st, Err ContextNotFound)
      | Some x \<Rightarrow>
          let x = x\<lparr>rc_attributes := bt_insert CONTEXT_SESSION_ID_ATTRIBUTE (utext (session_uuid sid)) (rc_attributes x)\<rparr>
          in (st\<lparr>cx_contexts := bt_insert i x (cx_contexts st),
                 cx_session_by_context := bt_insert i sid (cx_session_by_context st)\<rparr>, Ok ()))"

definition disconnect_client :: "client_id \<Rightarrow> context_state \<Rightarrow> context_state" where
  "disconnect_client c st =
     st\<lparr>cx_selected_by_client := bt_remove c (cx_selected_by_client st),
        cx_visited_by_client := bt_remove c (cx_visited_by_client st)\<rparr>"

text \<open>The write of \<^verbatim>\<open>rollback_context_rename\<close>, which can also take a name away.\<close>

definition set_context_name :: "uuid \<Rightarrow> rstring option \<Rightarrow> context_state \<Rightarrow> context_state" where
  "set_context_name i name st =
     (case bt_get (cx_contexts st) i of
        None \<Rightarrow> st
      | Some x \<Rightarrow> st\<lparr>cx_contexts := bt_insert i (x\<lparr>rc_name := name\<rparr>) (cx_contexts st)\<rparr>)"

section \<open>Snapshots\<close>

definition context_snapshot_of :: "context_state \<Rightarrow> context_snapshot" where
  "context_snapshot_of st =
     \<lparr>sn_contexts = map (\<lambda>(i, rc). (i, \<lparr>rc_id = rc_id rc, rc_name = rc_name rc, rc_attributes = rc_attributes rc\<rparr>))
                      (cx_contexts st),
      sn_session_by_context = cx_session_by_context st,
      sn_selected_by_client = cx_selected_by_client st, sn_mru = cx_mru st\<rparr>"

definition context_snapshot_default :: context_snapshot where
  "context_snapshot_default =
     \<lparr>sn_contexts = [], sn_session_by_context = [], sn_selected_by_client = [], sn_mru = []\<rparr>"

definition contexts_snapshot :: "context_state rwlock \<Rightarrow> context_snapshot" where
  "contexts_snapshot lk = with_read context_snapshot_of context_snapshot_default lk"

definition contexts_restore_snapshot ::
    "context_snapshot \<Rightarrow> context_state rwlock \<Rightarrow> context_state rwlock" where
  "contexts_restore_snapshot sn lk =
     fst (with_write (\<lambda>st. (st\<lparr>cx_contexts := sn_contexts sn, cx_session_by_context := sn_session_by_context sn,
       cx_selected_by_client := sn_selected_by_client sn, cx_mru := sn_mru sn,
       cx_visited_by_client := []\<rparr>, ())) () lk)"

end
