(* ===== verification/Context_Correct.thy ===== *)
theory Context_Correct
  imports Context_State
begin

text \<open>
  The invariant of the context roster, that every operation keeps it, and what closing, listing,
  selecting, resolving and restoring do.
\<close>

section \<open>The invariant\<close>

definition context_ok :: "context_state \<Rightarrow> bool" where
  "context_ok st \<longleftrightarrow>
     bt_wf (cx_contexts st) \<and> bt_wf (cx_session_by_context st) \<and> bt_wf (cx_selected_by_client st) \<and>
     bt_wf (cx_visited_by_client st) \<and>
     (\<forall>i x. bt_get (cx_contexts st) i = Some x \<longrightarrow> rc_id x = i) \<and>
     (\<forall>i s. bt_get (cx_session_by_context st) i = Some s \<longrightarrow> bt_contains (cx_contexts st) i) \<and>
     (\<forall>c i. bt_get (cx_selected_by_client st) c = Some i \<longrightarrow> bt_contains (cx_contexts st) i) \<and>
     distinct (cx_mru st) \<and> (\<forall>i. i \<in> set (cx_mru st) \<longleftrightarrow> bt_contains (cx_contexts st) i) \<and>
     (\<forall>c h. bt_get (cx_visited_by_client st) c = Some h \<longrightarrow>
        distinct h \<and> (\<forall>i\<in>set h. bt_contains (cx_contexts st) i))"

text \<open>Every binding is stamped on its context.\<close>

definition stamped :: "(rstring \<Rightarrow> uuid option) \<Rightarrow> context_state \<Rightarrow> bool" where
  "stamped uparse st \<longleftrightarrow>
     (\<forall>i s. bt_get (cx_session_by_context st) i = Some s \<longrightarrow>
        (\<exists>x. bt_get (cx_contexts st) i = Some x \<and>
             Option.bind (bt_get (rc_attributes x) CONTEXT_SESSION_ID_ATTRIBUTE) uparse = Some (session_uuid s)))"

lemma context_ok_default: "context_ok context_state_default"
  by (simp add: context_ok_def context_state_default_def bt_contains_def)

lemma stamped_default: "stamped uparse context_state_default"
  by (simp add: stamped_def context_state_default_def)

lemma touch_visit_ok:
  assumes "context_ok st" and "bt_contains (cx_contexts st) i"
  shows "context_ok (record_visit c i (touch_mru i
           (st\<lparr>cx_selected_by_client := bt_insert c i (cx_selected_by_client st)\<rparr>)))"
  using assms
  by (auto simp: context_ok_def touch_mru_def record_visit_def Let_def btree hd_in_set split: option.splits if_splits)

lemma context_create_ok:
  assumes "context_ok st" and "context_create new_id c name attrs st = (st', s)"
  shows "context_ok st'"
  using assms
  by (auto simp: context_ok_def context_create_def touch_mru_def record_visit_def Let_def btree
      split: option.splits if_splits)

lemma context_create_fields:
  assumes "context_create new_id c name attrs st = (st', s)"
  shows "cx_contexts st' = bt_insert new_id \<lparr>rc_id = new_id, rc_name = name, rc_attributes = attrs\<rparr> (cx_contexts st)"
    and "cx_session_by_context st' = cx_session_by_context st" and "cs_id s = new_id"
  using assms by (auto simp: context_create_def touch_mru_def record_visit_def Let_def to_summary_def)

lemma context_create_bound_ok:
  assumes "context_ok st" and "context_create_bound utext new_id c name attrs sid st = (st', s)"
  shows "context_ok st'"
proof -
  obtain st1 where one: "context_create new_id c name
      (bt_insert CONTEXT_SESSION_ID_ATTRIBUTE (utext (session_uuid sid)) attrs) st = (st1, s)"
    and st': "st' = st1\<lparr>cx_session_by_context := bt_insert (cs_id s) sid (cx_session_by_context st1)\<rparr>"
    using assms(2) by (auto simp: context_create_bound_def Let_def split: prod.splits)
  have "bt_contains (cx_contexts st1) (cs_id s)"
    using context_create_fields [OF one] by (simp add: btree)
  with context_create_ok [OF assms(1) one] st' show ?thesis
    by (auto simp: context_ok_def btree split: if_splits)
qed

lemma resolve_id_Ok:
  "context_ok st \<Longrightarrow> resolve_id sel st = Inr i \<Longrightarrow> bt_contains (cx_contexts st) i"
proof -
  assume ok: "context_ok st" and r: "resolve_id sel st = Inr i"
  show ?thesis
  proof (cases sel)
    case (ByName name)
    with r have "map rc_id (filter (\<lambda>c. rc_name c = Some name) (bt_values (cx_contexts st))) = [i]"
      by (auto simp: resolve_id_def split: list.splits)
    then have "i \<in> rc_id ` set (bt_values (cx_contexts st))" by (auto simp: map_eq_Cons_conv filter_eq_Cons_iff)
    with ok show ?thesis by (auto simp: context_ok_def bt_values_iff btree)
  qed (use r in \<open>auto simp: resolve_id_def split: if_splits\<close>)
qed

lemma select_for_client_ok: "context_ok st \<Longrightarrow> context_ok (fst (select_for_client c sel st))"
  using touch_visit_ok resolve_id_Ok by (auto simp: select_for_client_def Let_def split: sum.splits)

lemma contexts_update_ok:
  "context_ok st \<Longrightarrow> bt_get (cx_contexts st) i = Some x \<Longrightarrow> rc_id y = rc_id x \<Longrightarrow>
   context_ok (st\<lparr>cx_contexts := bt_insert i y (cx_contexts st)\<rparr>)"
  by (auto simp: context_ok_def btree)

lemma rebind_ok:
  assumes "context_ok st" and "bt_get (cx_contexts st) i = Some x" and "rc_id y = rc_id x"
  shows "context_ok (st\<lparr>cx_contexts := bt_insert i y (cx_contexts st),
           cx_session_by_context := bt_insert i s (cx_session_by_context st)\<rparr>)"
    and "context_ok (st\<lparr>cx_contexts := bt_insert i y (cx_contexts st),
           cx_session_by_context := bt_remove i (cx_session_by_context st)\<rparr>)"
  using assms by (auto simp: context_ok_def btree split: if_splits)

lemma context_rename_ok: "context_ok st \<Longrightarrow> context_ok (fst (context_rename sel name st))"
  by (auto simp: context_rename_def Let_def intro!: contexts_update_ok split: sum.split option.split)

lemma set_attributes_ok: "context_ok st \<Longrightarrow> context_ok (fst (set_attributes uparse sel attrs st))"
  by (auto simp: set_attributes_def Let_def intro: rebind_ok split: sum.split option.split)

lemma bind_session_ok: "context_ok st \<Longrightarrow> context_ok (fst (bind_session utext i sid st))"
  by (auto simp: bind_session_def Let_def intro: rebind_ok split: option.split)

lemma disconnect_client_ok: "context_ok st \<Longrightarrow> context_ok (disconnect_client c st)"
  by (auto simp: context_ok_def disconnect_client_def btree split: if_splits)

section \<open>Removing a context\<close>

lemma bt_get_fold_reselect:
  "bt_wf sel \<Longrightarrow> bt_get (fold (reselect r) cs sel) c = (if c \<in> set cs then r else bt_get sel c)"
proof (induction cs arbitrary: sel)
  case (Cons d cs)
  have "bt_wf (reselect r d sel)" using Cons.prems by (simp add: reselect_def split: option.split)
  with Cons show ?case by (auto simp: reselect_def btree split: option.splits)
qed simp

lemma bt_wf_fold_reselect: "bt_wf sel \<Longrightarrow> bt_wf (fold (reselect r) cs sel)"
  by (induction cs arbitrary: sel) (auto simp: reselect_def split: option.splits)

text \<open>
  What a removal leaves: the context is gone from every table, everything else stays, and the
  clients that had it selected get the most recent context that remains.
\<close>

lemma remove_context_by_id_result:
  assumes ok: "context_ok st" and i: "bt_get (cx_contexts st) i = Some x"
    and r: "remove_context_by_id i pref st = (st', res)"
    and repl: "repl = (case filter (\<lambda>e. e \<noteq> i) (cx_mru st) of [] \<Rightarrow> None | j # _ \<Rightarrow> Some j)"
  shows "res = Some (i, bt_get (cx_session_by_context st) i)"
    and "cx_contexts st' = bt_remove i (cx_contexts st)"
    and "cx_session_by_context st' = bt_remove i (cx_session_by_context st)"
    and "cx_mru st' = filter (\<lambda>e. e \<noteq> i) (cx_mru st)"
    and "cx_visited_by_client st' = bt_map (filter (\<lambda>e. e \<noteq> i)) (cx_visited_by_client st)"
    and "bt_get (cx_selected_by_client st') c =
      (if bt_get (cx_selected_by_client st) c = Some i then repl
       else if bt_get (cx_selected_by_client st) c = None \<and> pref = Some c then repl
       else bt_get (cx_selected_by_client st) c)"
    and "bt_wf (cx_selected_by_client st')"
proof -
  have x: "rc_id x = i" and wf: "bt_wf (cx_contexts st)" "bt_wf (cx_selected_by_client st)"
    using ok i by (auto simp: context_ok_def)
  have mru: "bt_contains (bt_remove i (cx_contexts st)) j" if "j \<in> set (filter (\<lambda>e. e \<noteq> i) (cx_mru st))" for j
    using that ok wf by (auto simp: context_ok_def btree)
  have find: "find (bt_contains (bt_remove i (cx_contexts st))) (filter (\<lambda>e. e \<noteq> i) (cx_mru st)) = repl"
    unfolding repl using mru by (cases "filter (\<lambda>e. e \<noteq> i) (cx_mru st)") auto
  define impacted where
    "impacted = map fst (filter (\<lambda>(_, selected). selected = i) (cx_selected_by_client st))"
  have imp: "c \<in> set impacted \<longleftrightarrow> bt_get (cx_selected_by_client st) c = Some i" for c
    using wf(2) by (auto simp: impacted_def bt_set_iff [symmetric] image_iff)
  define sel where "sel = fold (reselect repl) impacted (cx_selected_by_client st)"
  have sel: "bt_wf sel" "\<And>c. bt_get sel c = (if bt_get (cx_selected_by_client st) c = Some i then repl
      else bt_get (cx_selected_by_client st) c)"
    by (simp_all add: sel_def bt_wf_fold_reselect wf(2) bt_get_fold_reselect imp)
  define final where "final = (case (pref, repl) of
      (Some c, Some next_id) \<Rightarrow> if bt_contains sel c then sel else bt_insert c next_id sel | _ \<Rightarrow> sel)"
  have un: "(st', res) = (st\<lparr>cx_contexts := bt_remove i (cx_contexts st),
      cx_session_by_context := bt_remove i (cx_session_by_context st), cx_mru := filter (\<lambda>e. e \<noteq> i) (cx_mru st),
      cx_visited_by_client := bt_map (filter (\<lambda>e. e \<noteq> i)) (cx_visited_by_client st),
      cx_selected_by_client := final\<rparr>, Some (i, bt_get (cx_session_by_context st) i))"
    unfolding r [symmetric] remove_context_by_id_def i final_def
    by (cases pref; cases repl) (simp_all add: Let_def x find impacted_def [symmetric] sel_def)
  show "res = Some (i, bt_get (cx_session_by_context st) i)"
    and "cx_contexts st' = bt_remove i (cx_contexts st)"
    and "cx_session_by_context st' = bt_remove i (cx_session_by_context st)"
    and "cx_mru st' = filter (\<lambda>e. e \<noteq> i) (cx_mru st)"
    and "cx_visited_by_client st' = bt_map (filter (\<lambda>e. e \<noteq> i)) (cx_visited_by_client st)"
    using un by auto
  have "cx_selected_by_client st' = final" using un by auto
  then show "bt_get (cx_selected_by_client st') c =
      (if bt_get (cx_selected_by_client st) c = Some i then repl
       else if bt_get (cx_selected_by_client st) c = None \<and> pref = Some c then repl
       else bt_get (cx_selected_by_client st) c)"
    and "bt_wf (cx_selected_by_client st')"
    using sel by (auto simp: final_def btree split: option.splits)
qed

lemma remove_context_by_id_None: "bt_get (cx_contexts st) i = None \<Longrightarrow> remove_context_by_id i pref st = (st, None)"
  by (simp add: remove_context_by_id_def)

lemma replacement_contained:
  assumes "context_ok st" and "(case filter (\<lambda>e. e \<noteq> i) (cx_mru st) of [] \<Rightarrow> None | j # _ \<Rightarrow> Some j) = Some j"
  shows "j \<noteq> i \<and> bt_contains (cx_contexts st) j"
proof -
  obtain rest where "filter (\<lambda>e. e \<noteq> i) (cx_mru st) = j # rest" using assms(2) by (auto split: list.splits)
  then have "j \<in> set (filter (\<lambda>e. e \<noteq> i) (cx_mru st))" by simp
  with assms(1) show ?thesis by (auto simp: context_ok_def)
qed

lemma remove_context_by_id_ok:
  assumes ok: "context_ok st" and r: "remove_context_by_id i pref st = (st', res)"
  shows "context_ok st'"
proof (cases "bt_get (cx_contexts st) i")
  case None
  with r ok show ?thesis by (simp add: remove_context_by_id_None)
next
  case (Some x)
  define repl where "repl = (case filter (\<lambda>e. e \<noteq> i) (cx_mru st) of [] \<Rightarrow> None | j # _ \<Rightarrow> Some j)"
  note res = remove_context_by_id_result [OF ok Some r repl_def]
  have contains: "bt_contains (cx_contexts st') j \<longleftrightarrow> j \<noteq> i \<and> bt_contains (cx_contexts st) j" for j
    using ok by (auto simp: res(2) context_ok_def btree)
  have "bt_contains (cx_contexts st') j" if "bt_get (cx_selected_by_client st') c = Some j" for c j
  proof (cases "repl = Some j")
    case True
    then show ?thesis using replacement_contained [OF ok, of i j] contains by (simp add: repl_def)
  next
    case False
    with that res(6) [of c] have "bt_get (cx_selected_by_client st) c = Some j" "j \<noteq> i" by (auto split: if_splits)
    then show ?thesis using ok contains by (simp add: context_ok_def)
  qed
  moreover have "bt_wf (cx_contexts st')" "bt_wf (cx_session_by_context st')" "bt_wf (cx_visited_by_client st')"
    using ok res(2,3,5) by (auto simp: context_ok_def)
  moreover have "\<forall>i x. bt_get (cx_contexts st') i = Some x \<longrightarrow> rc_id x = i"
    using ok by (auto simp: res(2) context_ok_def btree split: if_splits)
  moreover have "\<forall>j s. bt_get (cx_session_by_context st') j = Some s \<longrightarrow> bt_contains (cx_contexts st') j"
    using ok contains by (auto simp: res(3) context_ok_def btree split: if_splits)
  moreover have "distinct (cx_mru st')" "\<forall>j. j \<in> set (cx_mru st') \<longleftrightarrow> bt_contains (cx_contexts st') j"
    using ok contains by (auto simp: res(4) context_ok_def)
  moreover have "\<forall>c h. bt_get (cx_visited_by_client st') c = Some h \<longrightarrow>
        distinct h \<and> (\<forall>i\<in>set h. bt_contains (cx_contexts st') i)"
    using ok contains by (auto simp: res(5) context_ok_def btree)
  ultimately show ?thesis using res(7) unfolding context_ok_def by blast
qed

lemma remove_each_ok: "context_ok st \<Longrightarrow> context_ok (fst (remove_each is st))"
proof (induction "is" arbitrary: st)
  case (Cons i rest)
  obtain st1 res where r: "remove_context_by_id i None st = (st1, res)" by fastforce
  note IH = Cons.IH [OF remove_context_by_id_ok [OF Cons.prems r]]
  then show ?case by (auto simp: r case_prod_unfold split: option.split)
qed simp

lemma context_close_ok: "context_ok st \<Longrightarrow> context_ok (fst (context_close c sel st))"
  using remove_context_by_id_ok by (auto simp: context_close_def split: sum.split prod.split option.split)

lemma remove_contexts_for_session_ok: "context_ok st \<Longrightarrow> context_ok (fst (remove_contexts_for_session sid st))"
  by (simp add: remove_contexts_for_session_def remove_each_ok)

section \<open>Snapshots\<close>

text \<open>
  A snapshot that describes a coherent roster.  Restoring does not check this: the snapshots that the
  plugin writes have the property, and one that was written or edited elsewhere need not.
\<close>

definition snapshot_ok :: "context_snapshot \<Rightarrow> bool" where
  "snapshot_ok sn \<longleftrightarrow>
     bt_wf (sn_contexts sn) \<and> bt_wf (sn_session_by_context sn) \<and> bt_wf (sn_selected_by_client sn) \<and>
     (\<forall>i x. bt_get (sn_contexts sn) i = Some x \<longrightarrow> rc_id x = i) \<and>
     (\<forall>i s. bt_get (sn_session_by_context sn) i = Some s \<longrightarrow> bt_contains (sn_contexts sn) i) \<and>
     (\<forall>c i. bt_get (sn_selected_by_client sn) c = Some i \<longrightarrow> bt_contains (sn_contexts sn) i) \<and>
     distinct (sn_mru sn) \<and> (\<forall>i. i \<in> set (sn_mru sn) \<longleftrightarrow> bt_contains (sn_contexts sn) i)"

text \<open>Whose bindings are moreover stamped on their contexts.\<close>

definition stamped_snapshot :: "(rstring \<Rightarrow> uuid option) \<Rightarrow> context_snapshot \<Rightarrow> bool" where
  "stamped_snapshot uparse sn \<longleftrightarrow> snapshot_ok sn \<and>
     (\<forall>i s. bt_get (sn_session_by_context sn) i = Some s \<longrightarrow>
        (\<exists>x. bt_get (sn_contexts sn) i = Some x \<and>
             Option.bind (bt_get (rc_attributes x) CONTEXT_SESSION_ID_ATTRIBUTE) uparse = Some (session_uuid s)))"

lemma snapshot_contexts [simp]: "sn_contexts (context_snapshot_of st) = cx_contexts st"
  by (auto simp: context_snapshot_of_def intro!: map_idI)

lemma snapshot_tables [simp]:
  "sn_session_by_context (context_snapshot_of st) = cx_session_by_context st"
  "sn_selected_by_client (context_snapshot_of st) = cx_selected_by_client st"
  "sn_mru (context_snapshot_of st) = cx_mru st"
  by (simp_all add: context_snapshot_of_def)

lemma snapshot_of_ok: "context_ok st \<Longrightarrow> snapshot_ok (context_snapshot_of st)"
  by (auto simp: context_ok_def snapshot_ok_def)

lemma snapshot_of_stamped:
  "context_ok st \<Longrightarrow> stamped uparse st \<Longrightarrow> stamped_snapshot uparse (context_snapshot_of st)"
  by (simp add: stamped_snapshot_def snapshot_of_ok stamped_def)

lemma restore_ok:
  "context_ok (lk_inner lk) \<Longrightarrow> snapshot_ok sn \<Longrightarrow> context_ok (lk_inner (contexts_restore_snapshot sn lk))"
  by (auto simp: contexts_restore_snapshot_def with_write_def context_ok_def snapshot_ok_def)

lemma restore_stamped:
  "stamped uparse (lk_inner lk) \<Longrightarrow> stamped_snapshot uparse sn \<Longrightarrow>
   stamped uparse (lk_inner (contexts_restore_snapshot sn lk))"
  by (auto simp: contexts_restore_snapshot_def with_write_def stamped_def stamped_snapshot_def)

lemma restore_context_snapshot:
  "contexts_restore_snapshot (context_snapshot_of st) \<lparr>lk_poisoned = False, lk_inner = st0\<rparr> =
     \<lparr>lk_poisoned = False, lk_inner = st\<lparr>cx_visited_by_client := []\<rparr>\<rparr>"
  by (cases st) (simp add: contexts_restore_snapshot_def with_write_def)

lemma set_context_name_ok: "context_ok st \<Longrightarrow> context_ok (set_context_name i name st)"
  by (auto simp: set_context_name_def intro!: contexts_update_ok split: option.split)

section \<open>Reachable rosters\<close>

text \<open>
  The rosters that the operations build: a new identifier is not that of a context in use, and the
  snapshots that are restored are those of a given kind.
\<close>

inductive ctx_built ::
    "(context_snapshot \<Rightarrow> bool) \<Rightarrow> (uuid \<Rightarrow> rstring) \<Rightarrow> (rstring \<Rightarrow> uuid option) \<Rightarrow> context_state \<Rightarrow> bool"
  for ok utext uparse where
  ctx_init: "ctx_built ok utext uparse context_state_default"
| ctx_create: "ctx_built ok utext uparse st \<Longrightarrow> \<not> bt_contains (cx_contexts st) i \<Longrightarrow>
    ctx_built ok utext uparse (fst (context_create i c name attrs st))"
| ctx_create_bound: "ctx_built ok utext uparse st \<Longrightarrow> \<not> bt_contains (cx_contexts st) i \<Longrightarrow>
    ctx_built ok utext uparse (fst (context_create_bound utext i c name attrs sid st))"
| ctx_select: "ctx_built ok utext uparse st \<Longrightarrow> ctx_built ok utext uparse (fst (select_for_client c sel st))"
| ctx_rename: "ctx_built ok utext uparse st \<Longrightarrow> ctx_built ok utext uparse (fst (context_rename sel name st))"
| ctx_attributes: "ctx_built ok utext uparse st \<Longrightarrow>
    ctx_built ok utext uparse (fst (set_attributes uparse sel attrs st))"
| ctx_close: "ctx_built ok utext uparse st \<Longrightarrow> ctx_built ok utext uparse (fst (context_close c sel st))"
| ctx_remove: "ctx_built ok utext uparse st \<Longrightarrow>
    ctx_built ok utext uparse (fst (remove_context_by_id i pref st))"
| ctx_remove_session: "ctx_built ok utext uparse st \<Longrightarrow>
    ctx_built ok utext uparse (fst (remove_contexts_for_session sid st))"
| ctx_bind: "ctx_built ok utext uparse st \<Longrightarrow> ctx_built ok utext uparse (fst (bind_session utext i sid st))"
| ctx_disconnect: "ctx_built ok utext uparse st \<Longrightarrow> ctx_built ok utext uparse (disconnect_client c st)"
| ctx_set_name: "ctx_built ok utext uparse st \<Longrightarrow> ctx_built ok utext uparse (set_context_name i name' st)"
| ctx_restore: "ctx_built ok utext uparse (lk_inner lk) \<Longrightarrow> ok sn \<Longrightarrow>
    ctx_built ok utext uparse (lk_inner (contexts_restore_snapshot sn lk))"

text \<open>The reachable rosters are those built with restores of coherent snapshots.\<close>

abbreviation ctx_reachable :: "(uuid \<Rightarrow> rstring) \<Rightarrow> (rstring \<Rightarrow> uuid option) \<Rightarrow> context_state \<Rightarrow> bool" where
  "ctx_reachable \<equiv> ctx_built snapshot_ok"

lemma ctx_built_ok:
  assumes snap: "\<And>sn. ok sn \<Longrightarrow> snapshot_ok sn" and "ctx_built ok utext uparse st"
  shows "context_ok st"
  using assms(2)
proof (induction rule: ctx_built.induct)
  case (ctx_create st i c name attrs)
  then show ?case by (metis context_create_ok prod.collapse)
next
  case (ctx_create_bound st i c name attrs sid)
  then show ?case by (metis context_create_bound_ok prod.collapse)
next
  case (ctx_remove st i pref)
  then show ?case by (metis remove_context_by_id_ok prod.collapse)
qed (simp_all add: context_ok_default select_for_client_ok context_rename_ok set_attributes_ok context_close_ok
    remove_contexts_for_session_ok bind_session_ok disconnect_client_ok set_context_name_ok restore_ok snap)

lemma ctx_reachable_ok: "ctx_reachable utext uparse st \<Longrightarrow> context_ok st"
  by (rule ctx_built_ok)

section \<open>Stamps\<close>

lemma stamped_mono:
  assumes "stamped uparse st"
    and "\<And>i s. bt_get (cx_session_by_context st') i = Some s \<Longrightarrow>
      bt_get (cx_session_by_context st) i = Some s \<and>
      (\<forall>x. bt_get (cx_contexts st) i = Some x \<longrightarrow>
        (\<exists>y. bt_get (cx_contexts st') i = Some y \<and> rc_attributes y = rc_attributes x))"
  shows "stamped uparse st'"
  using assms unfolding stamped_def by metis

lemma stamped_same:
  "stamped uparse st \<Longrightarrow> cx_contexts st' = cx_contexts st \<Longrightarrow>
   cx_session_by_context st' = cx_session_by_context st \<Longrightarrow> stamped uparse st'"
  by (simp add: stamped_def)

lemma stamped_restamp:
  assumes "stamped uparse st"
    and "Option.bind (bt_get (rc_attributes x) CONTEXT_SESSION_ID_ATTRIBUTE) uparse = Some (session_uuid s)"
  shows "stamped uparse (st\<lparr>cx_contexts := bt_insert i x (cx_contexts st),
           cx_session_by_context := bt_insert i s (cx_session_by_context st)\<rparr>)"
  using assms by (auto simp: stamped_def btree)

lemma stamped_create:
  assumes "stamped uparse st" and "context_ok st" and "\<not> bt_contains (cx_contexts st) i"
    and "context_create i c name attrs st = (st', s)"
  shows "stamped uparse st'"
proof (rule stamped_mono [OF assms(1)])
  fix j t assume "bt_get (cx_session_by_context st') j = Some t"
  then have j: "bt_get (cx_session_by_context st) j = Some t" by (simp add: context_create_fields [OF assms(4)])
  with assms(2,3) have "j \<noteq> i" by (auto simp: context_ok_def)
  with j show "bt_get (cx_session_by_context st) j = Some t \<and>
      (\<forall>x. bt_get (cx_contexts st) j = Some x \<longrightarrow>
        (\<exists>y. bt_get (cx_contexts st') j = Some y \<and> rc_attributes y = rc_attributes x))"
    by (simp add: context_create_fields [OF assms(4)] btree)
qed

lemma stamped_create_bound:
  assumes printed: "\<And>u. uparse (utext u) = Some u"
    and "stamped uparse st" and "context_ok st" and "\<not> bt_contains (cx_contexts st) i"
    and "context_create_bound utext i c name attrs sid st = (st', s)"
  shows "stamped uparse st'"
proof -
  let ?attrs = "bt_insert CONTEXT_SESSION_ID_ATTRIBUTE (utext (session_uuid sid)) attrs"
  obtain st1 where one: "context_create i c name ?attrs st = (st1, s)"
    and st': "st' = st1\<lparr>cx_session_by_context := bt_insert (cs_id s) sid (cx_session_by_context st1)\<rparr>"
    using assms(5) by (auto simp: context_create_bound_def Let_def split: prod.splits)
  note f = context_create_fields [OF one]
  have "\<exists>y. bt_get (cx_contexts st') j = Some y \<and>
      Option.bind (bt_get (rc_attributes y) CONTEXT_SESSION_ID_ATTRIBUTE) uparse = Some (session_uuid t)"
    if "bt_get (cx_session_by_context st') j = Some t" for j t
    using that printed assms(2) by (cases "j = i") (auto simp: stamped_def st' f btree)
  then show ?thesis by (simp add: stamped_def)
qed

lemma stamped_remove:
  assumes "stamped uparse st" and ok: "context_ok st" and r: "remove_context_by_id i pref st = (st', res)"
  shows "stamped uparse st'"
proof (cases "bt_get (cx_contexts st) i")
  case None
  with r assms(1) show ?thesis by (simp add: remove_context_by_id_None)
next
  case (Some x)
  note res = remove_context_by_id_result [OF ok Some r refl]
  show ?thesis
    using ok by (intro stamped_mono [OF assms(1)]) (auto simp: res(2,3) context_ok_def btree split: if_splits)
qed

lemma stamped_remove_each: "stamped uparse st \<Longrightarrow> context_ok st \<Longrightarrow> stamped uparse (fst (remove_each is st))"
proof (induction "is" arbitrary: st)
  case (Cons i rest)
  obtain st1 res where r: "remove_context_by_id i None st = (st1, res)" by fastforce
  note IH = Cons.IH [OF stamped_remove [OF Cons.prems r] remove_context_by_id_ok [OF Cons.prems(2) r]]
  then show ?case by (auto simp: r case_prod_unfold split: option.split)
qed simp

lemma select_for_client_tables:
  "cx_contexts (fst (select_for_client c sel st)) = cx_contexts st"
  "cx_session_by_context (fst (select_for_client c sel st)) = cx_session_by_context st"
  by (simp_all add: select_for_client_def record_visit_def touch_mru_def Let_def split: sum.split)

lemma stamped_rename: "stamped uparse st \<Longrightarrow> stamped uparse (fst (context_rename sel name st))"
  by (auto simp: context_rename_def Let_def btree intro!: stamped_mono [of uparse st] split: sum.split option.split)

lemma stamped_set_attributes:
  assumes "context_ok st" and "stamped uparse st"
  shows "stamped uparse (fst (set_attributes uparse sel attrs st))"
proof (cases "resolve_id sel st")
  case (Inr i)
  then obtain x where x: "bt_get (cx_contexts st) i = Some x"
    using resolve_id_Ok [OF assms(1)] by (auto simp: btree)
  show ?thesis
  proof (cases "Option.bind (bt_get attrs CONTEXT_SESSION_ID_ATTRIBUTE) uparse")
    case None
    then show ?thesis using assms Inr x
      by (auto simp: set_attributes_def Let_def stamped_def context_ok_def btree)
  next
    case (Some u)
    then show ?thesis using stamped_restamp [OF assms(2), of "x\<lparr>rc_attributes := attrs\<rparr>" "SessionId u" i] Inr x
      by (simp add: set_attributes_def Let_def)
  qed
qed (simp add: set_attributes_def assms(2))

lemma stamped_bind:
  assumes "\<And>u. uparse (utext u) = Some u" and "stamped uparse st"
  shows "stamped uparse (fst (bind_session utext i sid st))"
  using assms(2)
  by (auto simp: bind_session_def Let_def assms(1) btree intro!: stamped_restamp split: option.split)

lemma stamped_set_name: "stamped uparse st \<Longrightarrow> stamped uparse (set_context_name i name st)"
  by (auto simp: set_context_name_def btree intro!: stamped_mono [of uparse st] split: option.split)

lemma stamped_built_ok: "ctx_built (stamped_snapshot uparse) utext uparse st \<Longrightarrow> context_ok st"
  by (rule ctx_built_ok) (simp_all add: stamped_snapshot_def)

lemma ctx_built_stamped:
  assumes printed: "\<And>u. uparse (utext u) = Some u" and "ctx_built (stamped_snapshot uparse) utext uparse st"
  shows "stamped uparse st"
  using assms(2)
proof (induction rule: ctx_built.induct)
  case (ctx_create st i c name attrs)
  then show ?case by (metis stamped_create stamped_built_ok prod.collapse)
next
  case (ctx_create_bound st i c name attrs sid)
  then show ?case by (metis stamped_create_bound [OF printed] stamped_built_ok prod.collapse)
next
  case (ctx_select st c sel)
  then show ?case by (auto intro: stamped_same simp: select_for_client_tables)
next
  case (ctx_close st c sel)
  then show ?case using stamped_remove [OF ctx_close.IH stamped_built_ok [OF ctx_close.hyps]]
    by (auto simp: context_close_def split: sum.split prod.split option.split)
next
  case (ctx_remove st i pref)
  then show ?case by (metis stamped_remove stamped_built_ok prod.collapse)
next
  case (ctx_remove_session st sid)
  then show ?case by (simp add: remove_contexts_for_session_def stamped_remove_each stamped_built_ok)
next
  case (ctx_disconnect st c)
  then show ?case by (auto intro: stamped_same simp: disconnect_client_def)
qed (simp_all add: stamped_default stamped_rename stamped_set_attributes stamped_bind [OF printed] stamped_built_ok
    stamped_set_name restore_stamped)

section \<open>Listing and removing by session\<close>

lemma fold_missing:
  "set ks \<subseteq> set xs \<Longrightarrow> fold (\<lambda>i ids. if i \<in> set ids then ids else ids @ [i]) ks xs = xs"
  by (induction ks) auto

lemma in_map_filter: "x \<in> set (List.map_filter f xs) \<longleftrightarrow> (\<exists>i\<in>set xs. f i = Some x)"
  by (auto simp: List.map_filter_def image_iff)

lemma context_list_mru:
  assumes "context_ok st"
  shows "map cs_id (context_list st) = cx_mru st"
    and "set (context_list st) = to_summary ` set (bt_values (cx_contexts st))"
proof -
  have keys: "set (bt_keys (cx_contexts st)) = set (cx_mru st)" using assms by (auto simp: context_ok_def bt_keys_iff btree)
  have list: "context_list st = map to_summary (List.map_filter (bt_get (cx_contexts st)) (cx_mru st))"
    by (simp add: context_list_def Let_def fold_missing keys)
  have get: "\<exists>x. bt_get (cx_contexts st) i = Some x \<and> rc_id x = i" if "i \<in> set (cx_mru st)" for i
    using that assms by (auto simp: context_ok_def btree)
  have "map (\<lambda>x. cs_id (to_summary x)) (List.map_filter (bt_get (cx_contexts st)) is) = is"
    if "set is \<subseteq> set (cx_mru st)" for "is"
    using that
  proof (induction "is")
    case (Cons i "is")
    then obtain x where "bt_get (cx_contexts st) i = Some x" "rc_id x = i" using get by auto
    with Cons show ?case by (simp add: map_filter_simps to_summary_def)
  qed (simp add: map_filter_simps)
  then show "map cs_id (context_list st) = cx_mru st" by (simp add: list comp_def)
  have "set (List.map_filter (bt_get (cx_contexts st)) (cx_mru st)) = set (bt_values (cx_contexts st))"
  proof -
    have wf: "bt_wf (cx_contexts st)" and mru: "\<And>i. i \<in> set (cx_mru st) \<longleftrightarrow> (\<exists>x. bt_get (cx_contexts st) i = Some x)"
      using assms by (auto simp: context_ok_def btree)
    show ?thesis by (auto simp: in_map_filter bt_values_iff [OF wf] Bex_def mru) blast
  qed
  then show "set (context_list st) = to_summary ` set (bt_values (cx_contexts st))" by (simp add: list)
qed

lemma remove_each_result:
  assumes "context_ok st" and "distinct is" and "\<forall>i\<in>set is. bt_contains (cx_contexts st) i"
    and "remove_each is st = (st', rs)"
  shows "rs = is \<and> (\<forall>j. bt_get (cx_contexts st') j = (if j \<in> set is then None else bt_get (cx_contexts st) j)) \<and>
    (\<forall>j. bt_get (cx_session_by_context st') j =
       (if j \<in> set is then None else bt_get (cx_session_by_context st) j))"
  using assms
proof (induction "is" arbitrary: st rs)
  case (Cons i rest)
  obtain x where x: "bt_get (cx_contexts st) i = Some x" using Cons.prems(3) by (auto simp: btree)
  obtain st1 res where r: "remove_context_by_id i None st = (st1, res)" by fastforce
  note f = remove_context_by_id_result [OF Cons.prems(1) x r refl]
  obtain rs' where rest: "remove_each rest st1 = (st', rs')" and rs: "rs = i # rs'"
    using Cons.prems(4) by (auto simp: r f(1) split: prod.splits)
  have wf: "bt_wf (cx_contexts st)" "bt_wf (cx_session_by_context st)" using Cons.prems(1) by (auto simp: context_ok_def)
  have "\<forall>j\<in>set rest. bt_contains (cx_contexts st1) j"
    using Cons.prems(2,3) wf by (auto simp: f(2) btree)
  with Cons.IH [OF remove_context_by_id_ok [OF Cons.prems(1) r] _ _ rest] Cons.prems(2) rs wf
  show ?case by (auto simp: f(2,3) btree)
qed simp

section \<open>Properties\<close>

text \<open>
  C31.  The context roster stays coherent.  Whatever operations build it, restores of coherent snapshots
  and rolled-back renames included, every binding, selection, history entry and entry of the recency
  queue is a context of the roster and the queue holds every context exactly once.  So the listing shows
  every context exactly once, most recent first.  A snapshot of such a roster is coherent, and
  restoring it over any roster gives back the same roster without visit histories.  When the
  bindings of the restored snapshots are stamped on their contexts, so is every session binding, also in
  the snapshots; the textual form of an identifier is assumed to be read back as that identifier.
\<close>

theorem context_roster_coherent:
  assumes "\<And>u. uparse (utext u) = Some u" and "ctx_reachable utext uparse st"
  shows "context_ok st \<and> map cs_id (context_list st) = cx_mru st \<and> distinct (cx_mru st) \<and>
    set (context_list st) = to_summary ` set (bt_values (cx_contexts st)) \<and>
    (\<forall>p. snapshot_ok (contexts_snapshot \<lparr>lk_poisoned = p, lk_inner = st\<rparr>)) \<and>
    (\<forall>st0. contexts_restore_snapshot (contexts_snapshot \<lparr>lk_poisoned = False, lk_inner = st\<rparr>)
        \<lparr>lk_poisoned = False, lk_inner = st0\<rparr> =
      \<lparr>lk_poisoned = False, lk_inner = st\<lparr>cx_visited_by_client := []\<rparr>\<rparr>) \<and>
    (ctx_built (stamped_snapshot uparse) utext uparse st \<longrightarrow>
      stamped uparse st \<and> stamped_snapshot uparse (contexts_snapshot \<lparr>lk_poisoned = False, lk_inner = st\<rparr>))"
proof -
  note ok = ctx_reachable_ok [OF assms(2)]
  have "snapshot_ok (contexts_snapshot \<lparr>lk_poisoned = p, lk_inner = st\<rparr>)" for p
    using snapshot_of_ok [OF ok]
    by (simp add: contexts_snapshot_def with_read_def snapshot_ok_def context_snapshot_default_def bt_contains_def)
  moreover have "stamped uparse st \<and> stamped_snapshot uparse (context_snapshot_of st)"
    if "ctx_built (stamped_snapshot uparse) utext uparse st"
    using ctx_built_stamped [OF assms(1) that] snapshot_of_stamped [OF ok] by simp
  ultimately show ?thesis
    using ok context_list_mru [OF ok] restore_context_snapshot
    by (simp add: contexts_snapshot_def with_read_def) (simp add: context_ok_def)
qed

text \<open>
  C32.  Closing a context.  A successful close removes exactly the selected context, returns its
  binding and leaves the other contexts and bindings as they are.  Clients that had it selected, and the
  closing client when it had nothing selected, get the most recently used context that remains, or
  none when none remains; every other client keeps its selection.
\<close>

theorem close_context_exact:
  assumes "ctx_reachable utext uparse st" and "context_close c sel st = (st', Inr (i, s))"
  shows "resolve_id sel st = Inr i \<and> s = bt_get (cx_session_by_context st) i \<and>
    (\<forall>j. bt_get (cx_contexts st') j = (if j = i then None else bt_get (cx_contexts st) j)) \<and>
    (\<forall>j. bt_get (cx_session_by_context st') j = (if j = i then None else bt_get (cx_session_by_context st) j)) \<and>
    (\<forall>d. bt_get (cx_selected_by_client st') d =
       (if bt_get (cx_selected_by_client st) d = Some i \<or> bt_get (cx_selected_by_client st) d = None \<and> d = c
        then (case filter (\<lambda>e. e \<noteq> i) (cx_mru st) of [] \<Rightarrow> None | j # _ \<Rightarrow> Some j)
        else bt_get (cx_selected_by_client st) d))"
proof -
  note ok = ctx_reachable_ok [OF assms(1)]
  obtain k where k: "resolve_id sel st = Inr k" and r: "remove_context_by_id k (Some c) st = (st', Some (i, s))"
    using assms(2) by (auto simp: context_close_def split: sum.splits prod.splits option.splits)
  obtain x where x: "bt_get (cx_contexts st) k = Some x" using resolve_id_Ok [OF ok k] by (auto simp: btree)
  note f = remove_context_by_id_result [OF ok x r refl]
  have wf: "bt_wf (cx_contexts st)" "bt_wf (cx_session_by_context st)" using ok by (auto simp: context_ok_def)
  from f(1) have i: "k = i" "s = bt_get (cx_session_by_context st) i" by auto
  show ?thesis using k wf by (auto simp: f(2,3,6) i btree)
qed

text \<open>
  C33.  Removing the contexts of a session removes exactly the contexts bound to it, each once and in
  ascending order of identifier; the bindings of all other contexts stay, and no context is bound to
  the session afterwards.
\<close>

theorem session_removal_exact:
  assumes "ctx_reachable utext uparse st" and "remove_contexts_for_session sid st = (st', removed)"
  shows "sorted_wrt (<) removed \<and>
    (\<forall>i. i \<in> set removed \<longleftrightarrow> bt_get (cx_session_by_context st) i = Some sid) \<and>
    (\<forall>i. bt_get (cx_contexts st') i = (if i \<in> set removed then None else bt_get (cx_contexts st) i)) \<and>
    (\<forall>i. bt_get (cx_session_by_context st') i =
       (if i \<in> set removed then None else bt_get (cx_session_by_context st) i)) \<and>
    context_for_session sid st' = None"
proof -
  note ok = ctx_reachable_ok [OF assms(1)]
  define bound where "bound = map fst (filter (\<lambda>(_, mapped). mapped = sid) (cx_session_by_context st))"
  have wf: "bt_wf (cx_session_by_context st)" using ok by (simp add: context_ok_def)
  have mem: "i \<in> set bound \<longleftrightarrow> bt_get (cx_session_by_context st) i = Some sid" for i
    using wf by (auto simp: bound_def bt_set_iff [symmetric] image_iff)
  have sorted: "sorted_wrt (<) bound"
    using bt_wf_filter [OF wf] by (simp add: bound_def bt_wf_def)
  have "distinct bound" using sorted strict_sorted_iff by blast
  moreover have "\<forall>i\<in>set bound. bt_contains (cx_contexts st) i" using ok mem by (auto simp: context_ok_def)
  moreover have run: "remove_each bound st = (st', removed)" using assms(2) by (simp add: remove_contexts_for_session_def bound_def)
  ultimately have f: "removed = bound"
      "\<forall>j. bt_get (cx_contexts st') j = (if j \<in> set bound then None else bt_get (cx_contexts st) j)"
      "\<forall>j. bt_get (cx_session_by_context st') j = (if j \<in> set bound then None else bt_get (cx_session_by_context st) j)"
    using remove_each_result [OF ok] by blast+
  have "context_ok st'" using remove_each_ok [OF ok, of bound] run by simp
  then have wf': "bt_wf (cx_session_by_context st')" by (simp add: context_ok_def)
  have "context_for_session sid st' = None"
  proof -
    have "(j, sid) \<notin> set (cx_session_by_context st')" for j
      using f(3) mem by (auto simp: bt_set_iff [OF wf'])
    then show ?thesis by (auto simp: context_for_session_def find_None_iff)
  qed
  with sorted mem f show ?thesis by simp
qed

definition demo_utext :: "uuid \<Rightarrow> rstring" where
  "demo_utext u = [unat u]"

definition demo_uparse :: "rstring \<Rightarrow> uuid option" where
  "demo_uparse s = (case s of [n] \<Rightarrow> Some (word_of_nat n) | _ \<Rightarrow> None)"

lemma demo_uuid_text: "demo_uparse (demo_utext u) = Some u"
  by (simp add: demo_uparse_def demo_utext_def)

definition demo_contexts :: context_state where
  "demo_contexts = fst (context_create_bound demo_utext 2 (ClientId 7) None [] (SessionId 9)
     (fst (context_create 1 (ClientId 8) None [] context_state_default)))"

lemma demo_contexts_built: "ctx_built ok demo_utext demo_uparse demo_contexts"
  unfolding demo_contexts_def
  by (intro ctx_create_bound ctx_create ctx_init)
    (simp_all add: context_state_default_def context_create_def touch_mru_def record_visit_def Let_def bt_contains_def bt_get_def)

lemmas demo_contexts_reachable = demo_contexts_built [of snapshot_ok]

lemma demo_contexts_tables:
  "cx_mru demo_contexts = [2, 1]" "cx_session_by_context demo_contexts = [(2, SessionId 9)]"
  "cx_selected_by_client demo_contexts = [(ClientId 7, 2), (ClientId 8, 1)]" "bt_contains (cx_contexts demo_contexts) 2"
  by (simp_all add: demo_contexts_def context_create_bound_def context_state_default_def context_create_def touch_mru_def
      record_visit_def Let_def to_summary_def bt_contains_def bt_get_def)

text \<open>The demo roster after a restart: it is restored over an empty one.\<close>

definition demo_restored :: context_state where
  "demo_restored = lk_inner (contexts_restore_snapshot (context_snapshot_of demo_contexts)
     \<lparr>lk_poisoned = False, lk_inner = context_state_default\<rparr>)"

lemma demo_restored_built:
  "ctx_built (stamped_snapshot demo_uparse) demo_utext demo_uparse demo_restored"
  "ctx_reachable demo_utext demo_uparse demo_restored"
proof -
  have ok: "context_ok demo_contexts" "stamped demo_uparse demo_contexts"
    using ctx_reachable_ok [OF demo_contexts_reachable]
      ctx_built_stamped [OF demo_uuid_text demo_contexts_built] by auto
  show "ctx_built (stamped_snapshot demo_uparse) demo_utext demo_uparse demo_restored"
    unfolding demo_restored_def by (rule ctx_restore) (simp_all add: ctx_init snapshot_of_stamped ok)
  show "ctx_reachable demo_utext demo_uparse demo_restored"
    unfolding demo_restored_def by (rule ctx_restore) (simp_all add: ctx_init snapshot_of_ok ok)
qed

theorem context_roster_coherent_witness:
  "map cs_id (context_list demo_restored) = [2, 1] \<and> stamped demo_uparse demo_restored"
  using context_roster_coherent [of demo_uparse demo_utext, OF demo_uuid_text demo_restored_built(2)] demo_restored_built(1)
  by (simp add: demo_restored_def restore_context_snapshot demo_contexts_tables)

theorem close_context_exact_witness:
  "\<exists>st'. context_close (ClientId 7) (ById 2) demo_contexts = (st', Inr (2, Some (SessionId 9))) \<and>
     bt_get (cx_selected_by_client st') (ClientId 7) = Some 1"
proof -
  note ok = ctx_reachable_ok [OF demo_contexts_reachable]
  obtain x where x: "bt_get (cx_contexts demo_contexts) 2 = Some x" using demo_contexts_tables(4) by (auto simp: btree)
  obtain st' res where r: "remove_context_by_id 2 (Some (ClientId 7)) demo_contexts = (st', res)" by fastforce
  have "context_close (ClientId 7) (ById 2) demo_contexts = (st', Inr (2, Some (SessionId 9)))"
    using remove_context_by_id_result(1) [OF ok x r refl]
    by (simp add: context_close_def resolve_id_def demo_contexts_tables r bt_get_def)
  with close_context_exact [OF demo_contexts_reachable this] show ?thesis
    by (auto simp: demo_contexts_tables bt_get_def)
qed

theorem session_removal_exact_witness:
  "\<exists>st' removed. remove_contexts_for_session (SessionId 9) demo_contexts = (st', removed) \<and> 2 \<in> set removed \<and>
     context_for_session (SessionId 9) st' = None"
proof -
  obtain st' removed where r: "remove_contexts_for_session (SessionId 9) demo_contexts = (st', removed)" by fastforce
  from session_removal_exact [OF demo_contexts_reachable r] r show ?thesis
    by (auto simp: demo_contexts_tables bt_get_def)
qed

end
