(* ===== verification/Context_Handlers.thy ===== *)
theory Context_Handlers
  imports Context_Correct
begin

text \<open>
  The command handlers of \<^verbatim>\<open>plugins/contexts-plugin/src/lib.rs\<close>, which combine the roster with calls
  to the sessions plugin.  That plugin is reached over the service bus and is a parameter: each call
  is a function of the outside world and of the registered roster, because other threads may use the
  roster while the call runs; the lock is not held across a call.  A handler returns its result and
  its state: the world, the roster's lock (\<^term>\<open>None\<close> when it is not registered), the events it
  emitted and the calls it made.  The messages of errors are the constructors of a type.
\<close>

section \<open>Types\<close>

datatype new_session_error = NewInvalidName rstring | NewFailed rstring
datatype kill_session_error = KillNotFound | KillFailed rstring
datatype select_session_error = SelectNotFound | SelectDenied rstring
datatype rename_session_error = SessionRenameNotFound | SessionRenameInvalid rstring | SessionRenameFailed rstring

datatype reason =
    NotRegistered
  | StatePoisoned
  | SelectorMissing
  | CallerQueryFailed rstring
  | DispatchFailed rstring
  | ServiceReason rstring
  | SessionNotFoundReason
  | ExecutionUnavailable
  | ExecutionChanged
  | SessionDisappeared
  | ResolveFailed context_error
  | EmptyName
  | CleanupFailed create_context_error reason
and create_context_error = CreateInvalidName reason | CreateFailed reason

datatype select_context_error = SelectContextNotFound | SelectContextDenied reason
datatype close_context_error = CloseContextNotFound | CloseContextDenied reason | CloseContextFailed reason
datatype rename_context_error =
    RenameContextNotFound | RenameContextInvalidName reason | RenameContextDenied reason | RenameContextFailed reason
datatype set_attributes_error = SetAttributesNotFound | SetAttributesDenied reason | SetAttributesFailed reason
datatype context_query_error = ContextQueryNotFound | ContextQueryInvalidSelector reason

record context_ack =
  ca_id :: uuid
  ca_session_id :: "uuid option"

datatype context_event =
    Created uuid "rstring option"
  | Closed uuid
  | Selected uuid
  | Renamed uuid rstring
  | SessionActiveContextChanged uuid uuid "uuid option"

datatype service_call =
    CallCurrentClient
  | CallNewSession "rstring option"
  | CallSpawnSession "rstring option" "rstring option"
  | CallKillSession session_id
  | CallSelectSession session_id
  | CallRenameSession session_id rstring
  | CallLogWrite

type_synonym roster = "context_state rwlock option"

text \<open>A call that fails on the bus returns \<open>Inl\<close>; otherwise the reply of the provider.\<close>

type_synonym ('w, 'e, 'a) service_op = "'w \<times> roster \<Rightarrow> (rstring + ('e + 'a)) \<times> 'w \<times> roster"

record 'w services =
  sv_current_client :: "('w, rstring, uuid) service_op"
  sv_new_session :: "rstring option \<Rightarrow> ('w, new_session_error, uuid) service_op"
  sv_spawn_session :: "rstring option \<Rightarrow> rstring option \<Rightarrow> ('w, new_session_error, uuid) service_op"
  sv_kill_session :: "uuid \<Rightarrow> ('w, kill_session_error, uuid) service_op"
  sv_select_session :: "uuid \<Rightarrow> ('w, select_session_error, uuid) service_op"
  sv_rename_session :: "uuid \<Rightarrow> rstring \<Rightarrow> ('w, rename_session_error, uuid) service_op"
  sv_log_write :: "'w \<times> roster \<Rightarrow> 'w \<times> roster"

record 'w handler =
  h_world :: 'w
  h_roster :: roster
  h_events :: "context_event list"
  h_calls :: "service_call list"

record context_wire_selector =
  cw_id :: "uuid option"
  cw_name :: "rstring option"

definition to_primitive :: "context_wire_selector \<Rightarrow> context_selector option" where
  "to_primitive w = (case cw_id w of Some i \<Rightarrow> Some (ById i) | None \<Rightarrow> map_option ByName (cw_name w))"

section \<open>Access to the roster, events and calls\<close>

definition invoke :: "service_call \<Rightarrow> ('w, 'e, 'a) service_op \<Rightarrow> 'w handler \<Rightarrow> (rstring + ('e + 'a)) \<times> 'w handler" where
  "invoke k f h =
     (case f (h_world h, h_roster h) of
        (r, w, st) \<Rightarrow> (r, h\<lparr>h_world := w, h_roster := st, h_calls := h_calls h @ [k]\<rparr>))"

text \<open>The outcome of writing a warning is ignored.\<close>

definition log_write :: "'w services \<Rightarrow> 'w handler \<Rightarrow> 'w handler" where
  "log_write sv h =
     (case sv_log_write sv (h_world h, h_roster h) of
        (w, st) \<Rightarrow> h\<lparr>h_world := w, h_roster := st, h_calls := h_calls h @ [CallLogWrite]\<rparr>)"

definition emit :: "context_event \<Rightarrow> 'w handler \<Rightarrow> 'w handler" where
  "emit e h = h\<lparr>h_events := h_events h @ [e]\<rparr>"

definition local_state :: "'w handler \<Rightarrow> reason + context_state" where
  "local_state h =
     (case h_roster h of
        None \<Rightarrow> Err NotRegistered
      | Some lk \<Rightarrow> if lk_poisoned lk then Err StatePoisoned else Ok (lk_inner lk))"

definition put_state :: "context_state \<Rightarrow> 'w handler \<Rightarrow> 'w handler" where
  "put_state st h = h\<lparr>h_roster := map_option (\<lambda>lk. lk\<lparr>lk_inner := st\<rparr>) (h_roster h)\<rparr>"

definition resolve_caller_client_id ::
    "'w services \<Rightarrow> uuid option \<Rightarrow> 'w handler \<Rightarrow> (reason + client_id) \<times> 'w handler" where
  "resolve_caller_client_id sv caller h =
     (case caller of
        Some i \<Rightarrow> (Ok (ClientId i), h)
      | None \<Rightarrow>
          (case invoke CallCurrentClient (sv_current_client sv) h of
             (Inr (Inr i), h) \<Rightarrow> (Ok (ClientId i), h)
           | (Inr (Inl e), h) \<Rightarrow> (Err (CallerQueryFailed e), h)
           | (Inl e, h) \<Rightarrow> (Err (DispatchFailed e), h)))"

section \<open>Calls of the sessions plugin\<close>

definition create_session_via_sessions_plugin ::
    "'w services \<Rightarrow> rstring option \<Rightarrow> 'w handler \<Rightarrow> (create_context_error + session_id) \<times> 'w handler" where
  "create_session_via_sessions_plugin sv name h =
     (case invoke (CallNewSession name) (sv_new_session sv name) h of
        (Inl e, h) \<Rightarrow> (Err (CreateFailed (DispatchFailed e)), h)
      | (Inr (Inr i), h) \<Rightarrow> (Ok (SessionId i), h)
      | (Inr (Inl (NewInvalidName r)), h) \<Rightarrow> (Err (CreateInvalidName (ServiceReason r)), h)
      | (Inr (Inl (NewFailed r)), h) \<Rightarrow> (Err (CreateFailed (ServiceReason r)), h))"

text \<open>The fresh-shell variant reports every refusal as a failure.\<close>

definition spawn_session_via_sessions_plugin ::
    "'w services \<Rightarrow> rstring option \<Rightarrow> rstring option \<Rightarrow> 'w handler \<Rightarrow> (create_context_error + session_id) \<times> 'w handler" where
  "spawn_session_via_sessions_plugin sv name cwd h =
     (case invoke (CallSpawnSession name cwd) (sv_spawn_session sv name cwd) h of
        (Inl e, h) \<Rightarrow> (Err (CreateFailed (DispatchFailed e)), h)
      | (Inr (Inr i), h) \<Rightarrow> (Ok (SessionId i), h)
      | (Inr (Inl (NewInvalidName r)), h) \<Rightarrow> (Err (CreateFailed (ServiceReason r)), h)
      | (Inr (Inl (NewFailed r)), h) \<Rightarrow> (Err (CreateFailed (ServiceReason r)), h))"

definition kill_session_via_sessions_plugin ::
    "'w services \<Rightarrow> session_id \<Rightarrow> 'w handler \<Rightarrow> (reason + unit) \<times> 'w handler" where
  "kill_session_via_sessions_plugin sv sid h =
     (case invoke (CallKillSession sid) (sv_kill_session sv (session_uuid sid)) h of
        (Inl e, h) \<Rightarrow> (Err (DispatchFailed e), h)
      | (Inr (Inr _), h) \<Rightarrow> (Ok (), h)
      | (Inr (Inl KillNotFound), h) \<Rightarrow> (Ok (), h)
      | (Inr (Inl (KillFailed r)), h) \<Rightarrow> (Err (ServiceReason r), h))"

definition try_select_session_via_sessions_plugin ::
    "'w services \<Rightarrow> session_id \<Rightarrow> 'w handler \<Rightarrow> (reason + bool) \<times> 'w handler" where
  "try_select_session_via_sessions_plugin sv sid h =
     (case invoke (CallSelectSession sid) (sv_select_session sv (session_uuid sid)) h of
        (Inl e, h) \<Rightarrow> (Err (DispatchFailed e), h)
      | (Inr (Inr _), h) \<Rightarrow> (Ok True, h)
      | (Inr (Inl SelectNotFound), h) \<Rightarrow> (Ok False, h)
      | (Inr (Inl (SelectDenied r)), h) \<Rightarrow> (Err (ServiceReason r), h))"

definition select_session_via_sessions_plugin ::
    "'w services \<Rightarrow> session_id \<Rightarrow> 'w handler \<Rightarrow> (reason + unit) \<times> 'w handler" where
  "select_session_via_sessions_plugin sv sid h =
     (case try_select_session_via_sessions_plugin sv sid h of
        (Inl e, h) \<Rightarrow> (Err e, h)
      | (Inr _, h) \<Rightarrow> (Ok (), h))"

definition rename_session_via_sessions_plugin ::
    "'w services \<Rightarrow> session_id \<Rightarrow> rstring \<Rightarrow> 'w handler \<Rightarrow> (reason + unit) \<times> 'w handler" where
  "rename_session_via_sessions_plugin sv sid name h =
     (case invoke (CallRenameSession sid name) (sv_rename_session sv (session_uuid sid) name) h of
        (Inl e, h) \<Rightarrow> (Err (DispatchFailed e), h)
      | (Inr (Inr _), h) \<Rightarrow> (Ok (), h)
      | (Inr (Inl SessionRenameNotFound), h) \<Rightarrow> (Err SessionNotFoundReason, h)
      | (Inr (Inl (SessionRenameInvalid r)), h) \<Rightarrow> (Err (ServiceReason r), h)
      | (Inr (Inl (SessionRenameFailed r)), h) \<Rightarrow> (Err (ServiceReason r), h))"

definition require_created_session_selection :: "reason + bool \<Rightarrow> reason + unit" where
  "require_created_session_selection r =
     (case r of Inr True \<Rightarrow> Ok () | Inr False \<Rightarrow> Err SessionDisappeared | Inl e \<Rightarrow> Err e)"

definition compensate_created_session ::
    "'w services \<Rightarrow> session_id \<Rightarrow> create_context_error \<Rightarrow> 'w handler \<Rightarrow> create_context_error \<times> 'w handler" where
  "compensate_created_session sv sid original h =
     (case kill_session_via_sessions_plugin sv sid h of
        (Inr _, h) \<Rightarrow> (original, h)
      | (Inl cleanup, h) \<Rightarrow> (CreateFailed (CleanupFailed original cleanup), h))"

section \<open>Read handlers\<close>

definition list_contexts_local :: "'w handler \<Rightarrow> reason + context_summary list" where
  "list_contexts_local h = (case local_state h of Inl e \<Rightarrow> Err e | Inr st \<Rightarrow> Ok (context_list st))"

definition get_context_local ::
    "context_wire_selector \<Rightarrow> 'w handler \<Rightarrow> reason + (context_query_error + context_summary)" where
  "get_context_local w h =
     (case to_primitive w of
        None \<Rightarrow> Ok (Err (ContextQueryInvalidSelector SelectorMissing))
      | Some sel \<Rightarrow>
          (case local_state h of
             Inl e \<Rightarrow> Err e
           | Inr st \<Rightarrow>
               (case resolve_id sel st of
                  Inl _ \<Rightarrow> Ok (Err ContextQueryNotFound)
                | Inr i \<Rightarrow> (case bt_get (cx_contexts st) i of
                              None \<Rightarrow> Ok (Err ContextQueryNotFound)
                            | Some x \<Rightarrow> Ok (Ok (to_summary x))))))"

definition current_context_local ::
    "'w services \<Rightarrow> uuid option \<Rightarrow> 'w handler \<Rightarrow> (reason + context_summary option) \<times> 'w handler" where
  "current_context_local sv caller h =
     (case resolve_caller_client_id sv caller h of
        (Inl e, h) \<Rightarrow> (Err e, h)
      | (Inr c, h) \<Rightarrow>
          (case local_state h of Inl e \<Rightarrow> (Err e, h) | Inr st \<Rightarrow> (Ok (current_for_client c st), h)))"

definition list_visits_local ::
    "'w services \<Rightarrow> uuid option \<Rightarrow> 'w handler \<Rightarrow> (reason + uuid list) \<times> 'w handler" where
  "list_visits_local sv caller h =
     (case resolve_caller_client_id sv caller h of
        (Inl e, h) \<Rightarrow> (Err e, h)
      | (Inr c, h) \<Rightarrow>
          (case local_state h of
             Inl e \<Rightarrow> (Err e, h)
           | Inr st \<Rightarrow> (Ok (case bt_get (cx_visited_by_client st) c of None \<Rightarrow> [] | Some v \<Rightarrow> v), h)))"

section \<open>Creating\<close>

definition mutate_state_create ::
    "(uuid \<Rightarrow> rstring) \<Rightarrow> uuid \<Rightarrow> client_id \<Rightarrow> rstring option \<Rightarrow> attributes \<Rightarrow> session_id \<Rightarrow> 'w handler \<Rightarrow>
     (create_context_error + context_summary) \<times> 'w handler" where
  "mutate_state_create utext new_id c name attrs sid h =
     (case local_state h of
        Inl e \<Rightarrow> (Err (CreateFailed e), h)
      | Inr st \<Rightarrow>
          (case context_create_bound utext new_id c name attrs sid st of
             (st, context) \<Rightarrow> (Ok context, put_state st h)))"

text \<open>Selection of the new session and the events of a created context.\<close>

definition announce_created ::
    "'w services \<Rightarrow> bool \<Rightarrow> client_id \<Rightarrow> rstring option \<Rightarrow> session_id \<Rightarrow> context_summary \<Rightarrow> 'w handler \<Rightarrow>
     context_ack \<times> 'w handler" where
  "announce_created sv fresh_creation c name sid context h =
     (let h = (if fresh_creation then h
               else (case select_session_via_sessions_plugin sv sid h of
                       (Inl _, h) \<Rightarrow> log_write sv h
                     | (Inr _, h) \<Rightarrow> h));
          h = emit (Created (cs_id context) name) h;
          h = emit (Selected (cs_id context)) h;
          h = emit (SessionActiveContextChanged (session_uuid sid) (cs_id context) (Some (client_uuid c))) h
      in (\<lparr>ca_id = cs_id context, ca_session_id = Some (session_uuid sid)\<rparr>, h))"

definition create_context_with_options ::
    "(uuid \<Rightarrow> rstring) \<Rightarrow> uuid \<Rightarrow> 'w services \<Rightarrow> uuid option \<Rightarrow> rstring option \<Rightarrow> attributes \<Rightarrow>
     rstring option option \<Rightarrow> 'w handler \<Rightarrow> (create_context_error + context_ack) \<times> 'w handler" where
  "create_context_with_options utext new_id sv caller name attrs options h =
     (let attrs = bt_or_insert (lit ''workspace'') (lit ''default'') attrs in
      case resolve_caller_client_id sv caller h of
        (Inl e, h) \<Rightarrow> (Err (CreateFailed e), h)
      | (Inr c, h) \<Rightarrow>
          (case (case options of
                   Some cwd \<Rightarrow> spawn_session_via_sessions_plugin sv name cwd h
                 | None \<Rightarrow> create_session_via_sessions_plugin sv name h) of
             (Inl e, h) \<Rightarrow> (Err e, h)
           | (Inr sid, h) \<Rightarrow>
               (case (if options \<noteq> None
                      then (case try_select_session_via_sessions_plugin sv sid h of
                              (r, h) \<Rightarrow> (require_created_session_selection r, h))
                      else (Ok (), h)) of
                  (Inl e, h) \<Rightarrow>
                    (case compensate_created_session sv sid (CreateFailed e) h of (e, h) \<Rightarrow> (Err e, h))
                | (Inr _, h) \<Rightarrow>
                    (case mutate_state_create utext new_id c name attrs sid h of
                       (Inl e, h) \<Rightarrow>
                         (case compensate_created_session sv sid e h of (e, h) \<Rightarrow> (Err e, h))
                     | (Inr context, h) \<Rightarrow>
                         (case announce_created sv (options \<noteq> None) c name sid context h of
                            (ack, h) \<Rightarrow> (Ok ack, h))))))"

definition create_context_local ::
    "(uuid \<Rightarrow> rstring) \<Rightarrow> uuid \<Rightarrow> 'w services \<Rightarrow> uuid option \<Rightarrow> rstring option \<Rightarrow> attributes \<Rightarrow> 'w handler \<Rightarrow>
     (create_context_error + context_ack) \<times> 'w handler" where
  "create_context_local utext new_id sv caller name attrs h =
     create_context_with_options utext new_id sv caller name attrs None h"

section \<open>Activating and selecting\<close>

definition announce_selected ::
    "client_id \<Rightarrow> uuid \<Rightarrow> session_id option \<Rightarrow> 'w handler \<Rightarrow> context_ack \<times> 'w handler" where
  "announce_selected c i sid h =
     (let h = emit (Selected i) h;
          h = (case sid of
                 None \<Rightarrow> h
               | Some s \<Rightarrow> emit (SessionActiveContextChanged (session_uuid s) i (Some (client_uuid c))) h)
      in (\<lparr>ca_id = i, ca_session_id = map_option session_uuid sid\<rparr>, h))"

definition activate_context_exact_in_state ::
    "'w services \<Rightarrow> client_id \<Rightarrow> uuid \<Rightarrow> 'w handler \<Rightarrow> (select_context_error + context_ack) \<times> 'w handler" where
  "activate_context_exact_in_state sv c i h =
     (case local_state h of
        Inl e \<Rightarrow> (Err (SelectContextDenied e), h)
      | Inr st \<Rightarrow>
          if \<not> bt_contains (cx_contexts st) i then (Err SelectContextNotFound, h)
          else (case bt_get (cx_session_by_context st) i of
                  None \<Rightarrow> (Err (SelectContextDenied ExecutionUnavailable), h)
                | Some sid \<Rightarrow>
                    (case try_select_session_via_sessions_plugin sv sid h of
                       (Inl e, h) \<Rightarrow> (Err (SelectContextDenied e), h)
                     | (Inr False, h) \<Rightarrow> (Err (SelectContextDenied ExecutionUnavailable), h)
                     | (Inr True, h) \<Rightarrow>
                         (case local_state h of
                            Inl e \<Rightarrow> (Err (SelectContextDenied e), h)
                          | Inr st \<Rightarrow>
                              if bt_get (cx_session_by_context st) i \<noteq> Some sid
                              then (Err (SelectContextDenied ExecutionChanged), h)
                              else (case select_for_client c (ById i) st of
                                      (st, Inl _) \<Rightarrow> (Err SelectContextNotFound, put_state st h)
                                    | (st, Inr _) \<Rightarrow>
                                        (case announce_selected c i (Some sid) (put_state st h) of
                                           (ack, h) \<Rightarrow> (Ok ack, h)))))))"

definition activate_context_exact ::
    "'w services \<Rightarrow> uuid option \<Rightarrow> uuid \<Rightarrow> 'w handler \<Rightarrow> (select_context_error + context_ack) \<times> 'w handler" where
  "activate_context_exact sv caller i h =
     (case resolve_caller_client_id sv caller h of
        (Inl e, h) \<Rightarrow> (Err (SelectContextDenied e), h)
      | (Inr c, h) \<Rightarrow>
          (case h_roster h of
             None \<Rightarrow> (Err (SelectContextDenied NotRegistered), h)
           | Some _ \<Rightarrow> activate_context_exact_in_state sv c i h))"

definition resolve_selection_target ::
    "context_selector \<Rightarrow> 'w handler \<Rightarrow> select_context_error + (context_summary \<times> session_id option)" where
  "resolve_selection_target sel h =
     (case local_state h of
        Inl e \<Rightarrow> Err (SelectContextDenied e)
      | Inr st \<Rightarrow>
          (case resolve_id sel st of
             Inl e \<Rightarrow> Err (SelectContextDenied (ResolveFailed e))
           | Inr i \<Rightarrow>
               (case bt_get (cx_contexts st) i of
                  None \<Rightarrow> Err SelectContextNotFound
                | Some x \<Rightarrow> Ok (to_summary x, bt_get (cx_session_by_context st) i))))"

definition create_session_for_select_repair ::
    "'w services \<Rightarrow> rstring option \<Rightarrow> 'w handler \<Rightarrow> (select_context_error + session_id) \<times> 'w handler" where
  "create_session_for_select_repair sv name h =
     (case create_session_via_sessions_plugin sv name h of
        (Inl (CreateInvalidName r), h) \<Rightarrow> (Err (SelectContextDenied r), h)
      | (Inl (CreateFailed r), h) \<Rightarrow> (Err (SelectContextDenied r), h)
      | (Inr sid, h) \<Rightarrow> (Ok sid, h))"

definition bind_context_session_for_select_repair ::
    "(uuid \<Rightarrow> rstring) \<Rightarrow> uuid \<Rightarrow> session_id \<Rightarrow> 'w handler \<Rightarrow> (select_context_error + unit) \<times> 'w handler" where
  "bind_context_session_for_select_repair utext i sid h =
     (case local_state h of
        Inl e \<Rightarrow> (Err (SelectContextDenied e), h)
      | Inr st \<Rightarrow>
          (case bind_session utext i sid st of
             (st, Inl e) \<Rightarrow> (Err (SelectContextDenied (ResolveFailed e)), put_state st h)
           | (st, Inr _) \<Rightarrow> (Ok (), put_state st h)))"

text \<open>The session that is selected for a bound context: its own, or a replacement when it is gone.\<close>

definition select_or_repair_session ::
    "(uuid \<Rightarrow> rstring) \<Rightarrow> 'w services \<Rightarrow> context_summary \<Rightarrow> session_id \<Rightarrow> 'w handler \<Rightarrow>
     (select_context_error + session_id) \<times> 'w handler" where
  "select_or_repair_session utext sv context sid h =
     (case try_select_session_via_sessions_plugin sv sid h of
        (Inr True, h) \<Rightarrow> (Ok sid, h)
      | (Inr False, h) \<Rightarrow>
          (case create_session_for_select_repair sv (cs_name context) h of
             (Inl e, h) \<Rightarrow> (Err e, h)
           | (Inr replacement, h) \<Rightarrow>
               (case bind_context_session_for_select_repair utext (cs_id context) replacement h of
                  (Inl e, h) \<Rightarrow> (Err e, h)
                | (Inr _, h) \<Rightarrow>
                    (case try_select_session_via_sessions_plugin sv replacement h of
                       (Inl e, h) \<Rightarrow> (Err (SelectContextDenied e), h)
                     | (Inr _, h) \<Rightarrow> (Ok replacement, log_write sv h))))
      | (Inl e, h) \<Rightarrow> (Err (SelectContextDenied e), h))"

definition select_context_local ::
    "(uuid \<Rightarrow> rstring) \<Rightarrow> 'w services \<Rightarrow> uuid option \<Rightarrow> context_wire_selector \<Rightarrow> 'w handler \<Rightarrow>
     (select_context_error + context_ack) \<times> 'w handler" where
  "select_context_local utext sv caller w h =
     (case to_primitive w of
        None \<Rightarrow> (Err (SelectContextDenied SelectorMissing), h)
      | Some sel \<Rightarrow>
          (case resolve_caller_client_id sv caller h of
             (Inl e, h) \<Rightarrow> (Err (SelectContextDenied e), h)
           | (Inr c, h) \<Rightarrow>
               (case resolve_selection_target sel h of
                  Inl e \<Rightarrow> (Err e, h)
                | Inr (context, bound) \<Rightarrow>
                    (case (case bound of
                             None \<Rightarrow> (Ok None, h)
                           | Some sid \<Rightarrow>
                               (case select_or_repair_session utext sv context sid h of
                                  (Inl e, h) \<Rightarrow> (Err e, h)
                                | (Inr s, h) \<Rightarrow> (Ok (Some s), h))) of
                       (Inl e, h) \<Rightarrow> (Err e, h)
                     | (Inr session_after_select, h) \<Rightarrow>
                         (case local_state h of
                            Inl e \<Rightarrow> (Err (SelectContextDenied e), h)
                          | Inr st \<Rightarrow>
                              (case select_for_client c (ById (cs_id context)) st of
                                 (st, Inl _) \<Rightarrow> (Err SelectContextNotFound, put_state st h)
                               | (st, Inr _) \<Rightarrow>
                                   (case announce_selected c (cs_id context) session_after_select (put_state st h) of
                                      (ack, h) \<Rightarrow> (Ok ack, h))))))))"

section \<open>Closing\<close>

record close_outcome =
  co_removed_id :: uuid
  co_bound_session_id :: "session_id option"
  co_replacement :: "(uuid \<times> session_id option) option"

definition mutate_state_close ::
    "client_id \<Rightarrow> context_selector \<Rightarrow> 'w handler \<Rightarrow> (close_context_error + close_outcome) \<times> 'w handler" where
  "mutate_state_close c sel h =
     (case local_state h of
        Inl e \<Rightarrow> (Err (CloseContextFailed e), h)
      | Inr st \<Rightarrow>
          (case context_close c sel st of
             (st, Inl _) \<Rightarrow> (Err CloseContextNotFound, put_state st h)
           | (st, Inr (i, sid)) \<Rightarrow>
               (Ok \<lparr>co_removed_id = i, co_bound_session_id = sid,
                   co_replacement =
                     map_option (\<lambda>j. (j, bt_get (cx_session_by_context st) j)) (bt_get (cx_selected_by_client st) c)\<rparr>,
                put_state st h)))"

text \<open>Selection of the replacement's session and the events for the replacement.\<close>

definition announce_replacement ::
    "'w services \<Rightarrow> client_id \<Rightarrow> (uuid \<times> session_id option) option \<Rightarrow> 'w handler \<Rightarrow> 'w handler" where
  "announce_replacement sv c replacement h =
     (case replacement of
        None \<Rightarrow> h
      | Some (j, None) \<Rightarrow> emit (Selected j) h
      | Some (j, Some sid) \<Rightarrow>
          let h = (case select_session_via_sessions_plugin sv sid h of
                     (Inl _, h) \<Rightarrow> log_write sv h | (Inr _, h) \<Rightarrow> h);
              h = emit (Selected j) h
          in emit (SessionActiveContextChanged (session_uuid sid) j (Some (client_uuid c))) h)"

definition close_context_local ::
    "'w services \<Rightarrow> uuid option \<Rightarrow> context_wire_selector \<Rightarrow> 'w handler \<Rightarrow> (close_context_error + context_ack) \<times> 'w handler" where
  "close_context_local sv caller w h =
     (case to_primitive w of
        None \<Rightarrow> (Err (CloseContextFailed SelectorMissing), h)
      | Some sel \<Rightarrow>
          (case resolve_caller_client_id sv caller h of
             (Inl e, h) \<Rightarrow> (Err (CloseContextFailed e), h)
           | (Inr c, h) \<Rightarrow>
               (case mutate_state_close c sel h of
                  (Inl e, h) \<Rightarrow> (Err e, h)
                | (Inr out, h) \<Rightarrow>
                    let h = (case co_bound_session_id out of
                               None \<Rightarrow> h | Some sid \<Rightarrow> snd (kill_session_via_sessions_plugin sv sid h));
                        h = emit (Closed (co_removed_id out)) h;
                        h = announce_replacement sv c (co_replacement out) h
                    in (Ok \<lparr>ca_id = co_removed_id out,
                           ca_session_id = map_option session_uuid (co_bound_session_id out)\<rparr>, h))))"

section \<open>Attributes and names\<close>

definition set_context_attributes_local ::
    "(rstring \<Rightarrow> uuid option) \<Rightarrow> context_wire_selector \<Rightarrow> attributes \<Rightarrow> 'w handler \<Rightarrow>
     (set_attributes_error + context_ack) \<times> 'w handler" where
  "set_context_attributes_local uparse w attrs h =
     (case to_primitive w of
        None \<Rightarrow> (Err (SetAttributesDenied SelectorMissing), h)
      | Some sel \<Rightarrow>
          (case local_state h of
             Inl e \<Rightarrow> (Err (SetAttributesFailed e), h)
           | Inr st \<Rightarrow>
               (case set_attributes uparse sel attrs st of
                  (st, Inl _) \<Rightarrow> (Err SetAttributesNotFound, put_state st h)
                | (st, Inr context) \<Rightarrow>
                    (Ok \<lparr>ca_id = cs_id context,
                        ca_session_id = map_option session_uuid (bt_get (cx_session_by_context st) (cs_id context))\<rparr>,
                     put_state st h))))"

definition validate_context_rename_name :: "rstring \<Rightarrow> rename_context_error + rstring" where
  "validate_context_rename_name name =
     (let trimmed = trim name in
      if trimmed = [] then Err (RenameContextInvalidName EmptyName) else Ok trimmed)"

definition mutate_state_rename ::
    "context_selector \<Rightarrow> rstring \<Rightarrow> 'w handler \<Rightarrow>
     (rename_context_error + (uuid \<times> rstring option \<times> session_id option)) \<times> 'w handler" where
  "mutate_state_rename sel name h =
     (case local_state h of
        Inl e \<Rightarrow> (Err (RenameContextFailed e), h)
      | Inr st \<Rightarrow>
          (case resolve_id sel st of
             Inl _ \<Rightarrow> (Err RenameContextNotFound, h)
           | Inr i \<Rightarrow>
               (case bt_get (cx_contexts st) i of
                  None \<Rightarrow> (Err RenameContextNotFound, h)
                | Some x \<Rightarrow>
                    (Ok (i, rc_name x, bt_get (cx_session_by_context st) i),
                     put_state (st\<lparr>cx_contexts := bt_insert i (x\<lparr>rc_name := Some name\<rparr>) (cx_contexts st)\<rparr>) h))))"

definition rollback_context_rename :: "uuid \<Rightarrow> rstring option \<Rightarrow> 'w handler \<Rightarrow> 'w handler" where
  "rollback_context_rename i old_name h =
     (case local_state h of
        Inl _ \<Rightarrow> h
      | Inr st \<Rightarrow> put_state (set_context_name i old_name st) h)"

definition rename_context_local ::
    "'w services \<Rightarrow> context_wire_selector \<Rightarrow> rstring \<Rightarrow> 'w handler \<Rightarrow> (rename_context_error + context_ack) \<times> 'w handler" where
  "rename_context_local sv w name h =
     (case to_primitive w of
        None \<Rightarrow> (Err (RenameContextDenied SelectorMissing), h)
      | Some sel \<Rightarrow>
          (case validate_context_rename_name name of
             Inl e \<Rightarrow> (Err e, h)
           | Inr name \<Rightarrow>
               (case mutate_state_rename sel name h of
                  (Inl e, h) \<Rightarrow> (Err e, h)
                | (Inr (i, old_name, bound), h) \<Rightarrow>
                    (case (case bound of
                             None \<Rightarrow> (Ok (), h)
                           | Some sid \<Rightarrow> rename_session_via_sessions_plugin sv sid name h) of
                       (Inl r, h) \<Rightarrow> (Err (RenameContextFailed r), rollback_context_rename i old_name h)
                     | (Inr _, h) \<Rightarrow>
                         (Ok \<lparr>ca_id = i, ca_session_id = map_option session_uuid bound\<rparr>, emit (Renamed i name) h)))))"

end
