(* ===== verification/Context_Handlers_Correct.thy ===== *)
theory Context_Handlers_Correct
  imports Context_Handlers
begin

text \<open>
  What the handlers of the contexts plugin guarantee: a creation that fails asks for its session to be
  killed and reports when that is not confirmed, a rename that is refused puts the old name back, exact
  activation creates nothing; and what they do not: closing announces a selection that did not change,
  and a repaired selection can leave a session behind.  The services may do anything to the roster while
  a call runs, unless a statement says otherwise.
\<close>

section \<open>Calls\<close>

text \<open>The handler after a call that left the given world and roster.\<close>

definition called :: "service_call \<Rightarrow> 'w \<times> roster \<Rightarrow> 'w handler \<Rightarrow> 'w handler" where
  "called k e h = h\<lparr>h_world := fst e, h_roster := snd e, h_calls := h_calls h @ [k]\<rparr>"

lemma called_simps [simp]:
  "h_world (called k e h) = fst e" "h_roster (called k e h) = snd e"
  "h_events (called k e h) = h_events h" "h_calls (called k e h) = h_calls h @ [k]"
  by (simp_all add: called_def)

lemma invoke_called: "invoke k f h = (fst (f (h_world h, h_roster h)), called k (snd (f (h_world h, h_roster h))) h)"
  by (simp add: invoke_def called_def case_prod_unfold)

lemma log_write_called: "log_write sv h = called CallLogWrite (sv_log_write sv (h_world h, h_roster h)) h"
  by (simp add: log_write_def called_def case_prod_unfold)

lemma put_state_simps [simp]:
  "h_events (put_state st h) = h_events h" "h_calls (put_state st h) = h_calls h" "h_world (put_state st h) = h_world h"
  "h_roster (put_state st h) = map_option (\<lambda>lk. lk\<lparr>lk_inner := st\<rparr>) (h_roster h)"
  by (simp_all add: put_state_def)

lemma handler_emit_simps [simp]:
  "h_events (emit e h) = h_events h @ [e]" "h_calls (emit e h) = h_calls h" "h_roster (emit e h) = h_roster h"
  "h_world (emit e h) = h_world h"
  by (simp_all add: emit_def)

lemma local_state_Inr: "local_state h = Inr st \<longleftrightarrow> (\<exists>lk. h_roster h = Some lk \<and> \<not> lk_poisoned lk \<and> lk_inner lk = st)"
  by (auto simp: local_state_def split: option.splits)

text \<open>How the handlers read the replies: a kill is confirmed also when the session is gone.\<close>

fun kill_confirmed :: "rstring + (kill_session_error + uuid) \<Rightarrow> bool" where
  "kill_confirmed (Inr (Inr _)) = True"
| "kill_confirmed (Inr (Inl KillNotFound)) = True"
| "kill_confirmed _ = False"

fun select_failed :: "rstring + (select_session_error + uuid) \<Rightarrow> bool" where
  "select_failed (Inl _) = True"
| "select_failed (Inr (Inl (SelectDenied _))) = True"
| "select_failed _ = False"

lemma kill_session_state:
  assumes "kill_session_via_sessions_plugin sv sid h = (r, h')"
  shows "h' = called (CallKillSession sid) (snd (sv_kill_session sv (session_uuid sid) (h_world h, h_roster h))) h"
    and "r = Inr () \<longleftrightarrow> kill_confirmed (fst (sv_kill_session sv (session_uuid sid) (h_world h, h_roster h)))"
  using assms
  by (auto simp: kill_session_via_sessions_plugin_def invoke_called split: prod.splits sum.splits kill_session_error.splits)

lemma try_select_session_state:
  assumes "try_select_session_via_sessions_plugin sv sid h = (r, h')"
  shows "h' = called (CallSelectSession sid) (snd (sv_select_session sv (session_uuid sid) (h_world h, h_roster h))) h"
    and "r = Inr True \<longleftrightarrow> (\<exists>i. fst (sv_select_session sv (session_uuid sid) (h_world h, h_roster h)) = Inr (Inr i))"
    and "(\<exists>e. r = Inl e) \<longleftrightarrow> select_failed (fst (sv_select_session sv (session_uuid sid) (h_world h, h_roster h)))"
  using assms
  by (auto simp: try_select_session_via_sessions_plugin_def invoke_called
      split: prod.splits sum.splits select_session_error.splits)

lemma rename_session_state:
  assumes "rename_session_via_sessions_plugin sv sid name h = (r, h')"
  shows "h' = called (CallRenameSession sid name) (snd (sv_rename_session sv (session_uuid sid) name (h_world h, h_roster h))) h"
    and "r = Inr () \<longleftrightarrow> (\<exists>i. fst (sv_rename_session sv (session_uuid sid) name (h_world h, h_roster h)) = Inr (Inr i))"
  using assms
  by (auto simp: rename_session_via_sessions_plugin_def invoke_called split: prod.splits sum.splits rename_session_error.splits)

lemma compensate_state:
  assumes "compensate_created_session sv sid e h = (e', h')" and "\<nexists>a b. e = CreateFailed (CleanupFailed a b)"
  shows "h' = called (CallKillSession sid) (snd (sv_kill_session sv (session_uuid sid) (h_world h, h_roster h))) h"
    and "(\<exists>a b. e' = CreateFailed (CleanupFailed a b)) \<longleftrightarrow>
      \<not> kill_confirmed (fst (sv_kill_session sv (session_uuid sid) (h_world h, h_roster h)))"
proof -
  obtain r h1 where k: "kill_session_via_sessions_plugin sv sid h = (r, h1)" by fastforce
  with assms have "h' = h1" "(\<exists>a b. e' = CreateFailed (CleanupFailed a b)) \<longleftrightarrow> r \<noteq> Inr ()"
    by (auto simp: compensate_created_session_def split: sum.splits)
  with kill_session_state [OF k]
  show "h' = called (CallKillSession sid) (snd (sv_kill_session sv (session_uuid sid) (h_world h, h_roster h))) h"
    and "(\<exists>a b. e' = CreateFailed (CleanupFailed a b)) \<longleftrightarrow>
      \<not> kill_confirmed (fst (sv_kill_session sv (session_uuid sid) (h_world h, h_roster h)))"
    by simp_all
qed

text \<open>The calls that follow the insertion of a created context, and the world and roster they leave.\<close>

definition announce_calls :: "'w services \<Rightarrow> bool \<Rightarrow> session_id \<Rightarrow> 'w \<times> roster \<Rightarrow> service_call list \<times> 'w \<times> roster" where
  "announce_calls sv fresh sid e =
     (if fresh then ([], e)
      else (case sv_select_session sv (session_uuid sid) e of
              (q, e) \<Rightarrow> if select_failed q then ([CallSelectSession sid, CallLogWrite], sv_log_write sv e)
                        else ([CallSelectSession sid], e)))"

lemma announce_created_state:
  assumes "announce_created sv fresh c name sid context h = (ack, h')"
  shows "ack = \<lparr>ca_id = cs_id context, ca_session_id = Some (session_uuid sid)\<rparr> \<and>
    h_events h' = h_events h @ [Created (cs_id context) name, Selected (cs_id context),
      SessionActiveContextChanged (session_uuid sid) (cs_id context) (Some (client_uuid c))] \<and>
    h_calls h' = h_calls h @ fst (announce_calls sv fresh sid (h_world h, h_roster h)) \<and>
    (h_world h', h_roster h') = snd (announce_calls sv fresh sid (h_world h, h_roster h))"
proof -
  obtain r h1 where t: "try_select_session_via_sessions_plugin sv sid h = (r, h1)" by fastforce
  note f = try_select_session_state [OF t]
  show ?thesis
    using assms f
    by (cases r)
      (auto simp: announce_created_def announce_calls_def Let_def select_session_via_sessions_plugin_def t
        log_write_called case_prod_unfold split: if_splits)
qed

section \<open>Creation\<close>

text \<open>The part of a creation that follows the allocation of the session.\<close>

definition after_session where
  "after_session utext new_id sv c name attrs options sid h =
     (case (if options \<noteq> None
            then (case try_select_session_via_sessions_plugin sv sid h of
                    (r, h) \<Rightarrow> (require_created_session_selection r, h))
            else (Ok (), h)) of
        (Inl e, h) \<Rightarrow>
          (case compensate_created_session sv sid (CreateFailed e) h of (e, h) \<Rightarrow> (Err e, h))
      | (Inr _, h) \<Rightarrow>
          (case mutate_state_create utext new_id c name attrs sid h of
             (Inl e, h) \<Rightarrow>
               (case compensate_created_session sv sid e h of (e, h) \<Rightarrow> (Err e, h))
           | (Inr context, h) \<Rightarrow>
               (case announce_created sv (options \<noteq> (None :: rstring option option)) c name sid context h of
                  (ack, h) \<Rightarrow> (Ok ack, h))))"

lemma create_after_session:
  assumes "(case options of Some cwd \<Rightarrow> sv_spawn_session sv name cwd | None \<Rightarrow> sv_new_session sv name)
      (h_world h, h_roster h) = (Inr (Inr sid), w, st)"
    and "k = (case options of Some cwd \<Rightarrow> CallSpawnSession name cwd | None \<Rightarrow> CallNewSession name)"
  shows "create_context_with_options utext new_id sv (Some u) name attrs options h =
    after_session utext new_id sv (ClientId u) name (bt_or_insert (lit ''workspace'') (lit ''default'') attrs) options
      (SessionId sid) (h\<lparr>h_world := w, h_roster := st, h_calls := h_calls h @ [k]\<rparr>)"
  using assms
  by (cases options)
    (simp_all add: create_context_with_options_def resolve_caller_client_id_def after_session_def Let_def
      spawn_session_via_sessions_plugin_def create_session_via_sessions_plugin_def invoke_def)

lemma mutate_create_state:
  assumes "mutate_state_create utext new_id c name attrs sid h = (r, h')"
  shows "h_events h' = h_events h \<and> h_calls h' = h_calls h \<and> h_world h' = h_world h \<and>
    (case r of
       Inl e \<Rightarrow> h' = h \<and> (\<nexists>a b. e = CreateFailed (CleanupFailed a b)) \<and> (\<nexists>lk. h_roster h = Some lk \<and> \<not> lk_poisoned lk)
     | Inr context \<Rightarrow> \<exists>lk. h_roster h = Some lk \<and> \<not> lk_poisoned lk \<and> cs_id context = new_id \<and>
         h_roster h' = Some (lk\<lparr>lk_inner := fst (context_create_bound utext new_id c name attrs sid (lk_inner lk))\<rparr>))"
proof (cases "local_state h")
  case (Inr st)
  then obtain lk where "h_roster h = Some lk" "\<not> lk_poisoned lk" "lk_inner lk = st" by (auto simp: local_state_Inr)
  moreover have "cs_id (snd (context_create_bound utext new_id c name attrs sid st)) = new_id"
    using context_create_fields(3) by (auto simp: context_create_bound_def Let_def case_prod_unfold prod_eq_iff)
  ultimately show ?thesis using assms Inr by (auto simp: mutate_state_create_def case_prod_unfold)
next
  case (Inl e)
  then show ?thesis using assms by (auto simp: mutate_state_create_def local_state_def split: option.splits if_splits)
qed


lemma after_session_result:
  assumes run: "after_session utext new_id sv c name attrs options sid h = (r, h')"
    and pre: "pre = (if options = None then (h_world h, h_roster h)
      else snd (sv_select_session sv (session_uuid sid) (h_world h, h_roster h)))"
    and picks: "picks = (if options = None then [] else [CallSelectSession sid])"
    and picked: "picked \<longleftrightarrow> options = None \<or>
      (\<exists>i. fst (sv_select_session sv (session_uuid sid) (h_world h, h_roster h)) = Inr (Inr i))"
  shows "case r of
      Inl e \<Rightarrow> \<not> (picked \<and> (\<exists>lk. snd pre = Some lk \<and> \<not> lk_poisoned lk)) \<and> h_events h' = h_events h \<and>
        h_calls h' = h_calls h @ picks @ [CallKillSession sid] \<and>
        (h_world h', h_roster h') = snd (sv_kill_session sv (session_uuid sid) pre) \<and>
        ((\<exists>a b. e = CreateFailed (CleanupFailed a b)) \<longleftrightarrow> \<not> kill_confirmed (fst (sv_kill_session sv (session_uuid sid) pre)))
    | Inr ack \<Rightarrow> picked \<and> ack = \<lparr>ca_id = new_id, ca_session_id = Some (session_uuid sid)\<rparr> \<and>
        h_events h' = h_events h @ [Created new_id name, Selected new_id,
          SessionActiveContextChanged (session_uuid sid) new_id (Some (client_uuid c))] \<and>
        (\<exists>lk ks. snd pre = Some lk \<and> \<not> lk_poisoned lk \<and> h_calls h' = h_calls h @ picks @ ks \<and>
          announce_calls sv (options \<noteq> None) sid (fst pre, Some (lk\<lparr>lk_inner :=
            fst (context_create_bound utext new_id c name attrs sid (lk_inner lk))\<rparr>)) = (ks, h_world h', h_roster h'))"
proof -
  obtain r0 h0 where t: "try_select_session_via_sessions_plugin sv sid h = (r0, h0)" by fastforce
  define r1 h1 where "r1 = (if options \<noteq> None then require_created_session_selection r0 else Inr ())"
    and "h1 = (if options \<noteq> None then h0 else h)"
  have h1: "h_events h1 = h_events h" "h_calls h1 = h_calls h @ picks" "(h_world h1, h_roster h1) = pre"
    "h_world h1 = fst pre" "h_roster h1 = snd pre"
    using try_select_session_state(1) [OF t] by (auto simp: h1_def pre picks)
  have r1: "r1 = Inr () \<longleftrightarrow> picked"
    using try_select_session_state(2) [OF t]
    by (auto simp: r1_def picked require_created_session_selection_def split: sum.splits bool.splits)
  have plain: "\<nexists>a b. CreateFailed e = CreateFailed (CleanupFailed a b)" if "r1 = Inl e" for e
    using that t by (auto simp: r1_def require_created_session_selection_def try_select_session_via_sessions_plugin_def
        split: sum.splits bool.splits if_splits prod.splits select_session_error.splits)
  obtain r2 h2 where m: "mutate_state_create utext new_id c name attrs sid h1 = (r2, h2)" by fastforce
  note mf = mutate_create_state [OF m]
  have un: "(r, h') = (case (r1, h1) of
        (Inl e, h) \<Rightarrow> (case compensate_created_session sv sid (CreateFailed e) h of (e, h) \<Rightarrow> (Err e, h))
      | (Inr _, h) \<Rightarrow> (case mutate_state_create utext new_id c name attrs sid h of
             (Inl e, h) \<Rightarrow> (case compensate_created_session sv sid e h of (e, h) \<Rightarrow> (Err e, h))
           | (Inr context, h) \<Rightarrow> (case announce_created sv (options \<noteq> None) c name sid context h of (ack, h) \<Rightarrow> (Ok ack, h))))"
    unfolding run [symmetric] after_session_def r1_def h1_def t by (cases options) simp_all
  show ?thesis
  proof (cases r1)
    case (Inl e)
    obtain e' h3 where k: "compensate_created_session sv sid (CreateFailed e) h1 = (e', h3)" by fastforce
    with un Inl have "r = Inl e'" "h' = h3" by auto
    then show ?thesis using compensate_state [OF k plain [OF Inl]] h1 r1 Inl by simp
  next
    case (Inr u)
    show ?thesis
    proof (cases r2)
      case (Inl e)
      then have e: "\<nexists>a b. e = CreateFailed (CleanupFailed a b)" "h2 = h1" "\<nexists>lk. snd pre = Some lk \<and> \<not> lk_poisoned lk"
        using mf h1 by auto
      obtain e' h3 where k: "compensate_created_session sv sid e h2 = (e', h3)" by fastforce
      with un Inr Inl m have "r = Inl e'" "h' = h3" by auto
      then show ?thesis using compensate_state [OF k e(1)] h1 e(2,3) by simp
    next
      case (Inr cx)
      obtain ack h3 where a: "announce_created sv (options \<noteq> None) c name sid cx h2 = (ack, h3)" by fastforce
      with un \<open>r1 = Inr u\<close> Inr m have "r = Inr ack" "h' = h3" by auto
      moreover have picked using r1 \<open>r1 = Inr u\<close> by simp
      ultimately show ?thesis
        using announce_created_state [OF a] h1 mf Inr by (auto simp: prod_eq_iff)
    qed
  qed
qed

section \<open>Properties\<close>

text \<open>
  C34.  Creation is compensated.  Once the sessions plugin has allocated a session for a new context,
  whatever the services do to the roster meanwhile, the handler acknowledges the context exactly
  when the roster can be used and, for a fresh shell, the selection of the session was acknowledged.
  Then it inserts the context, bound to the session and selected, into the roster it finds, emits exactly
  three events in their order and never asks for the session to be killed.  Otherwise it reports
  an error and emits nothing; it writes nothing to the roster itself, its last call is the only
  one that asks the sessions plugin to kill the session, and the error reports a failed cleanup exactly
  when the reply does not confirm that the session is gone.
\<close>

theorem create_context_compensated:
  assumes "(case options of Some cwd \<Rightarrow> sv_spawn_session sv name cwd | None \<Rightarrow> sv_new_session sv name)
      (h_world h, h_roster h) = (Inr (Inr sid), w, st)"
    and "new = (case options of Some cwd \<Rightarrow> CallSpawnSession name cwd | None \<Rightarrow> CallNewSession name)"
    and "pre = (if options = None then (w, st) else snd (sv_select_session sv sid (w, st)))"
    and "picks = (if options = None then [] else [CallSelectSession (SessionId sid)])"
    and "picked \<longleftrightarrow> options = None \<or> (\<exists>i. fst (sv_select_session sv sid (w, st)) = Inr (Inr i))"
    and "create_context_with_options utext new_id sv (Some u) name attrs options h = (r, h')"
  shows "case r of
      Inl e \<Rightarrow> \<not> (picked \<and> (\<exists>lk. snd pre = Some lk \<and> \<not> lk_poisoned lk)) \<and> h_events h' = h_events h \<and>
        h_calls h' = h_calls h @ [new] @ picks @ [CallKillSession (SessionId sid)] \<and>
        (h_world h', h_roster h') = snd (sv_kill_session sv sid pre) \<and>
        ((\<exists>a b. e = CreateFailed (CleanupFailed a b)) \<longleftrightarrow> \<not> kill_confirmed (fst (sv_kill_session sv sid pre)))
    | Inr ack \<Rightarrow> picked \<and> ack = \<lparr>ca_id = new_id, ca_session_id = Some sid\<rparr> \<and>
        h_events h' = h_events h @ [Created new_id name, Selected new_id, SessionActiveContextChanged sid new_id (Some u)] \<and>
        (\<exists>lk ks. snd pre = Some lk \<and> \<not> lk_poisoned lk \<and> h_calls h' = h_calls h @ [new] @ picks @ ks \<and>
          CallKillSession (SessionId sid) \<notin> set ks \<and>
          announce_calls sv (options \<noteq> None) (SessionId sid) (fst pre, Some (lk\<lparr>lk_inner :=
            fst (context_create_bound utext new_id (ClientId u) name
              (bt_or_insert (lit ''workspace'') (lit ''default'') attrs) (SessionId sid) (lk_inner lk))\<rparr>)) =
            (ks, h_world h', h_roster h'))"
proof -
  let ?h = "h\<lparr>h_world := w, h_roster := st, h_calls := h_calls h @ [new]\<rparr>"
  have "after_session utext new_id sv (ClientId u) name (bt_or_insert (lit ''workspace'') (lit ''default'') attrs)
      options (SessionId sid) ?h = (r, h')"
    using assms(6) create_after_session [OF assms(1,2)] by simp
  note res = after_session_result [OF this, of pre picks picked]
  have "CallKillSession s \<notin> set ks" if "announce_calls sv fresh s' e = (ks, e')" for s s' ks fresh e e'
    using that by (auto simp: announce_calls_def split: if_splits prod.splits)
  then show ?thesis using res assms(3-5) by (cases r) auto
qed

lemma rename_refused:
  assumes "h_roster h = Some lk" and "rename_context_local sv w name h = (r, h')"
    and "\<nexists>sel i x. to_primitive w = Some sel \<and> trim name \<noteq> [] \<and> \<not> lk_poisoned lk \<and>
      resolve_id sel (lk_inner lk) = Inr i \<and> bt_get (cx_contexts (lk_inner lk)) i = Some x"
  shows "\<exists>e. r = Inl e \<and> h' = h"
proof -
  note defs = rename_context_local_def validate_context_rename_name_def mutate_state_rename_def local_state_def
  consider "to_primitive w = None" | sel where "to_primitive w = Some sel" "trim name = []"
    | sel where "to_primitive w = Some sel" "trim name \<noteq> []" "lk_poisoned lk"
    | sel e where "to_primitive w = Some sel" "trim name \<noteq> []" "\<not> lk_poisoned lk" "resolve_id sel (lk_inner lk) = Inl e"
    | sel i where "to_primitive w = Some sel" "trim name \<noteq> []" "\<not> lk_poisoned lk"
        "resolve_id sel (lk_inner lk) = Inr i" "bt_get (cx_contexts (lk_inner lk)) i = None"
    using assms(3) by (metis old.sum.exhaust option.exhaust)
  then show ?thesis using assms(1,2) by cases (auto simp: defs Let_def)
qed

text \<open>
  What a rename does once the context is resolved: the name is written, the session bound to the
  context, if any, is renamed, and on refusal the old name is written to the roster found then.
\<close>

definition rename_undone :: "uuid \<Rightarrow> rstring option \<Rightarrow> roster \<Rightarrow> roster" where
  "rename_undone i name roster =
     map_option (\<lambda>lk. if lk_poisoned lk then lk else lk\<lparr>lk_inner := set_context_name i name (lk_inner lk)\<rparr>) roster"

lemma rollback_state:
  "h_roster (rollback_context_rename i name h) = rename_undone i name (h_roster h)"
  "h_events (rollback_context_rename i name h) = h_events h" "h_calls (rollback_context_rename i name h) = h_calls h"
  "h_world (rollback_context_rename i name h) = h_world h"
  by (auto simp: rollback_context_rename_def rename_undone_def local_state_def split: option.split)

lemma rename_undone_restores:
  assumes "bt_wf (cx_contexts (lk_inner lk))" and "bt_get (cx_contexts (lk_inner lk)) i = Some x" and "\<not> lk_poisoned lk"
  shows "rename_undone i (rc_name x) (Some (lk\<lparr>lk_inner := set_context_name i name (lk_inner lk)\<rparr>)) = Some lk"
proof -
  have "bt_insert i x (bt_insert i (x\<lparr>rc_name := name\<rparr>) (cx_contexts (lk_inner lk))) = cx_contexts (lk_inner lk)"
    using bt.put_put [OF assms(1)] bt.put_same [OF assms(1,2)] by simp
  then show ?thesis using assms by (simp add: rename_undone_def set_context_name_def btree)
qed

lemma rename_resolved:
  assumes "h_roster h = Some lk" and "rename_context_local sv w name h = (r, h')"
    and "to_primitive w = Some sel" and "trim name \<noteq> []" and "\<not> lk_poisoned lk"
    and "resolve_id sel (lk_inner lk) = Inr i" and "bt_get (cx_contexts (lk_inner lk)) i = Some x"
    and bound: "bound = bt_get (cx_session_by_context (lk_inner lk)) i"
    and renamed: "renamed = lk\<lparr>lk_inner := set_context_name i (Some (trim name)) (lk_inner lk)\<rparr>"
    and reply: "(q, e) = (case bound of None \<Rightarrow> (Inr (Inr i), h_world h, Some renamed)
      | Some sid \<Rightarrow> sv_rename_session sv (session_uuid sid) (trim name) (h_world h, Some renamed))"
  shows "h_world h' = fst e \<and>
    h_calls h' = h_calls h @ (case bound of None \<Rightarrow> [] | Some sid \<Rightarrow> [CallRenameSession sid (trim name)]) \<and>
    (case q of
       Inr (Inr _) \<Rightarrow> r = Inr \<lparr>ca_id = i, ca_session_id = map_option session_uuid bound\<rparr> \<and>
         h_roster h' = snd e \<and> h_events h' = h_events h @ [Renamed i (trim name)]
     | _ \<Rightarrow> (\<exists>reason. r = Inl (RenameContextFailed reason)) \<and>
         h_roster h' = rename_undone i (rc_name x) (snd e) \<and> h_events h' = h_events h)"
proof -
  let ?h = "put_state (set_context_name i (Some (trim name)) (lk_inner lk)) h"
  have m: "mutate_state_rename sel (trim name) h = (Inr (i, rc_name x, bound), ?h)"
    using assms(1,5-7) by (simp add: mutate_state_rename_def local_state_def set_context_name_def bound)
  obtain p h1 where p: "(case bound of None \<Rightarrow> (Inr (), ?h)
      | Some sid \<Rightarrow> rename_session_via_sessions_plugin sv sid (trim name) ?h) = (p, h1)" by fastforce
  have h1: "h_world h1 = fst e \<and> h_roster h1 = snd e \<and> h_events h1 = h_events h \<and>
    h_calls h1 = h_calls h @ (case bound of None \<Rightarrow> [] | Some sid \<Rightarrow> [CallRenameSession sid (trim name)]) \<and>
    (p = Inr () \<longleftrightarrow> (\<exists>j. q = Inr (Inr j)))"
  proof (cases bound)
    case None
    with p reply show ?thesis by (auto simp: assms(1) renamed)
  next
    case (Some sid)
    with p have "rename_session_via_sessions_plugin sv sid (trim name) ?h = (p, h1)" by simp
    note f = rename_session_state [OF this]
    have "sv_rename_session sv (session_uuid sid) (trim name) (h_world h, Some renamed) = (q, e)"
      using reply Some by simp
    with f Some show ?thesis by (simp add: assms(1) renamed)
  qed
  have un: "(r, h') = (case (p, h1) of
      (Inl r, h) \<Rightarrow> (Inl (RenameContextFailed r), rollback_context_rename i (rc_name x) h)
    | (Inr _, h) \<Rightarrow> (Inr \<lparr>ca_id = i, ca_session_id = map_option session_uuid bound\<rparr>, emit (Renamed i (trim name)) h))"
    unfolding assms(2) [symmetric] rename_context_local_def
    by (simp add: assms(3,4) validate_context_rename_name_def Let_def m p)
  show ?thesis
    using un h1 by (cases p) (auto simp: rollback_state split: sum.split)
qed

text \<open>The context that a rename resolves, when the name, the selector and the roster allow one.\<close>

definition rename_target :: "context_wire_selector \<Rightarrow> rstring \<Rightarrow> context_state rwlock \<Rightarrow> (uuid \<times> runtime_context) option" where
  "rename_target w name lk =
     (if trim name = [] \<or> lk_poisoned lk then None
      else case to_primitive w of
        None \<Rightarrow> None
      | Some sel \<Rightarrow>
          (case resolve_id sel (lk_inner lk) of
             Inl _ \<Rightarrow> None
           | Inr i \<Rightarrow> map_option (Pair i) (bt_get (cx_contexts (lk_inner lk)) i)))"

lemma rename_target_Some:
  "rename_target w name lk = Some (i, x) \<longleftrightarrow>
    (\<exists>sel. to_primitive w = Some sel \<and> trim name \<noteq> [] \<and> \<not> lk_poisoned lk \<and>
      resolve_id sel (lk_inner lk) = Inr i \<and> bt_get (cx_contexts (lk_inner lk)) i = Some x)"
  by (auto simp: rename_target_def split: option.splits sum.splits)

text \<open>
  C35.  A refused rename puts the old name back.  A rename that resolves no context, has an empty name
  or cannot use the roster fails and changes nothing.  Otherwise the trimmed name is written and the
  session bound to the context is renamed.  When that is acknowledged, or no session is bound,
  the rename succeeds with exactly one event and the roster is what the call left.  When it is refused,
  nothing is emitted and the old name is written to the roster the call left, whatever name the
  context has by then; when the call left the roster alone the roster is as before the rename.
\<close>

theorem rename_context_rolled_back:
  assumes "h_roster h = Some lk" and "ctx_reachable utext uparse (lk_inner lk)"
    and "rename_context_local sv w name h = (r, h')"
  shows "case rename_target w name lk of
      None \<Rightarrow> (\<exists>e. r = Inl e) \<and> h' = h
    | Some (i, x) \<Rightarrow>
        (let renamed = Some (lk\<lparr>lk_inner := (lk_inner lk)\<lparr>cx_contexts :=
               bt_insert i (x\<lparr>rc_name := Some (trim name)\<rparr>) (cx_contexts (lk_inner lk))\<rparr>\<rparr>);
             (reply, w', roster) = (case bt_get (cx_session_by_context (lk_inner lk)) i of
                 None \<Rightarrow> (Inr (Inr i), h_world h, renamed)
               | Some sid \<Rightarrow> sv_rename_session sv (session_uuid sid) (trim name) (h_world h, renamed))
         in case reply of
              Inr (Inr _) \<Rightarrow> (\<exists>ack. r = Inr ack \<and> ca_id ack = i) \<and> h_roster h' = roster \<and>
                h_events h' = h_events h @ [Renamed i (trim name)]
            | _ \<Rightarrow> (\<exists>reason. r = Inl (RenameContextFailed reason)) \<and> h_events h' = h_events h \<and>
                h_roster h' = rename_undone i (rc_name x) roster \<and> (roster = renamed \<longrightarrow> h_roster h' = h_roster h))"
proof (cases "rename_target w name lk")
  case None
  then have "\<nexists>sel i x. to_primitive w = Some sel \<and> trim name \<noteq> [] \<and> \<not> lk_poisoned lk \<and>
      resolve_id sel (lk_inner lk) = Inr i \<and> bt_get (cx_contexts (lk_inner lk)) i = Some x"
    by (metis rename_target_Some option.discI)
  from rename_refused [OF assms(1,3) this] None show ?thesis by auto
next
  case (Some ix)
  let ?st = "lk_inner lk"
  obtain i x where ix: "ix = (i, x)" by (cases ix)
  with Some rename_target_Some obtain sel where t: "to_primitive w = Some sel" "trim name \<noteq> []" "\<not> lk_poisoned lk"
    "resolve_id sel ?st = Inr i" "bt_get (cx_contexts ?st) i = Some x" by blast
  define lk' where "lk' = lk\<lparr>lk_inner := set_context_name i (Some (trim name)) ?st\<rparr>"
  obtain q w' roster where q: "(q, w', roster) = (case bt_get (cx_session_by_context ?st) i of
      None \<Rightarrow> (Inr (Inr i), h_world h, Some lk')
    | Some sid \<Rightarrow> sv_rename_session sv (session_uuid sid) (trim name) (h_world h, Some lk'))"
    by (metis surj_pair)
  have wf: "bt_wf (cx_contexts ?st)" using ctx_reachable_ok [OF assms(2)] by (simp add: context_ok_def)
  have undo: "rename_undone i (rc_name x) (Some lk') = Some lk"
    unfolding lk'_def by (rule rename_undone_restores [OF wf t(5,3)])
  have lk': "lk\<lparr>lk_inner := ?st\<lparr>cx_contexts := bt_insert i (x\<lparr>rc_name := Some (trim name)\<rparr>) (cx_contexts ?st)\<rparr>\<rparr> = lk'"
    by (simp add: lk'_def set_context_name_def t(5))
  show ?thesis
    using rename_resolved [OF assms(1,3) t refl lk'_def q]
    by (auto simp: Some ix lk' q [symmetric] undo assms(1) split: sum.splits)
qed




text \<open>
  C37.  Closing announces a selection that did not change.  When a client closes a context other than
  the one it has selected, its selection stays, but the outcome names that selection as the replacement,
  so the handler selects its session again and emits the events of a selection.
\<close>

theorem close_announces_unchanged_selection:
  assumes "h_roster h = Some lk" and "\<not> lk_poisoned lk" and "ctx_reachable utext uparse (lk_inner lk)"
    and "bt_contains (cx_contexts (lk_inner lk)) i"
    and "bt_get (cx_selected_by_client (lk_inner lk)) (ClientId u) = Some j" and "j \<noteq> i"
    and "close_context_local sv (Some u) \<lparr>cw_id = Some i, cw_name = None\<rparr> h = (r, h')"
  shows "(\<exists>out h1 st. mutate_state_close (ClientId u) (ById i) h = (Inr out, h1) \<and>
      co_replacement out = Some (j, bt_get (cx_session_by_context (lk_inner lk)) j) \<and>
      h_roster h1 = Some (lk\<lparr>lk_inner := st\<rparr>) \<and> bt_get (cx_selected_by_client st) (ClientId u) = Some j) \<and>
    h_events h' = h_events h @ [Closed i, Selected j] @
      (case bt_get (cx_session_by_context (lk_inner lk)) j of
         None \<Rightarrow> [] | Some sid \<Rightarrow> [SessionActiveContextChanged (session_uuid sid) j (Some u)])"
proof -
  note ok = ctx_reachable_ok [OF assms(3)]
  obtain x where x: "bt_get (cx_contexts (lk_inner lk)) i = Some x" using assms(4) by (auto simp: btree)
  obtain st res where r: "remove_context_by_id i (Some (ClientId u)) (lk_inner lk) = (st, res)" by fastforce
  note f = remove_context_by_id_result [OF ok x r refl]
  have sel: "bt_get (cx_selected_by_client st) (ClientId u) = Some j" using f(6) assms(5,6) by simp
  have sess: "bt_get (cx_session_by_context st) j = bt_get (cx_session_by_context (lk_inner lk)) j"
    using ok assms(6) by (simp add: f(3) context_ok_def btree)
  define bound where "bound = bt_get (cx_session_by_context (lk_inner lk)) i"
  let ?out = "\<lparr>co_removed_id = i, co_bound_session_id = bound,
      co_replacement = Some (j, bt_get (cx_session_by_context (lk_inner lk)) j)\<rparr>"
  have m: "mutate_state_close (ClientId u) (ById i) h = (Inr ?out, put_state st h)"
    using assms(1,2,4) by (simp add: mutate_state_close_def local_state_def context_close_def resolve_id_def r f(1) sel sess bound_def)
  define h2 where "h2 = (case bound of None \<Rightarrow> put_state st h
      | Some sid \<Rightarrow> snd (kill_session_via_sessions_plugin sv sid (put_state st h)))"
  have h2: "h_events h2 = h_events h"
    using kill_session_state(1) [of sv _ "put_state st h", OF prod.collapse [symmetric]] by (simp add: h2_def split: option.split)
  have h': "h' = announce_replacement sv (ClientId u) (Some (j, bt_get (cx_session_by_context (lk_inner lk)) j)) (emit (Closed i) h2)"
    using assms(7) by (simp add: close_context_local_def to_primitive_def resolve_caller_client_id_def m Let_def h2_def)
  have "h_events h' = h_events h @ [Closed i, Selected j] @
      (case bt_get (cx_session_by_context (lk_inner lk)) j of
         None \<Rightarrow> [] | Some sid \<Rightarrow> [SessionActiveContextChanged (session_uuid sid) j (Some u)])"
  proof (cases "bt_get (cx_session_by_context (lk_inner lk)) j")
    case None
    then show ?thesis by (simp add: h' announce_replacement_def h2)
  next
    case (Some sid)
    obtain q h3 where t: "try_select_session_via_sessions_plugin sv sid (emit (Closed i) h2) = (q, h3)" by fastforce
    note ev = try_select_session_state(1) [OF t]
    show ?thesis
      using Some ev h2
      by (cases q) (simp_all add: h' announce_replacement_def select_session_via_sessions_plugin_def t Let_def log_write_called)
  qed
  moreover have "h_roster (put_state st h) = Some (lk\<lparr>lk_inner := st\<rparr>)" using assms(1) by simp
  ultimately show ?thesis using m sel by fastforce
qed

text \<open>
  C38.  A repaired selection can leave a session behind.  The session of the selected context is gone
  and the handler has a replacement created; when another thread closes the context during that call,
  binding the replacement fails and the handler returns an error.  It does not kill the session it
  had created, and no context is bound to it.
\<close>

theorem select_repair_leaks_session:
  assumes "to_primitive w = Some sel" and "resolve_selection_target sel h = Inr (cx, Some sid)"
    and "sv_select_session sv (session_uuid sid) (h_world h, h_roster h) = (Inr (Inl SelectNotFound), w1, st1)"
    and "sv_new_session sv (cs_name cx) (w1, st1) = (Inr (Inr new_sid), w2, Some lk)"
    and "\<not> lk_poisoned lk" and "bt_get (cx_contexts (lk_inner lk)) (cs_id cx) = None"
  shows "\<exists>h'. select_context_local utext sv (Some u) w h =
      (Inl (SelectContextDenied (ResolveFailed ContextNotFound)), h') \<and>
    h_calls h' = h_calls h @ [CallSelectSession sid, CallNewSession (cs_name cx)] \<and>
    h_roster h' = Some lk \<and> h_events h' = h_events h"
  using assms
  by (simp add: select_context_local_def resolve_caller_client_id_def select_or_repair_session_def
      try_select_session_via_sessions_plugin_def create_session_for_select_repair_def
      create_session_via_sessions_plugin_def bind_context_session_for_select_repair_def bind_session_def
      local_state_def invoke_def put_state_def)

section \<open>Instances\<close>

text \<open>
  A simple sessions plugin: sessions are created, selection
  succeeds or finds nothing, killing a session removes its contexts as the pane runtime does, and
  renaming is refused.
\<close>

definition demo_services :: "bool \<Rightarrow> unit services" where
  "demo_services found =
     \<lparr>sv_current_client = (\<lambda>(w, st). (Inr (Inr 7), w, st)),
      sv_new_session = (\<lambda>_ (w, st). (Inr (Inr 5), w, st)),
      sv_spawn_session = (\<lambda>_ _ (w, st). (Inr (Inr 5), w, st)),
      sv_kill_session = (\<lambda>i (w, st). (Inr (Inr i), w,
        map_option (\<lambda>lk. lk\<lparr>lk_inner := fst (remove_contexts_for_session (SessionId i) (lk_inner lk))\<rparr>) st)),
      sv_select_session = (\<lambda>i (w, st). (Inr (if found then Inr i else Inl SelectNotFound), w, st)),
      sv_rename_session = (\<lambda>_ _ (w, st). (Inr (Inl SessionRenameNotFound), w, st)),
      sv_log_write = id\<rparr>"

definition demo_lock :: "context_state rwlock" where
  "demo_lock = \<lparr>lk_poisoned = False, lk_inner = demo_contexts\<rparr>"

definition demo_handler :: "unit handler" where
  "demo_handler = \<lparr>h_world = (), h_roster = Some demo_lock, h_events = [], h_calls = []\<rparr>"

lemma demo_handler_simps [simp]:
  "h_roster demo_handler = Some demo_lock" "lk_inner demo_lock = demo_contexts" "\<not> lk_poisoned demo_lock"
  "h_events demo_handler = []" "h_calls demo_handler = []" "h_world demo_handler = ()"
  by (simp_all add: demo_handler_def demo_lock_def)

lemma demo_contexts_get: "bt_contains (cx_contexts demo_contexts) 1" "bt_contains (cx_contexts demo_contexts) 2"
  by (simp_all add: demo_contexts_def context_create_bound_def context_state_default_def context_create_def touch_mru_def
      record_visit_def Let_def to_summary_def bt_contains_def bt_get_def)

theorem create_context_compensated_witness:
  "\<exists>e h'. create_context_with_options demo_utext 3 (demo_services False) (Some 7) None [] (Some None) demo_handler = (Inl e, h') \<and>
     last (h_calls h') = CallKillSession (SessionId 5) \<and> (\<nexists>a b. e = CreateFailed (CleanupFailed a b))"
proof -
  obtain r h' where run: "create_context_with_options demo_utext 3 (demo_services False) (Some 7) None [] (Some None) demo_handler = (r, h')"
    by fastforce
  have new: "(case Some None of Some cwd \<Rightarrow> sv_spawn_session (demo_services False) None cwd | None \<Rightarrow> sv_new_session (demo_services False) None)
      (h_world demo_handler, h_roster demo_handler) = (Inr (Inr 5), (), Some demo_lock)"
    by (simp add: demo_services_def)
  have kill: "kill_confirmed (fst (sv_kill_session (demo_services False) 5 e))" for e
    by (simp add: demo_services_def case_prod_unfold)
  have sel: "\<not> (\<exists>i. fst (sv_select_session (demo_services False) 5 ((), Some demo_lock)) = Inr (Inr i))"
    by (simp add: demo_services_def)
  note res = create_context_compensated [OF new refl refl refl refl run]
  show ?thesis using res sel kill run by (cases r) auto
qed

theorem rename_context_rolled_back_witness:
  "\<exists>reason h'. rename_context_local (demo_services True) \<lparr>cw_id = Some 2, cw_name = None\<rparr> [65] demo_handler =
      (Inl (RenameContextFailed reason), h') \<and> h_roster h' = Some demo_lock"
proof -
  obtain r h' where run: "rename_context_local (demo_services True) \<lparr>cw_id = Some 2, cw_name = None\<rparr> [65] demo_handler = (r, h')"
    by fastforce
  have reach: "ctx_reachable demo_utext demo_uparse (lk_inner demo_lock)" by (simp add: demo_contexts_reachable)
  obtain x where x: "bt_get (cx_contexts demo_contexts) 2 = Some x" using demo_contexts_get by (auto simp: btree)
  have "trim [65] \<noteq> []" by code_simp
  with x have target: "rename_target \<lparr>cw_id = Some 2, cw_name = None\<rparr> [65] demo_lock = Some (2, x)"
    using demo_contexts_get by (simp add: rename_target_Some to_primitive_def resolve_id_def)
  have bound: "bt_get (cx_session_by_context demo_contexts) 2 = Some (SessionId 9)"
    by (simp add: demo_contexts_tables bt_get_def)
  from rename_context_rolled_back [OF demo_handler_simps(1) reach run] run show ?thesis
    by (auto simp: target bound demo_services_def)
qed


theorem close_announces_unchanged_selection_witness:
  "\<exists>r h'. close_context_local (demo_services True) (Some 7) \<lparr>cw_id = Some 1, cw_name = None\<rparr> demo_handler = (r, h') \<and>
     h_events h' = [Closed 1, Selected 2, SessionActiveContextChanged 9 2 (Some 7)]"
proof -
  obtain r h' where run: "close_context_local (demo_services True) (Some 7) \<lparr>cw_id = Some 1, cw_name = None\<rparr> demo_handler = (r, h')"
    by fastforce
  have reach: "ctx_reachable demo_utext demo_uparse (lk_inner demo_lock)" by (simp add: demo_contexts_reachable)
  have sel: "bt_get (cx_selected_by_client (lk_inner demo_lock)) (ClientId 7) = Some 2"
    by (simp add: demo_contexts_tables bt_get_def)
  have one: "bt_contains (cx_contexts (lk_inner demo_lock)) 1" by (simp add: demo_contexts_get)
  from close_announces_unchanged_selection [OF demo_handler_simps(1,3) reach one sel _ run] run show ?thesis
    by (simp add: demo_contexts_tables bt_get_def)
qed

text \<open>Services with another thread that closes every context while a session is created.\<close>

definition demo_racing_services :: "unit services" where
  "demo_racing_services = (demo_services False)\<lparr>sv_new_session :=
     (\<lambda>_ (w, st). (Inr (Inr 5), w, Some \<lparr>lk_poisoned = False, lk_inner = context_state_default\<rparr>))\<rparr>"

theorem select_repair_leaks_session_witness:
  "\<exists>h'. select_context_local demo_utext demo_racing_services (Some 7) \<lparr>cw_id = Some 2, cw_name = None\<rparr> demo_handler =
      (Inl (SelectContextDenied (ResolveFailed ContextNotFound)), h') \<and>
     CallKillSession (SessionId 5) \<notin> set (h_calls h')"
proof -
  obtain x where x: "bt_get (cx_contexts demo_contexts) 2 = Some x" using demo_contexts_get by (auto simp: btree)
  have target: "resolve_selection_target (ById 2) demo_handler = Inr (to_summary x, Some (SessionId 9))"
    using x demo_contexts_get by (simp add: resolve_selection_target_def local_state_def resolve_id_def demo_contexts_tables bt_get_def)
  have sel: "to_primitive \<lparr>cw_id = Some 2, cw_name = None\<rparr> = Some (ById 2)" by (simp add: to_primitive_def)
  have gone: "sv_select_session demo_racing_services (session_uuid (SessionId 9)) (h_world demo_handler, h_roster demo_handler)
      = (Inr (Inl SelectNotFound), (), Some demo_lock)"
    by (simp add: demo_racing_services_def demo_services_def)
  have new: "sv_new_session demo_racing_services (cs_name (to_summary x)) ((), Some demo_lock)
      = (Inr (Inr 5), (), Some \<lparr>lk_poisoned = False, lk_inner = context_state_default\<rparr>)"
    by (simp add: demo_racing_services_def demo_services_def)
  from select_repair_leaks_session [OF sel target gone new, of demo_utext 7] show ?thesis
    by (auto simp: context_state_default_def)
qed

end
