(* ===== verification/Follow_State.thy ===== *)
theory Follow_State
  imports Bmux_BTree
begin

text \<open>
  The clients plugin's follow state, \<^verbatim>\<open>plugins/clients-plugin/src/follow_state.rs\<close>, with its types from
  \<^verbatim>\<open>packages/client-state\<close>, the selection reservations of \<^verbatim>\<open>selection.rs\<close> and the writer operations
  of the adapter in \<^verbatim>\<open>lib.rs\<close> that have a body of their own.  A revision is a 64-bit word whose
  additions are checked or saturate, as in the code.
\<close>

section \<open>Types\<close>

record follow_entry =
  fe_leader_client_id :: client_id
  fe_global :: bool

record follow_target_update =
  fu_follower_client_id :: client_id
  fu_leader_client_id :: client_id
  fu_context_id :: "uuid option"
  fu_session_id :: "session_id option"

record follow_target_gone =
  fg_follower_client_id :: client_id
  fg_former_leader_client_id :: client_id

record client_summary =
  cl_id :: uuid
  cl_selected_context_id :: "uuid option"
  cl_selected_session_id :: "uuid option"
  cl_following_client_id :: "uuid option"
  cl_following_global :: bool

record follow_snapshot =
  fn_connected_clients :: "client_id bset"
  fn_selected_contexts :: "(client_id, uuid option) btree"
  fn_selected_sessions :: "(client_id, session_id option) btree"
  fn_follows :: "(client_id, follow_entry) btree"
  fn_attached_stream_sessions :: "(client_id, session_id option) btree"
  fn_attach_detach_allowed :: "(client_id, bool) btree"

record follow_state =
  fs_selection_revisions :: "(client_id, u64) btree"
  fs_selection_reservations :: "(client_id, u64) btree"
  fs_connected_clients :: "client_id bset"
  fs_selected_contexts :: "(client_id, uuid option) btree"
  fs_selected_sessions :: "(client_id, session_id option) btree"
  fs_follows :: "(client_id, follow_entry) btree"
  fs_attached_stream_sessions :: "(client_id, session_id option) btree"
  fs_attach_detach_allowed :: "(client_id, bool) btree"

definition follow_state_default :: follow_state where
  "follow_state_default =
     \<lparr>fs_selection_revisions = [], fs_selection_reservations = [], fs_connected_clients = [],
      fs_selected_contexts = [], fs_selected_sessions = [], fs_follows = [],
      fs_attached_stream_sessions = [], fs_attach_detach_allowed = []\<rparr>"

text \<open>\<^verbatim>\<open>get(k).copied().flatten()\<close> and \<^verbatim>\<open>get(k).copied().unwrap_or_default()\<close>.\<close>

definition get_flat :: "('k, 'v option) btree \<Rightarrow> 'k \<Rightarrow> 'v option" where
  "get_flat m k = (case bt_get m k of None \<Rightarrow> None | Some x \<Rightarrow> x)"

definition revision_of :: "client_id \<Rightarrow> follow_state \<Rightarrow> u64" where
  "revision_of c st = (case bt_get (fs_selection_revisions st) c of None \<Rightarrow> 0 | Some r \<Rightarrow> r)"

section \<open>Connections\<close>

definition connect_client :: "client_id \<Rightarrow> follow_state \<Rightarrow> follow_state" where
  "connect_client c st =
     st\<lparr>fs_connected_clients := bs_insert c (fs_connected_clients st),
        fs_selected_contexts := bt_or_insert c None (fs_selected_contexts st),
        fs_selected_sessions := bt_or_insert c None (fs_selected_sessions st),
        fs_attached_stream_sessions := bt_or_insert c None (fs_attached_stream_sessions st),
        fs_attach_detach_allowed := bt_or_insert c True (fs_attach_detach_allowed st)\<rparr>"

text \<open>The second loop of a disconnect removes the impacted followers and reports each.\<close>

fun drop_followers ::
    "client_id list \<Rightarrow> (client_id, follow_entry) btree \<Rightarrow>
     follow_target_gone list \<times> (client_id, follow_entry) btree" where
  "drop_followers [] m = ([], m)"
| "drop_followers (f # fs) m =
     (case bt_get m f of
        None \<Rightarrow> drop_followers fs m
      | Some e \<Rightarrow>
          (case drop_followers fs (bt_remove f m) of
             (us, m') \<Rightarrow>
               (\<lparr>fg_follower_client_id = f, fg_former_leader_client_id = fe_leader_client_id e\<rparr> # us, m')))"

definition follow_disconnect_client ::
    "client_id \<Rightarrow> follow_state \<Rightarrow> follow_state \<times> follow_target_gone list" where
  "follow_disconnect_client c st =
     (let st = st\<lparr>fs_connected_clients := bs_remove c (fs_connected_clients st)\<rparr>;
          st = st\<lparr>fs_selection_revisions :=
            (case bt_get (fs_selection_revisions st) c of
               None \<Rightarrow> fs_selection_revisions st
             | Some revision \<Rightarrow> bt_insert c (saturating_add revision 1) (fs_selection_revisions st))\<rparr>;
          st = st\<lparr>fs_selection_reservations := bt_remove c (fs_selection_reservations st),
                  fs_selected_contexts := bt_remove c (fs_selected_contexts st),
                  fs_selected_sessions := bt_remove c (fs_selected_sessions st),
                  fs_attached_stream_sessions := bt_remove c (fs_attached_stream_sessions st),
                  fs_attach_detach_allowed := bt_remove c (fs_attach_detach_allowed st),
                  fs_follows := bt_remove c (fs_follows st)\<rparr>;
          impacted_followers = map fst (filter (\<lambda>(_, e). fe_leader_client_id e = c) (fs_follows st))
      in case drop_followers impacted_followers (fs_follows st) of
           (us, m) \<Rightarrow> (st\<lparr>fs_follows := m\<rparr>, us))"

section \<open>Targets and follow relationships\<close>

definition set_selected_target ::
    "client_id \<Rightarrow> uuid option \<Rightarrow> session_id option \<Rightarrow> follow_state \<Rightarrow> follow_state" where
  "set_selected_target c ctx ses st =
     (if c \<in> set (fs_connected_clients st)
      then
        let revision = revision_of c st;
            st = st\<lparr>fs_selection_revisions := bt_or_insert c 0 (fs_selection_revisions st)\<rparr>
        in case checked_add revision 1 of
             None \<Rightarrow> st\<lparr>fs_selection_reservations := bt_insert c (- 1) (fs_selection_reservations st)\<rparr>
           | Some next_revision \<Rightarrow>
               st\<lparr>fs_selection_revisions := bt_insert c next_revision (fs_selection_revisions st),
                  fs_selected_contexts := bt_insert c ctx (fs_selected_contexts st),
                  fs_selected_sessions := bt_insert c ses (fs_selected_sessions st)\<rparr>
      else st)"

definition selected_target :: "client_id \<Rightarrow> follow_state \<Rightarrow> (uuid option \<times> session_id option) option" where
  "selected_target c st =
     (if bt_contains (fs_selection_reservations st) c then Some (None, None)
      else case bt_get (fs_selected_contexts st) c of
          None \<Rightarrow> None
        | Some ctx \<Rightarrow>
            (case bt_get (fs_selected_sessions st) c of
               None \<Rightarrow> None
             | Some ses \<Rightarrow> Some (ctx, ses)))"

datatype follow_error = CannotFollowSelf | TargetNotConnected | FollowerNotConnected

definition start_follow ::
    "client_id \<Rightarrow> client_id \<Rightarrow> bool \<Rightarrow> follow_state \<Rightarrow>
     follow_state \<times> (follow_error + uuid option \<times> session_id option)" where
  "start_follow follower leader global st =
     (if follower = leader then (st, Err CannotFollowSelf)
      else if leader \<notin> set (fs_connected_clients st) then (st, Err TargetNotConnected)
      else if follower \<notin> set (fs_connected_clients st) then (st, Err FollowerNotConnected)
      else
        let st = st\<lparr>fs_follows :=
              bt_insert follower \<lparr>fe_leader_client_id = leader, fe_global = global\<rparr> (fs_follows st)\<rparr>
        in if global
           then (case (case selected_target leader st of None \<Rightarrow> (None, None) | Some t \<Rightarrow> t) of
                   (ctx, ses) \<Rightarrow> (set_selected_target follower ctx ses st, Ok (ctx, ses)))
           else (st, Ok (None, None)))"

definition stop_follow :: "client_id \<Rightarrow> follow_state \<Rightarrow> follow_state \<times> bool" where
  "stop_follow follower st =
     (st\<lparr>fs_follows := bt_remove follower (fs_follows st)\<rparr>, bt_contains (fs_follows st) follower)"

fun sync_each ::
    "client_id \<Rightarrow> uuid option \<Rightarrow> session_id option \<Rightarrow> client_id list \<Rightarrow> follow_state \<Rightarrow>
     follow_state \<times> follow_target_update list" where
  "sync_each leader ctx ses [] st = (st, [])"
| "sync_each leader ctx ses (f # fs) st =
     (if f \<in> set (fs_connected_clients st)
      then
        let previous = get_flat (fs_selected_sessions st) f;
            previous_context = get_flat (fs_selected_contexts st) f;
            st = set_selected_target f ctx ses st;
            changed = (previous \<noteq> ses \<or> previous_context \<noteq> ctx)
        in case sync_each leader ctx ses fs st of
             (st, us) \<Rightarrow>
               (st, (if changed
                     then [\<lparr>fu_follower_client_id = f, fu_leader_client_id = leader,
                            fu_context_id = ctx, fu_session_id = ses\<rparr>]
                     else []) @ us)
      else sync_each leader ctx ses fs st)"

definition sync_followers_from_leader ::
    "client_id \<Rightarrow> uuid option \<Rightarrow> session_id option \<Rightarrow> follow_state \<Rightarrow>
     follow_state \<times> follow_target_update list" where
  "sync_followers_from_leader leader ctx ses st =
     (let followers = map fst (filter (\<lambda>(_, e). fe_leader_client_id e = leader \<and> fe_global e) (fs_follows st))
      in sync_each leader ctx ses followers st)"

definition list_clients :: "follow_state \<Rightarrow> client_summary list" where
  "list_clients st =
     map (\<lambda>c.
       let (ctx, ses) = (case selected_target c st of None \<Rightarrow> (None, None) | Some t \<Rightarrow> t);
           (following, global) =
             (case bt_get (fs_follows st) c of
                None \<Rightarrow> (None, False)
              | Some e \<Rightarrow> (Some (client_uuid (fe_leader_client_id e)), fe_global e))
       in \<lparr>cl_id = client_uuid c, cl_selected_context_id = ctx,
           cl_selected_session_id = map_option session_uuid ses,
           cl_following_client_id = following, cl_following_global = global\<rparr>)
       (fs_connected_clients st)"

section \<open>Attached streams\<close>

definition attached_stream_session :: "client_id \<Rightarrow> follow_state \<Rightarrow> session_id option" where
  "attached_stream_session c st = get_flat (fs_attached_stream_sessions st) c"

definition set_attached_stream_session ::
    "client_id \<Rightarrow> session_id option \<Rightarrow> follow_state \<Rightarrow> follow_state" where
  "set_attached_stream_session c ses st =
     (if c \<in> set (fs_connected_clients st)
      then st\<lparr>fs_attached_stream_sessions := bt_insert c ses (fs_attached_stream_sessions st)\<rparr> else st)"

definition attach_detach_allowed :: "client_id \<Rightarrow> follow_state \<Rightarrow> bool" where
  "attach_detach_allowed c st =
     (case bt_get (fs_attach_detach_allowed st) c of None \<Rightarrow> True | Some b \<Rightarrow> b)"

definition set_attach_detach_allowed :: "client_id \<Rightarrow> bool \<Rightarrow> follow_state \<Rightarrow> follow_state" where
  "set_attach_detach_allowed c allowed st =
     (if c \<in> set (fs_connected_clients st)
      then st\<lparr>fs_attach_detach_allowed := bt_insert c allowed (fs_attach_detach_allowed st)\<rparr> else st)"

section \<open>Selection reservations\<close>

record selection =
  sl_revision :: u64
  sl_context_id :: "uuid option"
  sl_session_id :: "uuid option"
  sl_suspended :: bool

datatype selection_error = NoCurrentClient | SelectionConflict | InvalidTarget | SelectionFailed rstring

definition selection_of :: "client_id \<Rightarrow> follow_state \<Rightarrow> selection_error + selection" where
  "selection_of c st =
     (if c \<notin> set (fs_connected_clients st) then Err NoCurrentClient
      else Ok \<lparr>sl_revision = revision_of c st, sl_context_id = get_flat (fs_selected_contexts st) c,
               sl_session_id = map_option session_uuid (get_flat (fs_selected_sessions st) c),
               sl_suspended = bt_contains (fs_selection_reservations st) c\<rparr>)"

definition recover_selection ::
    "client_id \<Rightarrow> u64 \<Rightarrow> follow_state \<Rightarrow> follow_state \<times> (selection_error + selection)" where
  "recover_selection c expected st =
     (case selection_of c st of
        Inl e \<Rightarrow> (st, Err e)
      | Inr current \<Rightarrow>
          if sl_revision current \<noteq> expected \<or> \<not> sl_suspended current then (st, Err SelectionConflict)
          else case checked_add expected 1 of
              None \<Rightarrow> (st, Err (SelectionFailed (lit ''selection revision exhausted'')))
            | Some revision \<Rightarrow>
                let st = st\<lparr>fs_selected_contexts := bt_insert c None (fs_selected_contexts st),
                            fs_selected_sessions := bt_insert c None (fs_selected_sessions st),
                            fs_selection_revisions := bt_insert c revision (fs_selection_revisions st),
                            fs_selection_reservations := bt_remove c (fs_selection_reservations st)\<rparr>
                in (st, selection_of c st))"

definition begin_selection ::
    "client_id \<Rightarrow> u64 \<Rightarrow> follow_state \<Rightarrow> follow_state \<times> (selection_error + selection)" where
  "begin_selection c expected st =
     (case selection_of c st of
        Inl e \<Rightarrow> (st, Err e)
      | Inr current \<Rightarrow>
          if sl_revision current \<noteq> expected \<or> sl_suspended current then (st, Err SelectionConflict)
          else case checked_add expected 1 of
              None \<Rightarrow> (st, Err (SelectionFailed (lit ''selection revision exhausted'')))
            | Some revision \<Rightarrow>
                let st = st\<lparr>fs_selection_revisions := bt_insert c revision (fs_selection_revisions st),
                            fs_selection_reservations := bt_insert c revision (fs_selection_reservations st)\<rparr>
                in (st, selection_of c st))"

definition commit_selection ::
    "client_id \<Rightarrow> u64 \<Rightarrow> uuid option \<Rightarrow> uuid option \<Rightarrow> follow_state \<Rightarrow>
     follow_state \<times> (selection_error + selection)" where
  "commit_selection c expected ctx ses st =
     (case selection_of c st of
        Inl e \<Rightarrow> (st, Err e)
      | Inr current \<Rightarrow>
          if sl_revision current \<noteq> expected \<or> bt_get (fs_selection_reservations st) c \<noteq> Some expected
          then (st, Err SelectionConflict)
          else if ctx \<noteq> None \<and> ses = None then (st, Err InvalidTarget)
          else case checked_add expected 1 of
              None \<Rightarrow> (st, Err (SelectionFailed (lit ''selection revision exhausted'')))
            | Some revision \<Rightarrow>
                let st = st\<lparr>fs_selected_contexts := bt_insert c ctx (fs_selected_contexts st),
                            fs_selected_sessions := bt_insert c (map_option SessionId ses) (fs_selected_sessions st),
                            fs_selection_revisions := bt_insert c revision (fs_selection_revisions st),
                            fs_selection_reservations := bt_remove c (fs_selection_reservations st)\<rparr>
                in (st, selection_of c st))"

section \<open>Writer operations of the adapter\<close>

definition clear_all_selections :: "follow_state \<Rightarrow> follow_state" where
  "clear_all_selections st = fold (\<lambda>c. set_selected_target c None None) (fs_connected_clients st) st"

definition clear_all_follow_state :: "follow_state \<Rightarrow> follow_state" where
  "clear_all_follow_state st =
     (let st = st\<lparr>fs_follows := []\<rparr>
      in fold (\<lambda>c. set_selected_target c None None) (fs_connected_clients st) st)"

definition clear_selections_for_session :: "session_id \<Rightarrow> follow_state \<Rightarrow> follow_state" where
  "clear_selections_for_session ses st =
     (let affected_clients = map fst (filter (\<lambda>(_, selected). selected = Some ses) (fs_selected_sessions st));
          st = fold (\<lambda>c. set_selected_target c None None) affected_clients st
      in fold (\<lambda>c st. fst (sync_followers_from_leader c None None st)) affected_clients st)"

definition follow_snapshot_of :: "follow_state \<Rightarrow> follow_snapshot" where
  "follow_snapshot_of st =
     \<lparr>fn_connected_clients = fs_connected_clients st, fn_selected_contexts = fs_selected_contexts st,
      fn_selected_sessions = fs_selected_sessions st, fn_follows = fs_follows st,
      fn_attached_stream_sessions = fs_attached_stream_sessions st,
      fn_attach_detach_allowed = fs_attach_detach_allowed st\<rparr>"

text \<open>The loop that fences the reservations of the restored clients.\<close>

definition fence :: "client_id \<Rightarrow> (client_id, u64) btree \<Rightarrow> (client_id, u64) btree" where
  "fence c m =
     bt_insert c (saturating_add (case bt_get m c of None \<Rightarrow> 0 | Some r \<Rightarrow> r) 1) m"

definition follow_restore_snapshot :: "follow_snapshot \<Rightarrow> follow_state \<Rightarrow> follow_state" where
  "follow_restore_snapshot sn st =
     st\<lparr>fs_selection_revisions := fold fence (fn_connected_clients sn) (fs_selection_revisions st),
        fs_connected_clients := fn_connected_clients sn,
        fs_selected_contexts := fn_selected_contexts sn,
        fs_selected_sessions := fn_selected_sessions sn,
        fs_follows := fn_follows sn,
        fs_attached_stream_sessions := fn_attached_stream_sessions sn,
        fs_attach_detach_allowed := fn_attach_detach_allowed sn\<rparr>"

end
