(* ===== verification/Follow_Handlers.thy ===== *)
theory Follow_Handlers
  imports Follow_State Session_Manager Context_State
begin

text \<open>
  The selection commands of \<^verbatim>\<open>plugins/clients-plugin/src/lib.rs\<close>: a commit is authorized by the
  policy service, its session is looked up in the session roster and its context in the context
  roster, and only then the reservation is committed.  The policy service is reached over the service
  bus and is a parameter, as is the table of principals that the server owns; the registered states
  of the other plugins are arguments, \<^term>\<open>None\<close> when they are not registered.
\<close>

section \<open>Readers of the other plugins\<close>

definition sessions_contains :: "session_id \<Rightarrow> session_manager rwlock \<Rightarrow> bool" where
  "sessions_contains i lk = with_read (\<lambda>m. get_session m i \<noteq> None) False lk"

definition contexts_list :: "context_state rwlock \<Rightarrow> context_summary list" where
  "contexts_list lk = with_read context_list [] lk"

section \<open>Authorization\<close>

text \<open>The reply of the policy service: no provider, a failed call, or a decision with its reason.\<close>

datatype policy_reply = PolicyMissing | PolicyFailed rstring | PolicyDecision bool "rstring option"

type_synonym policy = "uuid \<Rightarrow> uuid option \<Rightarrow> uuid \<Rightarrow> uuid \<Rightarrow> rstring \<Rightarrow> policy_reply"

type_synonym principals = "(client_id \<Rightarrow> uuid option) rwlock option"

definition principal_of :: "principals \<Rightarrow> uuid \<Rightarrow> uuid" where
  "principal_of principals client =
     (case principals of
        None \<Rightarrow> 0
      | Some lk \<Rightarrow>
          if lk_poisoned lk then 0
          else case lk_inner lk (ClientId client) of None \<Rightarrow> 0 | Some p \<Rightarrow> p)"

definition authorize_selection ::
    "policy \<Rightarrow> principals \<Rightarrow> uuid \<Rightarrow> uuid option \<Rightarrow> uuid \<Rightarrow> selection_error + unit" where
  "authorize_selection check principals client ctx ses =
     (case check ses ctx client (principal_of principals client) (lit ''session.select'') of
        PolicyMissing \<Rightarrow> Ok ()
      | PolicyFailed err \<Rightarrow> Err (SelectionFailed (lit ''selection authorization failed: '' @ err))
      | PolicyDecision allowed reason \<Rightarrow>
          if \<not> allowed
          then Err (SelectionFailed (case reason of Some r \<Rightarrow> r | None \<Rightarrow> lit ''selection denied''))
          else Ok ())"

definition validate_selection_binding ::
    "(rstring \<Rightarrow> uuid option) \<Rightarrow> uuid \<Rightarrow> uuid option \<Rightarrow> context_summary \<Rightarrow> selection_error + unit" where
  "validate_selection_binding uparse ctx ses x =
     (let binding =
        (case bt_get (cs_attributes x) (lit ''bmux.session_id'') of None \<Rightarrow> None | Some v \<Rightarrow> uparse v)
      in if cs_id x \<noteq> ctx \<or> ses = None \<or> binding \<noteq> ses then Err InvalidTarget else Ok ())"

section \<open>Commands\<close>

definition selection_operation ::
    "uuid option \<Rightarrow> (client_id \<Rightarrow> follow_state \<Rightarrow> follow_state \<times> (selection_error + selection)) \<Rightarrow>
     follow_state rwlock option \<Rightarrow> follow_state rwlock option \<times> (selection_error + selection)" where
  "selection_operation client operation state =
     (case client of
        None \<Rightarrow> (state, Err NoCurrentClient)
      | Some c \<Rightarrow>
          (case state of
             None \<Rightarrow> (state, Err (SelectionFailed (lit ''clients state unavailable'')))
           | Some lk \<Rightarrow>
               if lk_poisoned lk then (state, Err (SelectionFailed (lit ''clients state poisoned'')))
               else case operation (ClientId c) (lk_inner lk) of
                   (st, r) \<Rightarrow> (Some (lk\<lparr>lk_inner := st\<rparr>), r)))"

text \<open>
  The two lookups of a commit.  A registered handle is itself behind a lock; \<open>check_session\<close> reads the
  session roster and \<open>check_context\<close> the context roster.
\<close>

definition check_session ::
    "policy \<Rightarrow> principals \<Rightarrow> session_manager rwlock rwlock option \<Rightarrow> uuid \<Rightarrow> uuid option \<Rightarrow> uuid option \<Rightarrow>
     selection_error + unit" where
  "check_session check principals manager client ctx ses =
     (case ses of
        None \<Rightarrow> Ok ()
      | Some s \<Rightarrow>
          rbind (authorize_selection check principals client ctx s) (\<lambda>_.
            case manager of
              None \<Rightarrow> Err InvalidTarget
            | Some lk \<Rightarrow>
                if lk_poisoned lk \<or> \<not> sessions_contains (SessionId s) (lk_inner lk)
                then Err InvalidTarget else Ok ()))"

definition check_context ::
    "(rstring \<Rightarrow> uuid option) \<Rightarrow> context_state rwlock rwlock option \<Rightarrow> uuid option \<Rightarrow> uuid option \<Rightarrow>
     selection_error + unit" where
  "check_context uparse contexts ctx ses =
     (case ctx of
        None \<Rightarrow> Ok ()
      | Some i \<Rightarrow>
          (case contexts of
             None \<Rightarrow> Err InvalidTarget
           | Some lk \<Rightarrow>
               if lk_poisoned lk then Err InvalidTarget
               else case List.find (\<lambda>x. cs_id x = i) (contexts_list (lk_inner lk)) of
                   None \<Rightarrow> Err InvalidTarget
                 | Some x \<Rightarrow> validate_selection_binding uparse i ses x))"

definition commit_client_selection ::
    "(rstring \<Rightarrow> uuid option) \<Rightarrow> policy \<Rightarrow> principals \<Rightarrow> session_manager rwlock rwlock option \<Rightarrow>
     context_state rwlock rwlock option \<Rightarrow> uuid option \<Rightarrow> u64 \<Rightarrow> uuid option \<Rightarrow> uuid option \<Rightarrow>
     follow_state rwlock option \<Rightarrow> follow_state rwlock option \<times> (selection_error + selection)" where
  "commit_client_selection uparse check principals manager contexts client expected ctx ses state =
     (case client of
        None \<Rightarrow> (state, Err NoCurrentClient)
      | Some c \<Rightarrow>
          (case check_session check principals manager c ctx ses of
             Inl e \<Rightarrow> (state, Err e)
           | Inr _ \<Rightarrow>
               (case check_context uparse contexts ctx ses of
                  Inl e \<Rightarrow> (state, Err e)
                | Inr _ \<Rightarrow>
                    selection_operation client (\<lambda>c. commit_selection c expected ctx ses) state)))"

end
