(* ===== verification/Follow_Correct.thy ===== *)
theory Follow_Correct
  imports Follow_Handlers
begin

text \<open>
  The invariant of the follow state under every operation, and the protocol of selection
  reservations: a reservation is committed only when the selection was left alone in between.
\<close>

section \<open>Operations as steps\<close>

datatype follow_op =
    OpConnect client_id
  | OpDisconnect client_id
  | OpSetTarget client_id "uuid option" "session_id option"
  | OpStartFollow client_id client_id bool
  | OpStopFollow client_id
  | OpSync client_id "uuid option" "session_id option"
  | OpSetAttached client_id "session_id option"
  | OpSetDetach client_id bool
  | OpRecover client_id u64
  | OpBegin client_id u64
  | OpCommit client_id u64 "uuid option" "uuid option"
  | OpClearAll
  | OpClearFollow
  | OpClearSession session_id
  | OpRestore follow_snapshot

fun follow_apply :: "follow_op \<Rightarrow> follow_state \<Rightarrow> follow_state" where
  "follow_apply (OpConnect c) = connect_client c"
| "follow_apply (OpDisconnect c) = (\<lambda>st. fst (follow_disconnect_client c st))"
| "follow_apply (OpSetTarget c ctx ses) = set_selected_target c ctx ses"
| "follow_apply (OpStartFollow f l g) = (\<lambda>st. fst (start_follow f l g st))"
| "follow_apply (OpStopFollow f) = (\<lambda>st. fst (stop_follow f st))"
| "follow_apply (OpSync l ctx ses) = (\<lambda>st. fst (sync_followers_from_leader l ctx ses st))"
| "follow_apply (OpSetAttached c ses) = set_attached_stream_session c ses"
| "follow_apply (OpSetDetach c b) = set_attach_detach_allowed c b"
| "follow_apply (OpRecover c r) = (\<lambda>st. fst (recover_selection c r st))"
| "follow_apply (OpBegin c r) = (\<lambda>st. fst (begin_selection c r st))"
| "follow_apply (OpCommit c r ctx ses) = (\<lambda>st. fst (commit_selection c r ctx ses st))"
| "follow_apply OpClearAll = clear_all_selections"
| "follow_apply OpClearFollow = clear_all_follow_state"
| "follow_apply (OpClearSession ses) = clear_selections_for_session ses"
| "follow_apply (OpRestore sn) = follow_restore_snapshot sn"

section \<open>The invariant\<close>

definition keyed :: "client_id list \<Rightarrow> (client_id, 'v) btree \<Rightarrow> bool" where
  "keyed cs m \<longleftrightarrow> bt_wf m \<and> (\<forall>c. bt_get m c \<noteq> None \<longleftrightarrow> c \<in> set cs)"

definition follows_ok :: "client_id list \<Rightarrow> (client_id, follow_entry) btree \<Rightarrow> bool" where
  "follows_ok cs m \<longleftrightarrow>
     bt_wf m \<and>
     (\<forall>f e. bt_get m f = Some e \<longrightarrow>
        f \<in> set cs \<and> fe_leader_client_id e \<in> set cs \<and> fe_leader_client_id e \<noteq> f)"

definition reservations_ok :: "follow_state \<Rightarrow> bool" where
  "reservations_ok st \<longleftrightarrow>
     bt_wf (fs_selection_revisions st) \<and> bt_wf (fs_selection_reservations st) \<and>
     (\<forall>c r. bt_get (fs_selection_reservations st) c = Some r \<longrightarrow>
        (\<exists>q. bt_get (fs_selection_revisions st) c = Some q \<and> r \<le> q))"

definition tables_ok :: "follow_state \<Rightarrow> bool" where
  "tables_ok st \<longleftrightarrow>
     bs_wf (fs_connected_clients st) \<and>
     keyed (fs_connected_clients st) (fs_selected_contexts st) \<and>
     keyed (fs_connected_clients st) (fs_selected_sessions st) \<and>
     keyed (fs_connected_clients st) (fs_attached_stream_sessions st) \<and>
     keyed (fs_connected_clients st) (fs_attach_detach_allowed st) \<and>
     follows_ok (fs_connected_clients st) (fs_follows st)"

lemma keyed_insert [intro]: "keyed cs m \<Longrightarrow> c \<in> set cs \<Longrightarrow> keyed cs (bt_insert c v m)"
  by (auto simp: keyed_def btree)

lemma keyed_or_insert [intro]: "keyed cs m \<Longrightarrow> keyed (bs_insert c cs) (bt_or_insert c v m)"
  by (auto simp: keyed_def btree)

lemma keyed_remove [intro]: "keyed cs m \<Longrightarrow> keyed (bs_remove c cs) (bt_remove c m)"
  by (auto simp: keyed_def btree)

lemma follows_ok_insert [intro]:
  "follows_ok cs m \<Longrightarrow> f \<in> set cs \<Longrightarrow> l \<in> set cs \<Longrightarrow> l \<noteq> f \<Longrightarrow>
   follows_ok cs (bt_insert f \<lparr>fe_leader_client_id = l, fe_global = g\<rparr> m)"
  by (auto simp: follows_ok_def btree)

lemma follows_ok_remove [intro]: "follows_ok cs m \<Longrightarrow> follows_ok cs (bt_remove f m)"
  by (auto simp: follows_ok_def btree split: if_splits)

lemma follows_ok_more [intro]: "follows_ok cs m \<Longrightarrow> follows_ok (bs_insert c cs) m"
  by (auto simp: follows_ok_def)

lemma drop_followers_get:
  "bt_wf m \<Longrightarrow>
   bt_wf (snd (drop_followers fs m)) \<and>
   bt_get (snd (drop_followers fs m)) k = (if k \<in> set fs then None else bt_get m k)"
  by (induction fs m rule: drop_followers.induct) (auto simp: btree split: option.splits prod.splits)

lemma follows_ok_disconnect:
  assumes ok: "follows_ok cs m"
  shows "follows_ok (bs_remove c cs)
    (snd (drop_followers (map fst (filter (\<lambda>(_, e). fe_leader_client_id e = c) (bt_remove c m))) (bt_remove c m)))"
proof -
  let ?m = "bt_remove c m"
  let ?fs = "map fst (filter (\<lambda>(_, e). fe_leader_client_id e = c) ?m)"
  have wf: "bt_wf ?m" using ok by (simp add: follows_ok_def)
  have mem: "f \<in> set ?fs \<longleftrightarrow> (\<exists>e. bt_get ?m f = Some e \<and> fe_leader_client_id e = c)" for f
    by (force simp: bt_set_iff [OF wf, symmetric])
  show ?thesis
    unfolding follows_ok_def
    using ok drop_followers_get [OF wf, of ?fs] mem
    by (auto simp: follows_ok_def btree split: if_splits)
qed

section \<open>Preservation\<close>

lemma tables_ok_set_target: "tables_ok st \<Longrightarrow> tables_ok (set_selected_target c ctx ses st)"
  by (auto simp: tables_ok_def set_selected_target_def Let_def split: option.split)

lemma set_target_frame [simp]:
  "fs_connected_clients (set_selected_target c ctx ses st) = fs_connected_clients st"
  "fs_follows (set_selected_target c ctx ses st) = fs_follows st"
  by (simp_all add: set_selected_target_def Let_def split: option.split)

lemma fst_sync_each:
  "fst (sync_each l ctx ses (f # fs) st) =
     fst (sync_each l ctx ses fs (if f \<in> set (fs_connected_clients st) then set_selected_target f ctx ses st else st))"
  by (simp add: Let_def case_prod_unfold)

lemma sync_invariant:
  assumes step: "\<And>c st. P st \<Longrightarrow> P (set_selected_target c ctx ses st)" and "P st"
  shows "P (fst (sync_followers_from_leader l ctx ses st))"
proof -
  have "P (fst (sync_each l ctx ses fs st))" for fs
    using assms(2) by (induction fs arbitrary: st) (simp_all add: fst_sync_each step del: sync_each.simps(2))
  then show ?thesis by (simp add: sync_followers_from_leader_def Let_def)
qed

text \<open>The operations that only set targets keep what setting a target keeps.\<close>

lemma clears_invariant:
  assumes step: "\<And>c ctx ses st. P st \<Longrightarrow> P (set_selected_target c ctx ses st)" and "P st"
  shows "P (clear_all_selections st)" and "P (clear_selections_for_session s st)"
    and "P (st\<lparr>fs_follows := []\<rparr>) \<Longrightarrow> P (clear_all_follow_state st)"
proof -
  have set: "P (fold (\<lambda>c. set_selected_target c None None) cs st)" if "P st" for cs st
    using that by (induction cs arbitrary: st) (simp_all add: step)
  have sync: "P (fold (\<lambda>c st. fst (sync_followers_from_leader c None None st)) cs st)" if "P st" for cs st
    using that by (induction cs arbitrary: st) (simp_all add: sync_invariant [of P, OF step])
  show "P (clear_all_selections st)" and "P (clear_selections_for_session s st)"
    and "P (st\<lparr>fs_follows := []\<rparr>) \<Longrightarrow> P (clear_all_follow_state st)"
    unfolding clear_all_selections_def clear_selections_for_session_def clear_all_follow_state_def Let_def
    by (rule set [OF assms(2)], rule sync [OF set [OF assms(2)]], rule set)
qed

lemmas tables_ok_targets = tables_ok_set_target
  sync_invariant [of tables_ok, OF tables_ok_set_target]
  clears_invariant(1,2) [of tables_ok, OF tables_ok_set_target]

lemma tables_ok_small:
  assumes "tables_ok st"
  shows "tables_ok (connect_client c st)" and "tables_ok (fst (stop_follow c st))"
    and "tables_ok (set_attached_stream_session c ses st)" and "tables_ok (set_attach_detach_allowed c b st)"
  using assms
  by (auto simp: tables_ok_def connect_client_def stop_follow_def set_attached_stream_session_def
      set_attach_detach_allowed_def)

lemma tables_ok_step:
  assumes ok: "tables_ok st" and no_restore: "\<And>sn. op \<noteq> OpRestore sn"
  shows "tables_ok (follow_apply op st)"
proof (cases op)
  case (OpDisconnect c)
  have "follows_ok (fs_connected_clients st) (fs_follows st)" using ok by (simp add: tables_ok_def)
  from follows_ok_disconnect [OF this, of c] ok show ?thesis
    by (auto simp: OpDisconnect tables_ok_def follow_disconnect_client_def Let_def case_prod_unfold)
next
  case (OpStartFollow f l g)
  have "tables_ok (st\<lparr>fs_follows := bt_insert f \<lparr>fe_leader_client_id = l, fe_global = g\<rparr> (fs_follows st)\<rparr>)"
    if "f \<noteq> l" "l \<in> set (fs_connected_clients st)" "f \<in> set (fs_connected_clients st)"
    using ok that by (auto simp: tables_ok_def)
  with ok show ?thesis
    by (auto simp: OpStartFollow start_follow_def Let_def case_prod_unfold intro!: tables_ok_set_target)
next
  case (OpClearFollow)
  have "tables_ok (st\<lparr>fs_follows := []\<rparr>)" using ok by (simp add: tables_ok_def follows_ok_def)
  then show ?thesis
    using clears_invariant(3) [of tables_ok, OF tables_ok_set_target ok] by (simp add: OpClearFollow)
next
  case (OpRecover c r)
  then show ?thesis using ok
    by (auto simp: recover_selection_def selection_of_def tables_ok_def Let_def split: option.split)
next
  case (OpBegin c r)
  then show ?thesis using ok
    by (auto simp: begin_selection_def selection_of_def tables_ok_def Let_def split: option.split)
next
  case (OpCommit c r ctx ses)
  then show ?thesis using ok
    by (auto simp: commit_selection_def selection_of_def tables_ok_def Let_def split: option.split)
qed (use ok no_restore in \<open>simp_all add: tables_ok_targets tables_ok_small\<close>)

lemma tables_ok_restore: "tables_ok st0 \<Longrightarrow> tables_ok (follow_restore_snapshot (follow_snapshot_of st0) st)"
  by (simp add: tables_ok_def follow_restore_snapshot_def follow_snapshot_of_def)

section \<open>Revisions\<close>

lemma saturating_succ:
  fixes a :: u64
  shows "a \<le> saturating_add a 1" and "a \<noteq> - 1 \<Longrightarrow> a < saturating_add a 1"
proof -
  have lt: "unat a < 2 ^ 64" using unsigned_less [of a] by simp
  then show "a \<le> saturating_add a 1" by (simp add: word_le_nat_alt)
  assume "a \<noteq> - 1"
  then have "checked_add a 1 \<noteq> None" by (simp add: checked_add_None)
  then have "unat a + 1 < 2 ^ 64" by (simp add: checked_add_def split: if_splits)
  then show "a < saturating_add a 1" by (simp add: word_less_nat_alt)
qed

lemma checked_succ: "checked_add r 1 = Some q \<Longrightarrow> r < (q :: u64)"
  by (erule checked_add_greater) simp

text \<open>The revision of a client has passed \<open>r\<close>, and every operation keeps that.\<close>

definition raised :: "client_id \<Rightarrow> u64 \<Rightarrow> follow_state \<Rightarrow> bool" where
  "raised c r st \<longleftrightarrow>
     bt_wf (fs_selection_revisions st) \<and> bt_wf (fs_selection_reservations st) \<and>
     (\<exists>q. bt_get (fs_selection_revisions st) c = Some q \<and> r < q)"

lemma fold_fence:
  assumes "bt_wf m" "bt_get m c = Some q"
  shows "bt_wf (fold fence cs m) \<and>
    (\<exists>p. bt_get (fold fence cs m) c = Some p \<and> q \<le> p \<and> (c \<in> set cs \<longrightarrow> q \<noteq> - 1 \<longrightarrow> q < p))"
  using assms
proof (induction cs arbitrary: m q)
  case (Cons d cs)
  have wf: "bt_wf (fence d m)" using Cons.prems by (simp add: fence_def)
  show ?case
  proof (cases "d = c")
    case True
    then have "bt_get (fence d m) c = Some (saturating_add q 1)" using Cons.prems by (simp add: fence_def btree)
    from Cons.IH [OF wf this] saturating_succ [of q] show ?thesis
      by (auto simp: True intro: order.trans less_le_trans)
  next
    case False
    then have "bt_get (fence d m) c = Some q" using Cons.prems by (simp add: fence_def btree)
    from Cons.IH [OF wf this] False show ?thesis by auto
  qed
qed simp

lemma raised_set_target: "raised c r st \<Longrightarrow> raised c r (set_selected_target d ctx ses st)"
  by (auto simp: raised_def set_selected_target_def revision_of_def Let_def btree
      split: option.splits dest!: checked_succ)

lemmas raised_targets = raised_set_target
  sync_invariant [of "raised c r" for c r, OF raised_set_target]
  clears_invariant(1,2) [of "raised c r" for c r, OF raised_set_target]

lemma raised_frame:
  "fs_selection_revisions st' = fs_selection_revisions st \<Longrightarrow> bt_wf (fs_selection_reservations st') \<Longrightarrow>
   raised c r st \<Longrightarrow> raised c r st'"
  by (simp add: raised_def)

lemma raised_selection_ops:
  assumes "raised c r st"
  shows "raised c r (fst (recover_selection d q st))" and "raised c r (fst (begin_selection d q st))"
    and "raised c r (fst (commit_selection d q ctx ses st))"
  using assms
  by (auto simp: raised_def recover_selection_def begin_selection_def commit_selection_def selection_of_def
      revision_of_def Let_def btree split: option.splits dest!: checked_succ)

lemma raised_disconnect: "raised c r st \<Longrightarrow> raised c r (fst (follow_disconnect_client d st))"
  using saturating_succ(1)
  by (auto simp: raised_def follow_disconnect_client_def Let_def case_prod_unfold btree
      split: option.splits intro: less_le_trans)

lemma raised_step: "raised c r st \<Longrightarrow> raised c r (follow_apply op st)"
proof (cases op)
  case (OpStartFollow f l g)
  moreover assume "raised c r st"
  moreover from this have "raised c r (st\<lparr>fs_follows := m\<rparr>)" for m by (simp add: raised_def)
  ultimately show ?thesis
    by (auto simp: start_follow_def Let_def case_prod_unfold intro!: raised_set_target)
next
  case (OpClearFollow)
  moreover assume "raised c r st"
  moreover from this have "raised c r (st\<lparr>fs_follows := []\<rparr>)" by (simp add: raised_def)
  ultimately show ?thesis
    using clears_invariant(3) [of "raised c r" st, OF raised_set_target] by simp
next
  case (OpRestore sn)
  moreover assume "raised c r st"
  then obtain q where "bt_wf (fs_selection_revisions st)" "bt_get (fs_selection_revisions st) c = Some q" "r < q"
    and "bt_wf (fs_selection_reservations st)" by (auto simp: raised_def)
  moreover note fold_fence [OF this(1,2), of "fn_connected_clients sn"]
  ultimately show ?thesis by (auto simp: raised_def follow_restore_snapshot_def)
qed (simp_all add: raised_targets raised_selection_ops raised_disconnect,
    auto simp: raised_def connect_client_def stop_follow_def set_attached_stream_session_def
      set_attach_detach_allowed_def)

section \<open>Held reservations\<close>

text \<open>
  The reservation that \<open>r\<close> names is in force and the selection is \<open>sel\<close>.  An operation leaves it so
  or raises the revision, provided that a restored snapshot has the client.
\<close>

definition held :: "client_id \<Rightarrow> u64 \<Rightarrow> selection \<Rightarrow> follow_state \<Rightarrow> bool" where
  "held c r sel st \<longleftrightarrow>
     bt_wf (fs_selection_revisions st) \<and> bt_wf (fs_selection_reservations st) \<and>
     bt_get (fs_selection_revisions st) c = Some r \<and> bt_get (fs_selection_reservations st) c = Some r \<and>
     selection_of c st = Ok sel"

lemma held_iff:
  "held c r sel st \<longleftrightarrow>
     bt_wf (fs_selection_revisions st) \<and> bt_wf (fs_selection_reservations st) \<and>
     bt_get (fs_selection_revisions st) c = Some r \<and> bt_get (fs_selection_reservations st) c = Some r \<and>
     c \<in> set (fs_connected_clients st) \<and>
     sel = \<lparr>sl_revision = r, sl_context_id = get_flat (fs_selected_contexts st) c,
            sl_session_id = map_option session_uuid (get_flat (fs_selected_sessions st) c), sl_suspended = True\<rparr>"
  by (auto simp: held_def selection_of_def revision_of_def bt_contains_def)

lemma get_flat_simps [simp]:
  "get_flat (bt_insert d v m) c = (if c = d then v else get_flat m c)"
  "get_flat (bt_or_insert d None m) c = get_flat m c"
  "c \<noteq> d \<Longrightarrow> get_flat (bt_remove d n) c = get_flat n c"
proof -
  show "c \<noteq> d \<Longrightarrow> get_flat (bt_remove d n) c = get_flat n c"
    by (induction n) (auto simp: get_flat_def bt_get_def bt_remove_def)
qed (auto simp: get_flat_def btree split: option.split)

definition held_or_raised :: "client_id \<Rightarrow> u64 \<Rightarrow> selection \<Rightarrow> follow_state \<Rightarrow> bool" where
  "held_or_raised c r sel st \<longleftrightarrow> held c r sel st \<or> raised c r st"

fun fences :: "client_id \<Rightarrow> follow_op \<Rightarrow> bool" where
  "fences c (OpRestore sn) = (c \<in> set (fn_connected_clients sn))"
| "fences c _ = True"

lemma held_set_target:
  assumes "held c r sel st" and "r \<noteq> - 1"
  shows "held_or_raised c r sel (set_selected_target d ctx ses st)"
proof (cases "d = c \<and> c \<in> set (fs_connected_clients st)")
  case True
  moreover obtain q where "checked_add r 1 = Some q" using assms(2) checked_add_None [of r] by auto
  ultimately show ?thesis
    using assms(1) checked_succ [of r q]
    by (auto simp: held_or_raised_def held_iff raised_def set_selected_target_def revision_of_def Let_def btree)
next
  case False
  then have "held c r sel (set_selected_target d ctx ses st)"
    using assms(1)
    by (auto simp: held_iff set_selected_target_def revision_of_def Let_def btree
        split: option.splits)
  then show ?thesis by (simp add: held_or_raised_def)
qed

lemma hr_set_target:
  "r \<noteq> - 1 \<Longrightarrow> held_or_raised c r sel st \<Longrightarrow> held_or_raised c r sel (set_selected_target d ctx ses st)"
  using held_set_target raised_set_target unfolding held_or_raised_def by blast

lemma held_follows: "held c r sel (st\<lparr>fs_follows := m\<rparr>) = held c r sel st"
  by (simp add: held_iff)

lemma held_selection_ops:
  assumes "held c r sel st" "r \<noteq> - 1"
  shows "held_or_raised c r sel (fst (recover_selection d q st))"
    and "held_or_raised c r sel (fst (begin_selection d q st))"
    and "held_or_raised c r sel (fst (commit_selection d q ctx ses st))"
  using assms
  by (cases "d = c"; auto simp: held_or_raised_def held_iff raised_def recover_selection_def begin_selection_def
      commit_selection_def selection_of_def revision_of_def Let_def btree
      split: option.splits dest!: checked_succ)+

lemma held_disconnect:
  assumes "held c r sel st" "r \<noteq> - 1"
  shows "held_or_raised c r sel (fst (follow_disconnect_client d st))"
proof (cases "d = c")
  case True
  then show ?thesis
    using assms saturating_succ(2) [of r]
    by (auto simp: held_or_raised_def held_iff raised_def follow_disconnect_client_def Let_def case_prod_unfold btree)
next
  case False
  have "held c r sel (fst (follow_disconnect_client d st))"
    using assms(1) False
    by (auto simp: held_iff follow_disconnect_client_def Let_def case_prod_unfold btree split: option.splits)
  then show ?thesis by (simp add: held_or_raised_def)
qed

lemma held_small:
  assumes "held c r sel st"
  shows "held c r sel (connect_client d st)" and "held c r sel (fst (stop_follow d st))"
    and "held c r sel (set_attached_stream_session d s st)" and "held c r sel (set_attach_detach_allowed d b st)"
  using assms
  by (auto simp: held_iff connect_client_def stop_follow_def
      set_attached_stream_session_def set_attach_detach_allowed_def btree split: option.splits)

lemma held_restore:
  assumes "held c r sel st" "r \<noteq> - 1" "c \<in> set (fn_connected_clients sn)"
  shows "raised c r (follow_restore_snapshot sn st)"
  using assms fold_fence [of "fs_selection_revisions st" c r "fn_connected_clients sn"]
  by (auto simp: held_iff raised_def follow_restore_snapshot_def)

lemma hr_step:
  assumes r: "r \<noteq> - 1" and fence: "fences c op" and hr: "held_or_raised c r sel st"
  shows "held_or_raised c r sel (follow_apply op st)"
proof (cases "raised c r st")
  case True
  then show ?thesis by (simp add: held_or_raised_def raised_step)
next
  case False
  with hr have h: "held c r sel st" by (simp add: held_or_raised_def)
  note set = hr_set_target [OF r, of c sel]
  have follows: "held_or_raised c r sel (st\<lparr>fs_follows := m\<rparr>)" for m
    using h by (simp add: held_or_raised_def held_follows)
  note targets = set sync_invariant [of "held_or_raised c r sel", OF set hr]
    clears_invariant [of "held_or_raised c r sel", OF set hr]
  show ?thesis
  proof (cases op)
    case (OpStartFollow f l g)
    then show ?thesis
      using hr follows by (auto simp: start_follow_def Let_def case_prod_unfold intro!: set)
  next
    case (OpRestore sn)
    then show ?thesis using held_restore [OF h r] fence by (simp add: held_or_raised_def)
  qed (use hr held_small [OF h] in
      \<open>simp_all add: targets follows held_selection_ops [OF h r] held_disconnect [OF h r] held_or_raised_def [symmetric]\<close>,
      (simp add: held_or_raised_def)+)
qed

lemma hr_run:
  "r \<noteq> - 1 \<Longrightarrow> list_all (fences c) ops \<Longrightarrow> held_or_raised c r sel st \<Longrightarrow>
   held_or_raised c r sel (fold follow_apply ops st)"
  by (induction ops arbitrary: st) (simp_all add: hr_step)

lemma raised_run: "raised c r st \<Longrightarrow> raised c r (fold follow_apply ops st)"
  by (induction ops arbitrary: st) (simp_all add: raised_step)

text \<open>A reservation that is in force after a run was in force at every point of it.\<close>

lemma held_throughout:
  assumes r: "r \<noteq> - 1" and fence: "list_all (fences c) ops" and start: "held c r sel st"
    and final: "revision_of c (fold follow_apply ops st) = r"
  shows "held c r sel (fold follow_apply (take i ops) st)"
proof -
  let ?mid = "fold follow_apply (take i ops) st"
  have "list_all (fences c) (take i ops)" using fence by (auto simp: list_all_iff dest: in_set_takeD)
  then have "held_or_raised c r sel ?mid" using hr_run [OF r] start by (simp add: held_or_raised_def)
  moreover have "\<not> raised c r ?mid"
  proof
    assume "raised c r ?mid"
    from raised_run [OF this, of "drop i ops"] have "raised c r (fold follow_apply ops st)"
      by (metis append_take_drop_id comp_apply fold_append)
    with final show False by (auto simp: raised_def revision_of_def)
  qed
  ultimately show ?thesis by (simp add: held_or_raised_def)
qed

section \<open>Reachable states\<close>

lemma reservations_ok_set_target: "reservations_ok st \<Longrightarrow> reservations_ok (set_selected_target d ctx ses st)"
  by (auto simp: reservations_ok_def set_selected_target_def revision_of_def Let_def btree checked_add_None
      split: option.splits if_splits dest!: checked_succ) (fastforce dest: order.strict_implies_order order.trans)+

lemma reservations_ok_frame:
  "fs_selection_revisions st' = fs_selection_revisions st \<Longrightarrow>
   fs_selection_reservations st' = fs_selection_reservations st \<Longrightarrow> reservations_ok st' = reservations_ok st"
  by (simp add: reservations_ok_def)

lemma reservations_ok_selection_ops:
  assumes "reservations_ok st"
  shows "reservations_ok (fst (recover_selection d q st))" and "reservations_ok (fst (begin_selection d q st))"
    and "reservations_ok (fst (commit_selection d q ctx ses st))"
  using assms
  by (auto simp: reservations_ok_def recover_selection_def begin_selection_def commit_selection_def
      selection_of_def Let_def btree split: option.splits if_splits)

lemma reservations_ok_disconnect: "reservations_ok st \<Longrightarrow> reservations_ok (fst (follow_disconnect_client d st))"
  by (auto simp: reservations_ok_def follow_disconnect_client_def Let_def case_prod_unfold btree
      split: option.splits if_splits)

lemma reservations_ok_restore:
  assumes ok: "reservations_ok st"
  shows "reservations_ok (follow_restore_snapshot sn st)"
proof -
  let ?m = "fold fence (fn_connected_clients sn) (fs_selection_revisions st)"
  have wf: "bt_wf (fs_selection_revisions st)" using ok by (simp add: reservations_ok_def)
  have "bt_wf (fold fence cs m)" if "bt_wf m" for cs m
    using that by (induction cs arbitrary: m) (simp_all add: fence_def)
  then have "bt_wf ?m" using wf .
  moreover have "\<exists>p. bt_get ?m c = Some p \<and> r \<le> p" if res: "bt_get (fs_selection_reservations st) c = Some r" for c r
  proof -
    obtain q where "bt_get (fs_selection_revisions st) c = Some q" "r \<le> q"
      using ok res by (auto simp: reservations_ok_def)
    with fold_fence [OF wf this(1), of "fn_connected_clients sn"] show ?thesis by (auto intro: order.trans)
  qed
  ultimately show ?thesis using ok by (simp add: reservations_ok_def follow_restore_snapshot_def)
qed

lemma reservations_ok_step:
  assumes ok: "reservations_ok st"
  shows "reservations_ok (follow_apply op st)"
proof -
  note set = reservations_ok_set_target
  have follows: "reservations_ok (st\<lparr>fs_follows := m\<rparr>)" for m using ok by (simp add: reservations_ok_def)
  note targets = set [OF ok] sync_invariant [of reservations_ok, OF set ok] clears_invariant [of reservations_ok, OF set ok]
  show ?thesis
  proof (cases op)
    case (OpStartFollow f l g)
    then show ?thesis using ok follows by (auto simp: start_follow_def Let_def case_prod_unfold intro!: set)
  qed (simp_all add: targets follows reservations_ok_selection_ops [OF ok] reservations_ok_disconnect [OF ok]
      reservations_ok_restore [OF ok],
      (use ok in \<open>simp add: reservations_ok_def connect_client_def stop_follow_def set_attached_stream_session_def
        set_attach_detach_allowed_def\<close>)+)
qed

text \<open>
  The states that the operations build from the empty one; a restored snapshot was taken in such a
  state.
\<close>

inductive follow_reachable :: "follow_state \<Rightarrow> bool" where
  follow_init: "follow_reachable follow_state_default"
| follow_op: "follow_reachable st \<Longrightarrow> (\<And>sn. op \<noteq> OpRestore sn) \<Longrightarrow> follow_reachable (follow_apply op st)"
| follow_restore: "follow_reachable st \<Longrightarrow> follow_reachable st0 \<Longrightarrow>
    follow_reachable (follow_restore_snapshot (follow_snapshot_of st0) st)"

lemma follow_reachable_ok: "follow_reachable st \<Longrightarrow> tables_ok st \<and> reservations_ok st"
proof (induction rule: follow_reachable.induct)
  case follow_init
  show ?case
    by (simp add: tables_ok_def reservations_ok_def keyed_def follows_ok_def follow_state_default_def)
qed (simp_all add: tables_ok_step reservations_ok_step tables_ok_restore reservations_ok_restore)

lemma client_uuid_eq: "client_uuid a = client_uuid b \<longleftrightarrow> a = b"
  by (cases a; cases b) simp

lemma list_clients_ids: "map cl_id (list_clients st) = map client_uuid (fs_connected_clients st)"
  by (simp add: list_clients_def Let_def case_prod_unfold comp_def)

lemma list_clients_following:
  "x \<in> set (list_clients st) \<Longrightarrow> cl_following_client_id x = Some u \<Longrightarrow>
   \<exists>c e. cl_id x = client_uuid c \<and> bt_get (fs_follows st) c = Some e \<and> u = client_uuid (fe_leader_client_id e)"
  by (auto simp: list_clients_def Let_def case_prod_unfold split: option.splits)

text \<open>
  C39.  Well-typed follow state.  In every reachable state the selection, attachment and detach tables
  have exactly the connected clients as their keys, every follow relationship joins two different
  connected clients, and a reservation never runs ahead of its client's revision.  The listing shows
  each connected client once, in order, and a client that is shown as followed is another listed client.
\<close>

theorem follow_state_well_typed:
  assumes "follow_reachable st"
  shows "tables_ok st \<and> reservations_ok st \<and>
    map cl_id (list_clients st) = map client_uuid (fs_connected_clients st) \<and> distinct (map cl_id (list_clients st)) \<and>
    (\<forall>x\<in>set (list_clients st). \<forall>u. cl_following_client_id x = Some u \<longrightarrow>
       u \<noteq> cl_id x \<and> u \<in> set (map cl_id (list_clients st)))"
proof -
  have ok: "tables_ok st" "reservations_ok st" using follow_reachable_ok [OF assms] by simp_all
  then have wf: "bs_wf (fs_connected_clients st)" and fol: "follows_ok (fs_connected_clients st) (fs_follows st)"
    by (simp_all add: tables_ok_def)
  have "distinct (map client_uuid (fs_connected_clients st))"
    using wf by (auto simp: bs_wf_def strict_sorted_iff distinct_map inj_on_def intro: client_id.expand)
  moreover have "u \<noteq> cl_id x \<and> u \<in> set (map cl_id (list_clients st))"
    if "x \<in> set (list_clients st)" "cl_following_client_id x = Some u" for x u
    using list_clients_following [OF that] fol
    unfolding list_clients_ids follows_ok_def by (auto simp: client_uuid_eq)
  ultimately show ?thesis using ok by (simp add: list_clients_ids)
qed

theorem follow_state_well_typed_witness:
  "map cl_id (list_clients (connect_client (ClientId 1) (connect_client (ClientId 2) follow_state_default))) = [1, 2]"
proof -
  have "follow_reachable (connect_client (ClientId 1) (connect_client (ClientId 2) follow_state_default))"
    using follow_op [OF follow_op [OF follow_init, of "OpConnect (ClientId 2)"], of "OpConnect (ClientId 1)"] by simp
  from follow_state_well_typed [OF this] show ?thesis
    by (simp add: connect_client_def follow_state_default_def bs_insert_def)
qed

section \<open>Commits\<close>

lemma begin_held:
  assumes "begin_selection c e s0 = (s, Ok sel)" "reservations_ok s0"
  shows "held c (sl_revision sel) sel s"
  using assms
  by (auto simp: begin_selection_def held_iff reservations_ok_def selection_of_def revision_of_def Let_def btree
      split: option.splits if_splits)

lemma commit_client_selection_Ok:
  assumes "commit_client_selection uparse check principals manager contexts (Some u) r ctx ses (Some lk) = (state, Ok sel)"
  shows "check_session check principals manager u ctx ses = Ok ()"
    and "check_context uparse contexts ctx ses = Ok ()"
    and "\<exists>t. commit_selection (ClientId u) r ctx ses (lk_inner lk) = (t, Ok sel) \<and> state = Some (lk\<lparr>lk_inner := t\<rparr>)"
  using assms
  by (auto simp: commit_client_selection_def selection_operation_def split: sum.splits if_splits prod.splits)

lemma commit_selection_Ok:
  assumes "commit_selection c r ctx ses st = (t, Ok sel)" "reservations_ok st"
  shows "revision_of c st = r" and "r \<noteq> - 1"
    and "sel = \<lparr>sl_revision = r + 1, sl_context_id = ctx, sl_session_id = ses, sl_suspended = False\<rparr>"
    and "selection_of c t = Ok sel" and "d \<noteq> c \<Longrightarrow> selection_of d t = selection_of d st"
proof -
  have uuid: "map_option (session_uuid \<circ> SessionId) ses = ses" by (cases ses) simp_all
  obtain q where "checked_add r 1 = Some q" "q = r + 1" and facts: "revision_of c st = r" "c \<in> set (fs_connected_clients st)"
    and t: "t = st\<lparr>fs_selected_contexts := bt_insert c ctx (fs_selected_contexts st),
      fs_selected_sessions := bt_insert c (map_option SessionId ses) (fs_selected_sessions st),
      fs_selection_revisions := bt_insert c q (fs_selection_revisions st),
      fs_selection_reservations := bt_remove c (fs_selection_reservations st)\<rparr>" and "selection_of c t = Ok sel"
    using assms(1)
    by (auto simp: commit_selection_def selection_of_def [of c st] Let_def checked_add_def
        split: option.splits if_splits)
  moreover have wf: "bt_wf (fs_selection_reservations st)" using assms(2) by (simp add: reservations_ok_def)
  ultimately show "revision_of c st = r" "r \<noteq> - 1" "selection_of c t = Ok sel"
    "sel = \<lparr>sl_revision = r + 1, sl_context_id = ctx, sl_session_id = ses, sl_suspended = False\<rparr>"
    using checked_add_None [of r]
    by (auto simp: selection_of_def revision_of_def btree option.map_comp uuid)
  show "selection_of d t = selection_of d st" if "d \<noteq> c"
    using that wf by (simp add: t selection_of_def revision_of_def btree)
qed

lemma find_Some: "List.find P xs = Some x \<Longrightarrow> x \<in> set xs \<and> P x"
  by (induction xs) (auto split: if_splits)

lemma check_context_Ok:
  assumes "check_context uparse contexts ctx ses = Ok ()" and "ctx = Some i"
  shows "\<exists>m y v. contexts = Some m \<and> y \<in> set (contexts_list (lk_inner m)) \<and> cs_id y = i \<and>
    bt_get (cs_attributes y) (lit ''bmux.session_id'') = Some v \<and> uparse v = ses \<and> ses \<noteq> None"
  using assms
  by (auto simp: check_context_def validate_selection_binding_def Let_def
      split: option.splits if_splits dest!: find_Some)

text \<open>
  C40.  Sound commits.  A client reserves its selection, operations follow in which every restored
  snapshot contains the client, and then a commit of that reservation succeeds.  Then the selection was
  the reserved one at every point in between: no other change, disconnect or recovery intervened.  The
  commit was authorized, its session exists, its context is listed and bound to that
  session; the selection becomes the committed target, with the next revision and no longer
  suspended, and the selections of the other clients stay.
\<close>

theorem selection_commit_sound:
  assumes "follow_reachable s0" and begun: "begin_selection (ClientId u) e s0 = (s, Ok sel)"
    and fence: "list_all (fences (ClientId u)) ops" and lk: "lk_inner lk = fold follow_apply ops s"
    and commit: "commit_client_selection uparse check principals manager contexts (Some u) (sl_revision sel) ctx ses
      (Some lk) = (state, Ok sel')"
  shows "(\<forall>i. selection_of (ClientId u) (fold follow_apply (take i ops) s) = Ok sel) \<and>
    (\<forall>x. ses = Some x \<longrightarrow> authorize_selection check principals u ctx x = Ok () \<and>
       (\<exists>m. manager = Some m \<and> sessions_contains (SessionId x) (lk_inner m))) \<and>
    (\<forall>i. ctx = Some i \<longrightarrow> (\<exists>m y v. contexts = Some m \<and> y \<in> set (contexts_list (lk_inner m)) \<and> cs_id y = i \<and>
       bt_get (cs_attributes y) (lit ''bmux.session_id'') = Some v \<and> uparse v = ses \<and> ses \<noteq> None)) \<and>
    sel' = \<lparr>sl_revision = sl_revision sel + 1, sl_context_id = ctx, sl_session_id = ses, sl_suspended = False\<rparr> \<and>
    (\<exists>t. state = Some (lk\<lparr>lk_inner := t\<rparr>) \<and> selection_of (ClientId u) t = Ok sel' \<and>
       (\<forall>d. d \<noteq> ClientId u \<longrightarrow> selection_of d t = selection_of d (lk_inner lk)))"
proof -
  note ok = commit_client_selection_Ok [OF commit]
  obtain t where t: "commit_selection (ClientId u) (sl_revision sel) ctx ses (lk_inner lk) = (t, Ok sel')"
    and state: "state = Some (lk\<lparr>lk_inner := t\<rparr>)" using ok(3) by blast
  have res0: "reservations_ok s0" using follow_reachable_ok [OF assms(1)] by simp
  then have "reservations_ok s" using reservations_ok_selection_ops(2) [of s0 "ClientId u" e] begun by simp
  then have "reservations_ok (lk_inner lk)"
    unfolding lk by (induction ops arbitrary: s) (simp_all add: reservations_ok_step)
  note committed = commit_selection_Ok [OF t this]
  have "held (ClientId u) (sl_revision sel) sel (fold follow_apply (take i ops) s)" for i
    by (rule held_throughout [OF committed(2) fence begin_held [OF begun res0]]) (use committed(1) lk in simp)
  then have "\<forall>i. selection_of (ClientId u) (fold follow_apply (take i ops) s) = Ok sel" by (simp add: held_def)
  moreover have "\<forall>x. ses = Some x \<longrightarrow> authorize_selection check principals u ctx x = Ok () \<and>
       (\<exists>m. manager = Some m \<and> sessions_contains (SessionId x) (lk_inner m))"
    using ok(1) by (auto simp: check_session_def rbind_Ok_iff split: option.splits if_splits)
  moreover have "\<exists>t. state = Some (lk\<lparr>lk_inner := t\<rparr>) \<and> selection_of (ClientId u) t = Ok sel' \<and>
       (\<forall>d. d \<noteq> ClientId u \<longrightarrow> selection_of d t = selection_of d (lk_inner lk))"
    using state committed(4,5) by auto
  ultimately show ?thesis
    using check_context_Ok [OF ok(2)] committed(3) by blast
qed

definition demo_reserved :: follow_state where
  "demo_reserved = fst (begin_selection (ClientId 2) 0 (connect_client (ClientId 2) follow_state_default))"

lemmas follow_eval = follow_state_default_def connect_client_def begin_selection_def commit_selection_def
  selection_of_def revision_of_def get_flat_def bs_insert_def bt_or_insert_def bt_get_def bt_contains_def
  bt_remove_def checked_add_def set_selected_target_def Let_def

theorem selection_commit_sound_witness:
  "\<exists>state sel'. commit_client_selection (\<lambda>_. None) (\<lambda>_ _ _ _ _. PolicyMissing) None
      (Some \<lparr>lk_poisoned = False, lk_inner = \<lparr>lk_poisoned = False,
         lk_inner = fst (create_session 10 None session_manager_new)\<rparr>\<rparr>) None
      (Some 2) 1 None (Some 10) (Some \<lparr>lk_poisoned = False, lk_inner = connect_client (ClientId 1) demo_reserved\<rparr>)
      = (state, Ok sel') \<and>
    sel' = \<lparr>sl_revision = 2, sl_context_id = None, sl_session_id = Some 10, sl_suspended = False\<rparr>"
proof -
  let ?s0 = "connect_client (ClientId 2) follow_state_default"
  let ?lk = "\<lparr>lk_poisoned = False, lk_inner = connect_client (ClientId 1) demo_reserved\<rparr>"
  let ?manager = "Some \<lparr>lk_poisoned = False, lk_inner = \<lparr>lk_poisoned = False,
         lk_inner = fst (create_session 10 None session_manager_new)\<rparr>\<rparr>"
  let ?sel = "\<lparr>sl_revision = 1, sl_context_id = None, sl_session_id = None, sl_suspended = True\<rparr>"
  have reach: "follow_reachable ?s0" using follow_op [OF follow_init, of "OpConnect (ClientId 2)"] by simp
  have begun: "begin_selection (ClientId 2) 0 ?s0 = (demo_reserved, Ok ?sel)"
    by (simp add: demo_reserved_def follow_eval)
  obtain state sel' where commit: "commit_client_selection (\<lambda>_. None) (\<lambda>_ _ _ _ _. PolicyMissing) None ?manager None
      (Some 2) (sl_revision ?sel) None (Some 10) (Some ?lk) = (state, Ok sel')"
    by (simp add: commit_client_selection_def check_session_def check_context_def authorize_selection_def
        sessions_contains_def with_read_def create_session_def session_new_def session_manager_new_def get_session_def
        selection_operation_def demo_reserved_def follow_eval)
  have "lk_inner ?lk = fold follow_apply [OpConnect (ClientId 1)] demo_reserved" by simp
  from selection_commit_sound [OF reach begun _ this commit] commit show ?thesis by simp
qed

text \<open>
  Without that provision the property fails.  A restored snapshot that lacks a connected client drops
  the client but neither fences nor removes its reservation, so that after the client has connected
  again the old reservation is still in force and can be committed.
\<close>

lemma stale_reservation_survives_restore:
  "let s = connect_client (ClientId 2)
        (follow_restore_snapshot (follow_snapshot_of follow_state_default) demo_reserved)
   in selection_of (ClientId 2) (follow_restore_snapshot (follow_snapshot_of follow_state_default) demo_reserved)
        = Err NoCurrentClient \<and>
      snd (commit_selection (ClientId 2) 1 None (Some 10) s) =
        Ok \<lparr>sl_revision = 2, sl_context_id = None, sl_session_id = Some 10, sl_suspended = False\<rparr>"
  by (simp add: demo_reserved_def follow_restore_snapshot_def follow_snapshot_of_def follow_eval)

end
