(* ===== verification/Spec2Isabelle.thy ===== *)
theory Spec2Isabelle
  imports Session_Manager Vt_Correct Ipc_Frame_Correct Ipc_Protocol Output_Parser Output_Accounting Context_Handlers_Correct Follow_Correct
begin

text \<open>
  Verification of bmux, a terminal multiplexer written in Rust.

  \<^bold>\<open>The program.\<close>  A server runs plugins that own the state.  The pane runtime reads the output of child
  processes into bounded buffers from which several clients read; a client feeds what it receives to a
  terminal parser.  The sessions plugin keeps the sessions, the contexts plugin the contexts bound to
  them, and the clients plugin what each client has selected and whom it follows.  Clients and server
  exchange framed envelopes, encoded by the program's own binary codec, after agreeing on a protocol.
  The theories cover these stateful cores and the wire formats.  They are small against the whole
  repository; the last paragraph says what is left out.

  \<^bold>\<open>Foundations.\<close>  \<open>Bmux_Prelude\<close> has machine integers, results, arrays that panic, identifiers, locks
  with their poison flag and strings.  \<open>Bmux_BTree\<close> has the ordered maps and sets of the standard library
  as sorted entry lists; the locale \<open>ordered_map\<close> states their contract and is interpreted on them.

  \<^bold>\<open>Terminal parser\<close> (\<^verbatim>\<open>packages/terminal-grid/src/vt_parser.rs\<close>).  \<open>Vt_Utf8\<close> models the UTF-8 validation
  the parser uses and \<open>Vt_Parser\<close> every routine of the parser on its fixed-size arrays, a panic being
  \<^term>\<open>None\<close>.  \<open>Vt_Cuts\<close> reads segments off the flat buffers, \<open>Vt_Spec\<close> is an abstract decoder on lists,
  \<open>Vt_Refine\<close> proves the simulation routine by routine, and \<open>Vt_Replay\<close> holds the locale \<open>simulation\<close>,
  interpreted on parser and decoder.  \<open>Vt_Correct\<close> (C1 to C7): no panic on any input, refinement,
  exactness and size of the replay prefix, exact dispatch of control sequences and operating system
  commands, and a replay prefix that turns a title into a pointer request.

  \<^bold>\<open>Sessions\<close> (\<^verbatim>\<open>plugins/sessions-plugin\<close>).  \<open>Session_Manager\<close> models the roster, the adapter and the
  local handlers (C8, C9: snapshot round trip, exact membership changes).

  \<^bold>\<open>Codec\<close> (\<^verbatim>\<open>packages/codec/src\<close>).  \<open>Varint\<close> models \<^verbatim>\<open>varint.rs\<close>, \<open>Wire_Ser\<close> and \<open>Wire_De\<close> the serializer and
  the deserializer method by method, \<open>Wire_Values\<close> the values and types that call them.  \<open>Wire_Format\<close>
  states the format of each mode as a function of the value; it is the format of the code, and the
  README of the codec describes only the positional mode.  \<open>Wire_Reads\<close>, \<open>Wire_Roundtrip\<close> and \<open>Wire_Safe\<close> carry
  the proofs.  \<open>Wire_Clients\<close> has arbitrary clients of the deserializer as trees of calls, for types that
  read self-describing values or choose their calls by what they read; the depth of the call stack is
  not modelled.  \<open>Wire_Correct\<close> (C10 to C15): conforming and identical values are read back in all three
  modes, decoding never panics for any client, bounded decoding stays within its budgets, integers
  round-trip, and an unknown field is misread.

  \<^bold>\<open>Frames and negotiation\<close> (\<^verbatim>\<open>packages/ipc/src\<close>).  \<open>Ipc_Frame\<close> models envelopes, plain and compressed
  frames and the frame readers; \<open>Ipc_Frame_Correct\<close> (C16 to C20) shows the round trips, that frames
  survive any chunking, a length field that panics the compressed decoders, and a size check that is
  skipped.  \<open>Ipc_Protocol\<close> models \<^verbatim>\<open>negotiate_protocol\<close> and shows its result exact (C21).

  \<^bold>\<open>Output fan-out\<close> (\<^verbatim>\<open>OutputFanoutBuffer\<close> of \<^verbatim>\<open>plugins/pane-runtime-plugin/src/runtime.rs\<close>).  \<open>Output_Fanout\<close>
  models the buffer with its escape-sequence tracker, \<open>Output_Stream\<close> relates it to the stream of all
  output, \<open>Output_Correct\<close> proves the properties of runs, \<open>Output_Accounting\<close> has the shared counter as a
  step relation of interleaved threads, and \<open>Output_Parser\<close> sets tracker and terminal parser side by side.
  C22 to C30: the buffer holds a suffix of the stream, delivery in order, where a client may resume (an offset
  inside a multi-byte character is called safe and is not), exact accounting, termination of eviction,
  draining reads, and two ways to resume inside a sequence.

  \<^bold>\<open>Contexts\<close> (\<^verbatim>\<open>plugins/contexts-plugin\<close>).  \<open>Context_State\<close> and \<open>Context_Correct\<close> have the roster and its
  invariant (C31 to C33), kept by every operation, by rolled-back renames and by restores of coherent
  snapshots; the code does not check the snapshots it restores.  \<open>Context_Handlers\<close> and
  \<open>Context_Handlers_Correct\<close> have the command handlers, in which the services and other threads may change
  the roster in any way during a call (C34 to C38: a failed creation asks for its session to be killed and
  reports when that is not confirmed, a refused rename writes the old name back over whatever name it
  finds, activation creates nothing, an announcement without a change, and a leaked session).  Only C36
  assumes of a service that it leaves the roster alone, namely of the selection of a session.

  \<^bold>\<open>Clients\<close> (\<^verbatim>\<open>plugins/clients-plugin\<close>).  \<open>Follow_State\<close> models \<^verbatim>\<open>FollowState\<close>, the selection reservations and
  the adapter; \<open>Follow_Handlers\<close> the commit command with its checks in the other rosters.  \<open>Follow_Correct\<close>
  shows the invariant (C39) and that a reservation is committed only if the selection was left alone in
  between, provided that the snapshots restored meanwhile contain the client (C40), and gives the run in
  which a restored snapshot that lacks the client leaves a stale reservation in force.

  \<^bold>\<open>Parameters.\<close>  The service bus with the plugins behind it, the policy service, the compression
  libraries, and the textual form of a \<^verbatim>\<open>Uuid\<close> are arguments of the definitions; a new identifier is an
  argument of the operation that draws it.  Where a property assumes something of them, its witness
  instantiates them.

  \<^bold>\<open>Bounds and termination.\<close>  One definition takes fuel, the receive loop of \<open>Ipc_Frame_Correct\<close> that drains a
  buffer: the number of buffered bytes plus one, enough because no frame is empty, and C17 shows that the
  loop then leaves nothing behind.  All other loops are structural or have a termination proof; the eviction loop, whose progress depends on other threads, takes what they do at each iteration as a
  function, and C27 bounds its iterations whatever that function is.  Words have the widths of the
  source, and \<^verbatim>\<open>usize\<close> is 64 bits wide.  Stream offsets are natural numbers that saturate as in the code, and
  the properties of the stream assume that it is shorter than \<^verbatim>\<open>u64::MAX\<close> bytes.  The terminal parser's
  properties assume a buffer of at least 3 bytes.

  \<^bold>\<open>Not modelled.\<close>  Of the packages above: the handlers of the sessions plugin that forward to the pane runtime,
  the client commands that set the current session or a leader, the client identity service, the terminal
  grid beyond its parser, process supervision and layout in the pane runtime, and timing in the frame
  readers.  All other packages and plugins, the greater part of the repository: server, command line,
  configuration, key bindings, text editing, plugin host, recording, presentation, user interface, web and
  mobile front ends, and tooling.  Some of these, such as key bindings, text editing and pane layout, could
  be modelled in the same way; they are left out for their extent.
\<close>

end
